(* ===== verification/Order_Prelude.thy ===== *)
theory Order_Prelude
  imports Complex_Main "HOL-Library.Word" "HOL-Library.Multiset" "HOL-Library.Sublist"
begin

section \<open>Prelude: Go integers, panics, effects and decimal text\<close>

text \<open>
  What every theory of the development shares.

  \<^item> Go's \<open>int\<close> and \<open>time.Duration\<close> are 64-bit two's complement machine words: \<open>+\<close>
    and \<open>*\<close> wrap around, comparisons are signed and go through \<open>sint\<close>.
  \<^item> A Go function with effects is a function from the state it runs in to an outcome and the
    next state. The outcome is the returned value, or the message of a run-time panic; the
    second is what \<open>gin.Recovery\<close> turns into a response.
  \<^item> The decimal text of an integer (\<open>%d\<close>) and \<open>strconv.Atoi\<close>, with their round trip.
\<close>

named_theorems io_simps \<open>equations of the sequencing combinators\<close>
named_theorems frame_simps \<open>what the operations leave unchanged\<close>

type_synonym goint = "64 word"
type_synonym duration = "64 word"
type_synonym time = int
type_synonym uuid = "128 word"

subsection \<open>Outcomes and sequencing\<close>

datatype 'a outcome = Ret 'a | Panic string

type_synonym ('w, 'a) io = "'w \<Rightarrow> 'a outcome \<times> 'w"

definition ret :: "'a \<Rightarrow> ('w, 'a) io" where
  "ret x w = (Ret x, w)"

definition panic :: "string \<Rightarrow> ('w, 'a) io" where
  "panic msg w = (Panic msg, w)"

definition bindIO :: "('w, 'a) io \<Rightarrow> ('a \<Rightarrow> ('w, 'b) io) \<Rightarrow> ('w, 'b) io" where
  "bindIO m f w = (case m w of (Ret x, w') \<Rightarrow> f x w' | (Panic p, w') \<Rightarrow> (Panic p, w'))"

lemma ret_eq [simp, io_simps]: "ret x w = (Ret x, w)"
  by (simp add: ret_def)

lemma panic_eq [simp, io_simps]: "panic p w = (Panic p, w)"
  by (simp add: panic_def)

lemma bindIO_Ret [io_simps]: "m w = (Ret x, w') \<Longrightarrow> bindIO m f w = f x w'"
  by (simp add: bindIO_def)

lemma bindIO_Panic [io_simps]: "m w = (Panic p, w') \<Longrightarrow> bindIO m f w = (Panic p, w')"
  by (simp add: bindIO_def)

lemma bindIO_ret [simp]: "bindIO (ret x) f = f x"
  by (rule ext) (simp add: bindIO_def)

lemma bindIO_assoc: "bindIO (bindIO m f) g = bindIO m (\<lambda>x. bindIO (f x) g)"
  by (rule ext) (simp add: bindIO_def split: prod.splits outcome.splits)

lemma bindIO_E:
  assumes "bindIO m f w = (r, w')"
  obtains (Ret) x w1 where "m w = (Ret x, w1)" and "f x w1 = (r, w')"
    | (Panic) p where "m w = (Panic p, w')" and "r = Panic p"
  using assms by (auto simp: bindIO_def split: prod.splits outcome.splits)

lemma bindIO_RetE:
  assumes "bindIO m f w = (Ret y, w')"
  obtains x w1 where "m w = (Ret x, w1)" and "f x w1 = (Ret y, w')"
  using assms by (auto elim: bindIO_E)

subsection \<open>Preservation along a sequence\<close>

text \<open>A computation that returns from every state: it never panics.\<close>

definition returns :: "('w, 'a) io \<Rightarrow> bool" where
  "returns m \<longleftrightarrow> (\<forall>w. \<exists>x w'. m w = (Ret x, w'))"

lemma returns_ret [simp, intro]: "returns (ret x)"
  by (simp add: returns_def)

lemma returns_bindIO [intro]: "returns m \<Longrightarrow> (\<And>x. returns (f x)) \<Longrightarrow> returns (bindIO m f)"
  unfolding returns_def by (metis bindIO_Ret)

lemma returnsE: "returns m \<Longrightarrow> (\<And>x w'. m w = (Ret x, w') \<Longrightarrow> thesis) \<Longrightarrow> thesis"
  unfolding returns_def by blast

text \<open>
  \<open>preserves R m\<close>: whatever \<open>m\<close> does, the state it leaves is related by \<open>R\<close> to the state
  it found. \<open>R\<close> is a frame condition (a projection of the state is unchanged, the trace is
  extended, an invariant is kept); for a preorder it is closed under sequencing, which is how the
  frame facts of the operations are composed.
\<close>

definition preserves :: "('w \<Rightarrow> 'w \<Rightarrow> bool) \<Rightarrow> ('w, 'a) io \<Rightarrow> bool" where
  "preserves R m \<longleftrightarrow> (\<forall>w r w'. m w = (r, w') \<longrightarrow> R w w')"

lemma preservesI [intro?]: "(\<And>w r w'. m w = (r, w') \<Longrightarrow> R w w') \<Longrightarrow> preserves R m"
  by (simp add: preserves_def)

lemma preservesD: "preserves R m \<Longrightarrow> m w = (r, w') \<Longrightarrow> R w w'"
  by (simp add: preserves_def)

lemma preserves_ret: "reflp R \<Longrightarrow> preserves R (ret x)"
  by (simp add: preserves_def reflp_def)

lemma preserves_panic: "reflp R \<Longrightarrow> preserves R (panic p)"
  by (simp add: preserves_def reflp_def)

lemma preserves_bindIO:
  assumes "transp R" and "preserves R m" and "\<And>x. preserves R (f x)"
  shows "preserves R (bindIO m f)"
proof
  fix w r w'
  assume "bindIO m f w = (r, w')"
  then show "R w w'"
  proof (cases rule: bindIO_E)
    case (Ret x w1)
    then show ?thesis using assms by (meson preservesD transpD)
  next
    case (Panic p)
    then show ?thesis using assms(2) by (blast dest: preservesD)
  qed
qed

subsection \<open>Signed integers\<close>

abbreviation int64_min :: int where "int64_min \<equiv> - 9223372036854775808"
abbreviation int64_max :: int where "int64_max \<equiv> 9223372036854775807"

definition in_int64 :: "int \<Rightarrow> bool" where
  "in_int64 i \<longleftrightarrow> int64_min \<le> i \<and> i \<le> int64_max"

lemma sint_word_of_int64: "in_int64 i \<Longrightarrow> sint (word_of_int i :: goint) = i"
  by (simp add: in_int64_def signed_of_int signed_take_bit_int_eq_self)

lemma sint_in_int64 [simp]: "in_int64 (sint (x :: goint))"
  using sint_range_size [of x] by (simp add: in_int64_def word_size)

lemma sint_mult64: "in_int64 (sint x * sint y) \<Longrightarrow> sint (x * y :: goint) = sint x * sint y"
  using sint_word_of_int64 [of "sint x * sint y"] by (simp add: of_int_sint)

lemma sint_add64: "in_int64 (sint x + sint y) \<Longrightarrow> sint (x + y :: goint) = sint x + sint y"
  using sint_word_of_int64 [of "sint x + sint y"] by (simp add: of_int_sint)

subsection \<open>Decimal text\<close>

definition digit_char :: "nat \<Rightarrow> char" where
  "digit_char d = char_of (48 + d)"

definition is_digit :: "char \<Rightarrow> bool" where
  "is_digit c \<longleftrightarrow> 48 \<le> (of_char c :: nat) \<and> (of_char c :: nat) \<le> 57"

definition digit_value :: "char \<Rightarrow> nat" where
  "digit_value c = of_char c - 48"

fun show_nat :: "nat \<Rightarrow> string" where
  "show_nat n = (if n < 10 then [digit_char n] else show_nat (n div 10) @ [digit_char (n mod 10)])"

declare show_nat.simps [simp del]

text \<open>The text \<open>fmt\<close> writes for \<open>%d\<close>.\<close>

definition show_int :: "int \<Rightarrow> string" where
  "show_int i = (if i < 0 then CHR ''-'' # show_nat (nat (- i)) else show_nat (nat i))"

definition digits_value :: "string \<Rightarrow> nat" where
  "digits_value = foldl (\<lambda>n c. 10 * n + digit_value c) 0"

text \<open>
  \<open>strconv.Atoi\<close> (and \<open>strconv.ParseInt(s, 10, 64)\<close>): an optional sign, at least one decimal
  digit and nothing else, and a value that an \<open>int\<close> holds. \<open>None\<close> stands for the error, of which
  the program only asks whether there is one.
\<close>

definition split_sign :: "string \<Rightarrow> bool \<times> string" where
  "split_sign s = (case s of [] \<Rightarrow> (False, [])
     | c # cs \<Rightarrow> if c = CHR ''-'' then (True, cs) else if c = CHR ''+'' then (False, cs) else (False, s))"

definition atoi :: "string \<Rightarrow> goint option" where
  "atoi s = (let (neg, ds) = split_sign s in
     if ds = [] \<or> \<not> list_all is_digit ds then None
     else let v = (if neg then - int (digits_value ds) else int (digits_value ds))
          in if in_int64 v then Some (word_of_int v) else None)"

lemma of_digit_char: "d < 10 \<Longrightarrow> (of_char (digit_char d) :: nat) = 48 + d"
  by (simp add: digit_char_def)

lemma is_digit_digit_char [simp]: "d < 10 \<Longrightarrow> is_digit (digit_char d)"
  by (simp add: is_digit_def of_digit_char)

lemma digit_value_digit_char [simp]: "d < 10 \<Longrightarrow> digit_value (digit_char d) = d"
  by (simp add: digit_value_def of_digit_char)

lemma show_nat_not_Nil [simp]: "show_nat n \<noteq> []"
  by (subst show_nat.simps) simp

lemma show_nat_digits [simp]: "list_all is_digit (show_nat n)"
proof (induction n rule: show_nat.induct)
  case (1 n)
  then show ?case by (cases "n < 10") (simp_all add: show_nat.simps [of n])
qed

lemma digits_value_show_nat [simp]: "digits_value (show_nat n) = n"
proof (induction n rule: show_nat.induct)
  case (1 n)
  then show ?case by (cases "n < 10") (simp_all add: show_nat.simps [of n] digits_value_def)
qed

lemma sign_not_digit: "is_digit c \<Longrightarrow> c \<noteq> CHR ''-'' \<and> c \<noteq> CHR ''+''"
  by (auto simp: is_digit_def)

lemma split_sign_digits [simp]: "list_all is_digit ds \<Longrightarrow> split_sign ds = (False, ds)"
  by (cases ds) (auto simp: split_sign_def dest: sign_not_digit)

lemma split_sign_neg [simp]: "split_sign (CHR ''-'' # ds) = (True, ds)"
  by (simp add: split_sign_def)

lemma atoi_show_int: "in_int64 i \<Longrightarrow> atoi (show_int i) = Some (word_of_int i)"
  by (simp add: atoi_def show_int_def)

lemma atoi_show_sint [simp]: "atoi (show_int (sint x)) = Some x"
  by (simp add: atoi_show_int)

lemma show_int_inject: "in_int64 i \<Longrightarrow> in_int64 j \<Longrightarrow> show_int i = show_int j \<longleftrightarrow> i = j"
  by (metis atoi_show_int option.inject sint_word_of_int64)

text \<open>Looking up by a key that is unique.\<close>

lemma find_key: "distinct (map f xs) \<Longrightarrow> u \<in> set xs \<Longrightarrow> find (\<lambda>x. f x = f u) xs = Some u"
  by (induction xs) (auto simp: image_iff)

end
