(* ===== verification/Go_Errors.thy ===== *)
theory Go_Errors
  imports Order_Prelude
begin

section \<open>Go errors: sentinels, wrapping, \<open>errors.Is\<close> and \<open>errors.As\<close>\<close>

text \<open>
  The sentinel errors of the program are package variables made by \<open>errors.New\<close> or by
  \<open>fmt.Errorf\<close> without a \<open>%w\<close>: two of them are different values even where their texts agree
  (\<open>client.ErrUserNotFound\<close> and \<open>service.ErrUserNotFound\<close>, \<open>repository.ErrOrderNotFound\<close> and
  \<open>service.ErrOrderNotFound\<close>). They are the constructors of \<open>sentinel\<close>, with the package as
  prefix; \<open>pgx.ErrNoRows\<close> and \<open>http.ErrServerClosed\<close>, which the program compares against, are among them.

  An error of library code (the network, PostgreSQL, a cancelled context, the JSON decoder) is a
  \<open>foreign\<close> value: its text, and what its \<open>Timeout()\<close> method returns if it has one. No library
  error is or wraps one of the sentinels above.
\<close>

datatype sentinel =
    Client_ErrDownstreamUnavailable
  | Client_ErrDownstreamTimeout
  | Client_ErrProductNotFound
  | Client_ErrUserNotFound
  | Repository_ErrOrderNotFound
  | Service_ErrValidation
  | Service_ErrUserNotFound
  | Service_ErrProductNotFound
  | Service_ErrProductUnavailable
  | Service_ErrOrderNotFound
  | Service_ErrUpstreamUnavailable
  | Service_ErrPaymentDeclined
  | Pgx_ErrNoRows
  | Http_ErrServerClosed

datatype foreign = ForeignError (foreign_text: string) (foreign_timeout: "bool option")

text \<open>
  \<open>Wrapped msg e\<close> is the result of \<open>fmt.Errorf\<close> with one \<open>%w\<close> verb: the whole formatted text, and
  the error that \<open>Unwrap\<close> gives. \<open>Errorf msg\<close> is the result without a \<open>%w\<close>: an error that was
  formatted with \<open>%v\<close> survives only in the text.
\<close>

datatype go_error =
    Sentinel sentinel
  | Foreign foreign
  | Wrapped string go_error
  | Errorf string

fun sentinel_text :: "sentinel \<Rightarrow> string" where
  "sentinel_text Client_ErrDownstreamUnavailable = ''downstream service unavailable''"
| "sentinel_text Client_ErrDownstreamTimeout = ''downstream service timed out''"
| "sentinel_text Client_ErrProductNotFound = ''product not found''"
| "sentinel_text Client_ErrUserNotFound = ''user not found''"
| "sentinel_text Repository_ErrOrderNotFound = ''order not found''"
| "sentinel_text Service_ErrValidation = ''validation failed''"
| "sentinel_text Service_ErrUserNotFound = ''user not found''"
| "sentinel_text Service_ErrProductNotFound = ''product not found''"
| "sentinel_text Service_ErrProductUnavailable = ''product is out of stock or inactive''"
| "sentinel_text Service_ErrOrderNotFound = ''order not found''"
| "sentinel_text Service_ErrUpstreamUnavailable = ''a dependency is temporarily unavailable''"
| "sentinel_text Service_ErrPaymentDeclined = ''payment was declined''"
| "sentinel_text Pgx_ErrNoRows = ''no rows in result set''"
| "sentinel_text Http_ErrServerClosed = ''http: Server closed''"

text \<open>\<open>err.Error()\<close>.\<close>

fun error_text :: "go_error \<Rightarrow> string" where
  "error_text (Sentinel s) = sentinel_text s"
| "error_text (Foreign f) = foreign_text f"
| "error_text (Wrapped msg e) = msg"
| "error_text (Errorf msg) = msg"

text \<open>\<open>fmt.Errorf("%w\<dots>", e, \<dots>)\<close>: the wrapped error's text comes first.\<close>

definition errorf_w :: "go_error \<Rightarrow> string \<Rightarrow> go_error" where
  "errorf_w e rest = Wrapped (error_text e @ rest) e"

text \<open>\<open>errors.Is(err, target)\<close>: the chain of \<open>Unwrap\<close>s holds the target.\<close>

fun errors_is :: "go_error \<Rightarrow> sentinel \<Rightarrow> bool" where
  "errors_is (Sentinel s) t \<longleftrightarrow> s = t"
| "errors_is (Foreign f) t \<longleftrightarrow> False"
| "errors_is (Wrapped msg e) t \<longleftrightarrow> errors_is e t"
| "errors_is (Errorf msg) t \<longleftrightarrow> False"

text \<open>
  \<open>errors.As(err, &netErr)\<close> for the interface with a \<open>Timeout() bool\<close> method: the answer of the first
  error of the chain that has the method.
\<close>

fun errors_as_timeout :: "go_error \<Rightarrow> bool option" where
  "errors_as_timeout (Sentinel s) = None"
| "errors_as_timeout (Foreign f) = foreign_timeout f"
| "errors_as_timeout (Wrapped msg e) = errors_as_timeout e"
| "errors_as_timeout (Errorf msg) = None"

lemma errors_is_errorf_w [simp]: "errors_is (errorf_w e rest) t \<longleftrightarrow> errors_is e t"
  by (simp add: errorf_w_def)

lemma error_text_errorf_w [simp]: "error_text (errorf_w e rest) = error_text e @ rest"
  by (simp add: errorf_w_def)

text \<open>The chain of an error ends in at most one sentinel.\<close>

lemma errors_is_unique: "errors_is e s \<Longrightarrow> errors_is e t \<Longrightarrow> s = t"
  by (induction e) auto

end
