(* ===== verification/Go_Json.thy ===== *)
theory Go_Json
  imports Go_Errors
begin

section \<open>JSON values and \<open>encoding/json\<close> decoding into a struct\<close>

text \<open>
  A message body is a JSON value, or bytes that the decoder rejects (a syntax error, an empty body, a
  connection that breaks while the body is read) with the error it reports. Objects keep the order
  and the repetitions of their members; a number is its literal, as the decoder sees it.
\<close>

datatype json =
    JNull
  | JBool bool
  | JNumber string
  | JString string
  | JArray "json list"
  | JObject "(string \<times> json) list"

datatype body = JsonBody json | BadBody foreign

subsection \<open>Member names\<close>

text \<open>
  The decoder matches a member name to a field by Unicode simple case folding. Besides the letters
  themselves only the long s (bytes C5 BF) and the Kelvin sign (bytes E2 84 AA) fold to an ASCII letter.
\<close>

definition to_upper :: "char \<Rightarrow> char" where
  "to_upper c = (if 97 \<le> (of_char c :: nat) \<and> (of_char c :: nat) \<le> 122
     then char_of ((of_char c :: nat) - 32) else c)"

fun fold_name :: "string \<Rightarrow> string" where
  "fold_name [] = []"
| "fold_name (c # cs) =
     (if c = CHR 0xC5 \<and> take 1 cs = [CHR 0xBF] then CHR ''S'' # fold_name (drop 1 cs)
      else if c = CHR 0xE2 \<and> take 2 cs = [CHR 0x84, CHR 0xAA] then CHR ''K'' # fold_name (drop 2 cs)
      else to_upper c # fold_name cs)"

declare fold_name.simps [simp del]

subsection \<open>Fields\<close>

text \<open>A field of a Go struct: the name in its tag, and how a decoded value is stored.\<close>

datatype 'r field =
    StringField (field_name: string) "string \<Rightarrow> 'r \<Rightarrow> 'r"
  | IntField (field_name: string) "goint \<Rightarrow> 'r \<Rightarrow> 'r"
  | BoolField (field_name: string) "bool \<Rightarrow> 'r \<Rightarrow> 'r"

fun field_type :: "'r field \<Rightarrow> string" where
  "field_type (StringField n up) = ''string''"
| "field_type (IntField n up) = ''int''"
| "field_type (BoolField n up) = ''bool''"

fun json_kind :: "json \<Rightarrow> string" where
  "json_kind JNull = ''null''"
| "json_kind (JBool b) = ''bool''"
| "json_kind (JNumber lit) = ''number''"
| "json_kind (JString s) = ''string''"
| "json_kind (JArray js) = ''array''"
| "json_kind (JObject kvs) = ''object''"

text \<open>
  Storing one member: the updated struct, and the description of the value when it does not fit. \<open>null\<close>
  leaves a string, number or boolean field as it is. An \<open>int\<close> field takes an integer literal that fits.
\<close>

fun store :: "'r field \<Rightarrow> json \<Rightarrow> 'r \<Rightarrow> string + 'r" where
  "store fd JNull r = Inr r"
| "store (StringField n up) (JString s) r = Inr (up s r)"
| "store (BoolField n up) (JBool b) r = Inr (up b r)"
| "store (IntField n up) (JNumber lit) r =
     (case atoi lit of Some i \<Rightarrow> Inr (up i r) | None \<Rightarrow> Inl (''number '' @ lit))"
| "store fd j r = Inl (json_kind j)"

definition find_field :: "'r field list \<Rightarrow> string \<Rightarrow> 'r field option" where
  "find_field fds k = find (\<lambda>fd. fold_name (field_name fd) = fold_name k) fds"

text \<open>
  The members in order. A member that matches no field is skipped, a later one overwrites an earlier one,
  and the first value that does not fit is remembered while the decoding goes on.
\<close>

fun decode_members ::
  "string \<Rightarrow> 'r field list \<Rightarrow> (string \<times> json) list \<Rightarrow> 'r \<Rightarrow> foreign option \<Rightarrow> 'r \<times> foreign option" where
  "decode_members sname fds [] r err = (r, err)"
| "decode_members sname fds ((k, j) # kvs) r err =
     (case find_field fds k of
        None \<Rightarrow> decode_members sname fds kvs r err
      | Some fd \<Rightarrow>
          (case store fd j r of
             Inr r' \<Rightarrow> decode_members sname fds kvs r' err
           | Inl what \<Rightarrow> decode_members sname fds kvs r
               (case err of
                  Some f \<Rightarrow> Some f
                | None \<Rightarrow> Some (ForeignError
                    (''json: cannot unmarshal '' @ what @ '' into Go struct field '' @ sname @ ''.''
                      @ field_name fd @ '' of type '' @ field_type fd) None))))"

text \<open>\<open>json.NewDecoder(body).Decode(&r)\<close> for a struct type \<open>pkg.sname\<close>.\<close>

fun decode_body :: "string \<Rightarrow> string \<Rightarrow> 'r field list \<Rightarrow> 'r \<Rightarrow> body \<Rightarrow> foreign + 'r" where
  "decode_body pkg sname fds r (BadBody f) = Inl f"
| "decode_body pkg sname fds r (JsonBody JNull) = Inr r"
| "decode_body pkg sname fds r (JsonBody (JObject kvs)) =
     (case decode_members sname fds kvs r None of (r', None) \<Rightarrow> Inr r' | (r', Some f) \<Rightarrow> Inl f)"
| "decode_body pkg sname fds r (JsonBody j) =
     Inl (ForeignError (''json: cannot unmarshal '' @ json_kind j @ '' into Go value of type ''
       @ pkg @ ''.'' @ sname) None)"

subsection \<open>Encoding\<close>

text \<open>A nil slice is encoded as \<open>null\<close>; the slices of the program are nil until something is appended.\<close>

definition json_slice :: "('a \<Rightarrow> json) \<Rightarrow> 'a list \<Rightarrow> json" where
  "json_slice enc xs = (if xs = [] then JNull else JArray (map enc xs))"

definition json_int :: "goint \<Rightarrow> json" where
  "json_int i = JNumber (show_int (sint i))"

lemma decode_members_skip:
  "\<forall>(k, j)\<in>set kvs. find_field fds k = None \<Longrightarrow> decode_members sname fds kvs r err = (r, err)"
  by (induction kvs) (auto split: option.splits)

lemma decode_members_err_kept:
  "snd (decode_members sname fds kvs r (Some f)) = Some f"
  by (induction kvs arbitrary: r) (auto split: option.splits sum.splits)

end
