(* ===== verification/Order_Models.thy ===== *)
theory Order_Models
  imports Go_Json
begin

section \<open>The data model (\<open>internal/models/order.go\<close>)\<close>

text \<open>
  The structs of package \<open>models\<close> as records, with the same fields in the same order. \<open>OrderStatus\<close>
  is a Go string type with four named values; a value read from the database can be any string.
\<close>

type_synonym order_status = string

definition OrderStatusPending :: order_status where "OrderStatusPending = ''PENDING''"
definition OrderStatusConfirmed :: order_status where "OrderStatusConfirmed = ''CONFIRMED''"
definition OrderStatusFailed :: order_status where "OrderStatusFailed = ''FAILED''"
definition OrderStatusCancelled :: order_status where "OrderStatusCancelled = ''CANCELLED''"

lemmas status_defs =
  OrderStatusPending_def OrderStatusConfirmed_def OrderStatusFailed_def OrderStatusCancelled_def

record order_item =
  item_ID :: uuid
  item_ProductID :: uuid
  item_SKU :: string
  item_Quantity :: goint
  item_UnitPriceCents :: goint

record order_t =
  order_ID :: uuid
  order_UserID :: uuid
  order_Status :: order_status
  order_TotalCents :: goint
  order_Currency :: string
  order_Items :: "order_item list"
  order_CreatedAt :: time
  order_UpdatedAt :: time

record create_order_item_request =
  itemreq_ProductID :: string
  itemreq_Quantity :: goint

record create_order_request =
  req_UserID :: string
  req_Items :: "create_order_item_request list"

text \<open>
  What the \<open>binding\<close> tags ask of a request: a product id, a quantity that is not zero and greater than zero,
  a user id, and at least one item, every item checked (\<open>dive\<close>).
\<close>

definition item_binding_ok :: "create_order_item_request \<Rightarrow> bool" where
  "item_binding_ok it \<longleftrightarrow> itemreq_ProductID it \<noteq> [] \<and> itemreq_Quantity it \<noteq> 0 \<and> 0 < sint (itemreq_Quantity it)"

definition order_binding_ok :: "create_order_request \<Rightarrow> bool" where
  "order_binding_ok r \<longleftrightarrow> req_UserID r \<noteq> [] \<and> req_Items r \<noteq> [] \<and> 1 \<le> length (req_Items r)
     \<and> list_all item_binding_ok (req_Items r)"

text \<open>The sum the service is meant to charge: quantity times unit price over the lines, in mathematical integers.\<close>

definition line_cents :: "order_item \<Rightarrow> int" where
  "line_cents it = sint (item_UnitPriceCents it) * sint (item_Quantity it)"

definition lines_cents :: "order_item list \<Rightarrow> int" where
  "lines_cents its = (\<Sum>it\<leftarrow>its. line_cents it)"

lemma lines_cents_simps [simp]:
  "lines_cents [] = 0"
  "lines_cents (it # its) = line_cents it + lines_cents its"
  "lines_cents (xs @ ys) = lines_cents xs + lines_cents ys"
  by (simp_all add: lines_cents_def)

end
