(* ===== verification/Order_Schema.thy ===== *)
theory Order_Schema
  imports Order_Models
begin

section \<open>The tables (\<open>migrations/0001_init.up.sql\<close>)\<close>

text \<open>
  The two tables as lists of rows, with the columns, keys and checks of the migration, and the statements
  the repository runs on them. An \<open>INTEGER\<close> column holds 32 bits; a Go \<open>int\<close> that does not fit is refused.
  A \<open>VARCHAR(n)\<close> column holds \<open>n\<close> characters; a longer text is refused unless the excess is spaces.
  A statement that violates a constraint gives \<open>None\<close> and changes nothing.
\<close>

record order_row =
  row_id :: uuid
  row_user_id :: uuid
  row_status :: string
  row_total_cents :: int
  row_currency :: string
  row_created_at :: time
  row_updated_at :: time

record item_row =
  irow_id :: uuid
  irow_order_id :: uuid
  irow_product_id :: uuid
  irow_sku :: string
  irow_quantity :: int
  irow_unit_price_cents :: int

record database =
  db_orders :: "order_row list"
  db_items :: "item_row list"

subsection \<open>Column types\<close>

definition in_int4 :: "int \<Rightarrow> bool" where
  "in_int4 i \<longleftrightarrow> - 2147483648 \<le> i \<and> i \<le> 2147483647"

definition pg_int4 :: "goint \<Rightarrow> int option" where
  "pg_int4 x = (if in_int4 (sint x) then Some (sint x) else None)"

definition utf8_continuation :: "char \<Rightarrow> bool" where
  "utf8_continuation c \<longleftrightarrow> 128 \<le> (of_char c :: nat) \<and> (of_char c :: nat) < 192"

definition utf8_length :: "string \<Rightarrow> nat" where
  "utf8_length s = length (filter (\<lambda>c. \<not> utf8_continuation c) s)"

fun utf8_split :: "nat \<Rightarrow> string \<Rightarrow> string \<times> string" where
  "utf8_split n [] = ([], [])"
| "utf8_split n (c # cs) =
     (if utf8_continuation c then (case utf8_split n cs of (a, b) \<Rightarrow> (c # a, b))
      else case n of 0 \<Rightarrow> ([], c # cs) | Suc m \<Rightarrow> (case utf8_split m cs of (a, b) \<Rightarrow> (c # a, b)))"

definition pg_varchar :: "nat \<Rightarrow> string \<Rightarrow> string option" where
  "pg_varchar n s =
     (if CHR 0x00 \<in> set s then None
      else if utf8_length s \<le> n then Some s
      else case utf8_split n s of (keep, excess) \<Rightarrow>
        if list_all (\<lambda>c. c = CHR '' '') excess then Some keep else None)"

subsection \<open>Constraints\<close>

definition order_row_ok :: "order_row \<Rightarrow> bool" where
  "order_row_ok r \<longleftrightarrow> in_int4 (row_total_cents r) \<and> 0 \<le> row_total_cents r
     \<and> utf8_length (row_status r) \<le> 20 \<and> utf8_length (row_currency r) \<le> 3"

definition item_row_ok :: "item_row \<Rightarrow> bool" where
  "item_row_ok r \<longleftrightarrow> in_int4 (irow_quantity r) \<and> 0 < irow_quantity r
     \<and> in_int4 (irow_unit_price_cents r) \<and> 0 \<le> irow_unit_price_cents r
     \<and> utf8_length (irow_sku r) \<le> 64"

definition db_wf :: "database \<Rightarrow> bool" where
  "db_wf db \<longleftrightarrow> distinct (map row_id (db_orders db)) \<and> distinct (map irow_id (db_items db))
     \<and> (\<forall>it\<in>set (db_items db). irow_order_id it \<in> row_id ` set (db_orders db))
     \<and> (\<forall>r\<in>set (db_orders db). order_row_ok r) \<and> (\<forall>r\<in>set (db_items db). item_row_ok r)"

definition empty_db :: database where
  "empty_db = \<lparr>db_orders = [], db_items = []\<rparr>"

subsection \<open>Statements\<close>

text \<open>
  The encoding of the arguments of the two \<open>INSERT\<close>s, \<open>None\<close> where one does not fit its column. The
  resolution of a \<open>TIMESTAMPTZ\<close> is coarser than a Go time; \<open>ts\<close> is that conversion.
\<close>

definition encode_order :: "(time \<Rightarrow> time) \<Rightarrow> order_t \<Rightarrow> order_row option" where
  "encode_order ts od =
     (case (pg_varchar 20 (order_Status od), pg_int4 (order_TotalCents od), pg_varchar 3 (order_Currency od)) of
        (Some st, Some cents, Some cur) \<Rightarrow> Some
          \<lparr>row_id = order_ID od, row_user_id = order_UserID od, row_status = st, row_total_cents = cents,
           row_currency = cur, row_created_at = ts (order_CreatedAt od), row_updated_at = ts (order_UpdatedAt od)\<rparr>
      | _ \<Rightarrow> None)"

definition encode_item :: "uuid \<Rightarrow> order_item \<Rightarrow> item_row option" where
  "encode_item oid it =
     (case (pg_varchar 64 (item_SKU it), pg_int4 (item_Quantity it), pg_int4 (item_UnitPriceCents it)) of
        (Some sku, Some q, Some p) \<Rightarrow> Some
          \<lparr>irow_id = item_ID it, irow_order_id = oid, irow_product_id = item_ProductID it, irow_sku = sku,
           irow_quantity = q, irow_unit_price_cents = p\<rparr>
      | _ \<Rightarrow> None)"

text \<open>\<open>INSERT\<close>: primary key, \<open>CHECK\<close>s and, for an item, the foreign key.\<close>

definition insert_order :: "order_row \<Rightarrow> database \<Rightarrow> database option" where
  "insert_order r db =
     (if row_id r \<notin> row_id ` set (db_orders db) \<and> order_row_ok r
      then Some (db\<lparr>db_orders := db_orders db @ [r]\<rparr>) else None)"

definition insert_item :: "item_row \<Rightarrow> database \<Rightarrow> database option" where
  "insert_item r db =
     (if irow_id r \<notin> irow_id ` set (db_items db) \<and> item_row_ok r
         \<and> irow_order_id r \<in> row_id ` set (db_orders db)
      then Some (db\<lparr>db_items := db_items db @ [r]\<rparr>) else None)"

text \<open>\<open>UPDATE orders SET status, updated_at WHERE id\<close>: the new tables and the number of rows affected.\<close>

definition set_status :: "string \<Rightarrow> time \<Rightarrow> order_row \<Rightarrow> order_row" where
  "set_status st t r = r\<lparr>row_status := st, row_updated_at := t\<rparr>"

definition update_status_rows :: "uuid \<Rightarrow> string \<Rightarrow> time \<Rightarrow> database \<Rightarrow> database \<times> nat" where
  "update_status_rows i st t db =
     (db\<lparr>db_orders := map (\<lambda>r. if row_id r = i then set_status st t r else r) (db_orders db)\<rparr>,
      length (filter (\<lambda>r. row_id r = i) (db_orders db)))"

text \<open>
  The \<open>SELECT\<close>s. Without an \<open>ORDER BY\<close> the rows come in any order, and \<open>ORDER BY created_at DESC\<close> leaves
  the order of equal times open: \<open>rank\<close>, a ranking of the row ids that may differ for every query, is that
  freedom.
\<close>

definition select_order :: "uuid \<Rightarrow> database \<Rightarrow> order_row option" where
  "select_order i db = find (\<lambda>r. row_id r = i) (db_orders db)"

definition select_items :: "(uuid \<Rightarrow> nat) \<Rightarrow> uuid \<Rightarrow> database \<Rightarrow> item_row list" where
  "select_items rank i db = sort_key (rank \<circ> irow_id) (filter (\<lambda>r. irow_order_id r = i) (db_items db))"

definition select_by_user :: "(uuid \<Rightarrow> nat) \<Rightarrow> uuid \<Rightarrow> database \<Rightarrow> order_row list" where
  "select_by_user rank u db =
     sort_key (\<lambda>r. - row_created_at r)
       (sort_key (rank \<circ> row_id) (filter (\<lambda>r. row_user_id r = u) (db_orders db)))"

subsection \<open>What the tables hold of an order\<close>

text \<open>
  The abstract view of the tables: for an order id its row and the multiset of its item rows. The repository
  is specified on it.
\<close>

type_synonym stored = "uuid \<Rightarrow> (order_row \<times> item_row multiset) option"

definition stored_of :: "database \<Rightarrow> stored" where
  "stored_of db i = map_option (\<lambda>r. (r, mset (filter (\<lambda>it. irow_order_id it = i) (db_items db))))
     (select_order i db)"

lemma utf8_split_length:
  "utf8_split n s = (a, b) \<Longrightarrow> utf8_length a \<le> n"
  by (induction n s arbitrary: a b rule: utf8_split.induct)
    (auto simp: utf8_length_def split: if_splits nat.splits prod.splits)

lemma pg_varchar_length: "pg_varchar n s = Some t \<Longrightarrow> utf8_length t \<le> n"
  by (auto simp: pg_varchar_def split: if_splits prod.splits dest: utf8_split_length)

lemma pg_int4_Some: "pg_int4 x = Some i \<longleftrightarrow> i = sint x \<and> in_int4 i"
  by (auto simp: pg_int4_def)

lemma find_eq_None_conv: "find P xs = None \<longleftrightarrow> (\<forall>x\<in>set xs. \<not> P x)"
  by (induction xs) auto

lemma find_append: "find P (xs @ ys) = (case find P xs of None \<Rightarrow> find P ys | Some x \<Rightarrow> Some x)"
  by (induction xs) auto

lemma find_map_keep:
  "(\<And>x. P (f x) \<longleftrightarrow> P x) \<Longrightarrow> find P (map f xs) = map_option f (find P xs)"
  by (induction xs) auto

lemma select_order_None: "select_order i db = None \<longleftrightarrow> i \<notin> row_id ` set (db_orders db)"
  by (auto simp: select_order_def find_eq_None_conv)

lemma select_order_id: "select_order i db = Some r \<Longrightarrow> row_id r = i \<and> r \<in> set (db_orders db)"
  by (auto simp: select_order_def find_Some_iff)

lemma stored_None: "stored_of db i = None \<longleftrightarrow> i \<notin> row_id ` set (db_orders db)"
  by (simp add: stored_of_def select_order_None)

lemma stored_id: "stored_of db i = Some (r, its) \<Longrightarrow> row_id r = i"
  by (auto simp: stored_of_def dest: select_order_id)

lemma stored_row_ok: "db_wf db \<Longrightarrow> stored_of db i = Some (r, its) \<Longrightarrow> order_row_ok r"
  by (auto simp: stored_of_def db_wf_def dest: select_order_id)

lemma update_status_rows_stored:
  "stored_of (fst (update_status_rows i st t db)) =
     (case stored_of db i of None \<Rightarrow> stored_of db
      | Some (r, its) \<Rightarrow> (stored_of db)(i \<mapsto> (set_status st t r, its)))"
proof -
  let ?f = "\<lambda>r. if row_id r = i then set_status st t r else r"
  have sel: "select_order j (fst (update_status_rows i st t db)) = map_option ?f (select_order j db)" for j
    unfolding select_order_def update_status_rows_def
    by (simp add: find_map_keep set_status_def)
  have "stored_of (fst (update_status_rows i st t db)) j =
      map_option (\<lambda>(r, its). (?f r, its)) (stored_of db j)" for j
    unfolding stored_of_def sel
    by (cases "select_order j db") (simp_all add: update_status_rows_def)
  then show ?thesis
    by (fastforce simp: fun_eq_iff map_option_case split: option.splits dest: stored_id)
qed

lemma update_status_rows_wf:
  assumes "db_wf db" and "utf8_length st \<le> 20"
  shows "db_wf (fst (update_status_rows i st t db))"
proof -
  let ?f = "\<lambda>r. if row_id r = i then set_status st t r else r"
  have id: "row_id \<circ> ?f = row_id" by (auto simp: set_status_def)
  then have "row_id ` ?f ` set (db_orders db) = row_id ` set (db_orders db)"
    by (simp only: image_comp)
  with assms id show ?thesis
    by (auto simp: db_wf_def update_status_rows_def set_status_def order_row_ok_def)
qed

lemma update_status_rows_affected:
  "snd (update_status_rows i st t db) = 0 \<longleftrightarrow> stored_of db i = None"
  by (auto simp: update_status_rows_def stored_None filter_empty_conv)

lemma insert_order_wf: "db_wf db \<Longrightarrow> insert_order r db = Some db' \<Longrightarrow> db_wf db'"
  by (auto simp: db_wf_def insert_order_def split: if_splits)

lemma insert_item_wf: "db_wf db \<Longrightarrow> insert_item r db = Some db' \<Longrightarrow> db_wf db'"
  by (auto simp: db_wf_def insert_item_def split: if_splits)

lemma empty_db_wf: "db_wf empty_db"
  by (simp add: db_wf_def empty_db_def)

lemma db_wf_fk: "db_wf db \<Longrightarrow> it \<in> set (db_items db) \<Longrightarrow> irow_order_id it \<in> row_id ` set (db_orders db)"
  by (simp add: db_wf_def)

text \<open>An order that is new to the tables has no items yet: the foreign key.\<close>

lemma insert_order_stored:
  assumes "db_wf db" and "insert_order r db = Some db'"
  shows "stored_of db (row_id r) = None" and "stored_of db' = (stored_of db)(row_id r \<mapsto> (r, {#}))"
proof -
  from assms(2) have new: "row_id r \<notin> row_id ` set (db_orders db)"
    and db': "db' = db\<lparr>db_orders := db_orders db @ [r]\<rparr>"
    by (auto simp: insert_order_def split: if_splits)
  from new show "stored_of db (row_id r) = None" by (simp add: stored_None)
  have "filter (\<lambda>it. irow_order_id it = row_id r) (db_items db) = []"
    unfolding filter_empty_conv using db_wf_fk [OF assms(1)] new by metis
  moreover have "select_order j db' = (if j = row_id r then Some r else select_order j db)" for j
  proof -
    have "select_order (row_id r) db = None" using new by (simp add: select_order_None)
    then show ?thesis
      by (cases "select_order j db") (auto simp: db' select_order_def find_append)
  qed
  ultimately show "stored_of db' = (stored_of db)(row_id r \<mapsto> (r, {#}))"
    by (auto simp: fun_eq_iff stored_of_def db' filter_empty_conv)
qed

lemma insert_item_stored:
  assumes "insert_item r db = Some db'"
  obtains row its where "stored_of db (irow_order_id r) = Some (row, its)"
    and "stored_of db' = (stored_of db)(irow_order_id r \<mapsto> (row, add_mset r its))"
proof -
  from assms have "irow_order_id r \<in> row_id ` set (db_orders db)"
    and db': "db' = db\<lparr>db_items := db_items db @ [r]\<rparr>"
    by (auto simp: insert_item_def split: if_splits)
  then obtain row its where st: "stored_of db (irow_order_id r) = Some (row, its)"
    using stored_None [of db "irow_order_id r"] by (cases "stored_of db (irow_order_id r)") auto
  have "stored_of db' = (stored_of db)(irow_order_id r \<mapsto> (row, add_mset r its))"
    using st unfolding db' by (auto simp: fun_eq_iff stored_of_def select_order_def)
  with st show thesis by (rule that)
qed

text \<open>The selects return exactly the matching rows, and the user's orders newest first.\<close>

lemma mset_select_items: "mset (select_items rank i db) = mset (filter (\<lambda>r. irow_order_id r = i) (db_items db))"
  by (simp add: select_items_def)

lemma mset_select_by_user: "mset (select_by_user rank u db) = mset (filter (\<lambda>r. row_user_id r = u) (db_orders db))"
  by (simp add: select_by_user_def)

lemma set_select_by_user: "set (select_by_user rank u db) = {r \<in> set (db_orders db). row_user_id r = u}"
  by (simp add: select_by_user_def)

lemma select_by_user_sorted:
  "sorted_wrt (\<lambda>r r'. row_created_at r' \<le> row_created_at r) (select_by_user rank u db)"
proof -
  have "sorted (map (\<lambda>r. - row_created_at r) (select_by_user rank u db))"
    unfolding select_by_user_def by (rule sorted_sort_key)
  then show ?thesis by (simp add: sorted_wrt_map)
qed

lemma find_key_distinct:
  "distinct (map f xs) \<Longrightarrow> x \<in> set xs \<Longrightarrow> find (\<lambda>y. f y = f x) xs = Some x"
  by (induction xs) (auto simp: rev_image_eqI)

lemma select_order_member: "db_wf db \<Longrightarrow> r \<in> set (db_orders db) \<Longrightarrow> select_order (row_id r) db = Some r"
  by (simp add: select_order_def db_wf_def find_key_distinct)

lemma pg_varchar_short: "pg_varchar n s = Some t \<Longrightarrow> utf8_length s \<le> n \<Longrightarrow> t = s"
  by (auto simp: pg_varchar_def split: if_splits)

end
