(* ===== verification/Go_World.thy ===== *)
theory Go_World
  imports Order_Schema
begin

section \<open>The environment and the world of the service\<close>

text \<open>
  Everything the service does not decide itself is a field of \<open>env\<close>: what the \<open>n\<close>-th HTTP exchange, the
  \<open>n\<close>-th wait, the \<open>n\<close>-th statement and the \<open>n\<close>-th query or ping bring, the ids \<open>uuid.New\<close> draws, the clock, the
  order in which PostgreSQL returns rows, and the functions of packages whose code is not in the repository
  (\<open>google/uuid\<close>, gin's binding of a request body) or that depend on the machine's zone (the text of a time).
  A theorem for every \<open>env\<close> is a theorem for every behaviour of the network, the database and the callers.

  The \<open>world\<close> counts these interactions, holds the tables, and keeps the trace of what the service did.
\<close>

subsection \<open>HTTP messages\<close>

record http_request =
  rq_method :: string
  rq_url :: string
  rq_headers :: "(string \<times> string) list"
  rq_body :: "json option"

text \<open>A response carries the number of its exchange, so that the trace says which bodies were closed.\<close>

record http_response =
  rs_exchange :: nat
  rs_status :: goint
  rs_body :: body

subsection \<open>The environment\<close>

datatype exec_outcome =
    ExecOk                  \<comment> \<open>the statement took effect (if no constraint refuses it)\<close>
  | ExecErr foreign         \<comment> \<open>it failed without effect\<close>
  | ExecLost foreign        \<comment> \<open>it took effect, but the answer was lost\<close>

datatype query_outcome =
    QueryOk                 \<comment> \<open>all rows\<close>
  | QueryErr foreign        \<comment> \<open>no rows, an error\<close>
  | RowsErr nat foreign     \<comment> \<open>some rows, then the connection breaks\<close>
  | ScanErr nat foreign     \<comment> \<open>some rows, then one that \<open>Scan\<close> refuses\<close>

record env =
  e_net :: "nat \<Rightarrow> http_request \<Rightarrow> foreign + (goint \<times> body)"
  e_wait :: "nat \<Rightarrow> foreign option"
  e_exec :: "nat \<Rightarrow> exec_outcome"
  e_violation :: "nat \<Rightarrow> foreign"
  e_query :: "nat \<Rightarrow> query_outcome"
  e_rank :: "nat \<Rightarrow> uuid \<Rightarrow> nat"
  e_uuid :: "nat \<Rightarrow> uuid"
  e_now :: "nat \<Rightarrow> time"
  e_new_request :: "string \<Rightarrow> foreign option"
  e_timestamptz :: "time \<Rightarrow> time"
  e_uuid_parse :: "string \<Rightarrow> uuid option"
  e_uuid_string :: "uuid \<Rightarrow> string"
  e_ping :: "nat \<Rightarrow> foreign option"
  e_bind :: "body \<Rightarrow> foreign + create_order_request"
  e_time_text :: "time \<Rightarrow> string"

text \<open>
  What the service relies on of gin's \<open>ShouldBindJSON\<close>: a request it hands on without an error satisfies the
  \<open>binding\<close> tags of its type.
\<close>

definition binding_checked :: "env \<Rightarrow> bool" where
  "binding_checked E \<longleftrightarrow> (\<forall>b req. e_bind E b = Inr req \<longrightarrow> order_binding_ok req)"

subsection \<open>The trace\<close>

datatype log_level = LevelDebug | LevelInfo | LevelWarn | LevelError

datatype log_value =
    LString string
  | LInt int
  | LUuid uuid
  | LDuration duration
  | LError "go_error option"

datatype db_event =
    DbBegin
  | DbInsertOrder uuid
  | DbInsertItem uuid uuid
  | DbCommit
  | DbRollback
  | DbUpdateStatus uuid string
  | DbSelectOrder uuid
  | DbSelectItems uuid
  | DbSelectByUser uuid
  | DbPing

datatype event =
    EvRequest nat duration http_request   \<comment> \<open>exchange \<open>n\<close>, sent under this timeout\<close>
  | EvAnswered nat                        \<comment> \<open>exchange \<open>n\<close> got a response, whose body is now open\<close>
  | EvClose nat                           \<comment> \<open>that body is closed\<close>
  | EvWait duration
  | EvLog log_level string "(string \<times> log_value) list"
  | EvDb db_event

record world =
  w_exchanges :: nat
  w_waits :: nat
  w_execs :: nat
  w_queries :: nat
  w_uuids :: nat
  w_nows :: nat
  w_db :: database
  w_trace :: "event list"

definition start_world :: "database \<Rightarrow> world" where
  "start_world db = \<lparr>w_exchanges = 0, w_waits = 0, w_execs = 0, w_queries = 0, w_uuids = 0, w_nows = 0,
     w_db = db, w_trace = []\<rparr>"

subsection \<open>Primitive effects\<close>

definition emit :: "event \<Rightarrow> (world, unit) io" where
  "emit ev w = (Ret (), w\<lparr>w_trace := w_trace w @ [ev]\<rparr>)"

definition log_at :: "log_level \<Rightarrow> string \<Rightarrow> (string \<times> log_value) list \<Rightarrow> (world, unit) io" where
  "log_at lvl msg attrs = emit (EvLog lvl msg attrs)"

definition uuid_New :: "env \<Rightarrow> (world, uuid) io" where
  "uuid_New E w = (Ret (e_uuid E (w_uuids w)), w\<lparr>w_uuids := Suc (w_uuids w)\<rparr>)"

definition time_Now :: "env \<Rightarrow> (world, time) io" where
  "time_Now E w = (Ret (e_now E (w_nows w)), w\<lparr>w_nows := Suc (w_nows w)\<rparr>)"

text \<open>The \<open>select\<close> between a timer and \<open>ctx.Done()\<close>: \<open>None\<close> when the timer fires, else \<open>ctx.Err()\<close>.\<close>

definition wait_or_done :: "env \<Rightarrow> duration \<Rightarrow> (world, foreign option) io" where
  "wait_or_done E d w =
     (Ret (e_wait E (w_waits w)), w\<lparr>w_waits := Suc (w_waits w), w_trace := w_trace w @ [EvWait d]\<rparr>)"

text \<open>\<open>http.Client.Do\<close> with the client's timeout: an error, or a response whose body the caller has to close.\<close>

definition http_Do :: "env \<Rightarrow> duration \<Rightarrow> http_request \<Rightarrow> (world, foreign + http_response) io" where
  "http_Do E timeout rq w =
     (let n = w_exchanges w;
          w1 = w\<lparr>w_exchanges := Suc n, w_trace := w_trace w @ [EvRequest n timeout rq]\<rparr>
      in case e_net E n rq of
           Inl f \<Rightarrow> (Ret (Inl f), w1)
         | Inr (st, b) \<Rightarrow>
             (Ret (Inr \<lparr>rs_exchange = n, rs_status = st, rs_body = b\<rparr>),
              w1\<lparr>w_trace := w_trace w1 @ [EvAnswered n]\<rparr>))"

definition close_body :: "http_response \<Rightarrow> (world, unit) io" where
  "close_body resp = emit (EvClose (rs_exchange resp))"

text \<open>\<open>http.NewRequestWithContext\<close> fails exactly when the URL does not parse.\<close>

definition http_NewRequest :: "env \<Rightarrow> http_request \<Rightarrow> go_error + http_request" where
  "http_NewRequest E rq = (case e_new_request E (rq_url rq) of Some f \<Rightarrow> Inl (Foreign f) | None \<Rightarrow> Inr rq)"

subsection \<open>Projections of the trace\<close>

fun requests_of :: "event list \<Rightarrow> http_request list" where
  "requests_of [] = []"
| "requests_of (EvRequest n d rq # es) = rq # requests_of es"
| "requests_of (_ # es) = requests_of es"

fun waits_of :: "event list \<Rightarrow> duration list" where
  "waits_of [] = []"
| "waits_of (EvWait d # es) = d # waits_of es"
| "waits_of (_ # es) = waits_of es"

text \<open>The exchanges whose response body is open after a trace.\<close>

fun open_after :: "nat set \<Rightarrow> event list \<Rightarrow> nat set" where
  "open_after S [] = S"
| "open_after S (EvAnswered n # es) = open_after (insert n S) es"
| "open_after S (EvClose n # es) = open_after (S - {n}) es"
| "open_after S (_ # es) = open_after S es"

text \<open>The requests with method POST: in this service, the charges.\<close>

definition posts_of :: "event list \<Rightarrow> http_request list" where
  "posts_of es = filter (\<lambda>rq. rq_method rq = ''POST'') (requests_of es)"

abbreviation open_bodies :: "world \<Rightarrow> nat set" where
  "open_bodies w \<equiv> open_after {} (w_trace w)"

abbreviation charges :: "world \<Rightarrow> http_request list" where
  "charges w \<equiv> posts_of (w_trace w)"

abbreviation stored :: "world \<Rightarrow> stored" where
  "stored w \<equiv> stored_of (w_db w)"

text \<open>The invariant of the providers: the tables satisfy their constraints, and no response body is open.\<close>

definition ok_world :: "world \<Rightarrow> bool" where
  "ok_world w \<longleftrightarrow> db_wf (w_db w) \<and> open_bodies w = {}"

lemma requests_of_append [simp]: "requests_of (xs @ ys) = requests_of xs @ requests_of ys"
  by (induction xs rule: requests_of.induct) auto

lemma waits_of_append [simp]: "waits_of (xs @ ys) = waits_of xs @ waits_of ys"
  by (induction xs rule: waits_of.induct) auto

lemma open_after_append [simp]: "open_after S (xs @ ys) = open_after (open_after S xs) ys"
  by (induction S xs rule: open_after.induct) auto

lemma posts_of_append [simp]: "posts_of (xs @ ys) = posts_of xs @ posts_of ys"
  by (simp add: posts_of_def)

lemma posts_of_simps [simp]:
  "posts_of [] = []"
  "posts_of (EvRequest n d rq # es) = (if rq_method rq = ''POST'' then rq # posts_of es else posts_of es)"
  "posts_of (EvAnswered n # es) = posts_of es"
  "posts_of (EvClose n # es) = posts_of es"
  "posts_of (EvWait d # es) = posts_of es"
  "posts_of (EvLog l m a # es) = posts_of es"
  "posts_of (EvDb x # es) = posts_of es"
  by (simp_all add: posts_of_def)

lemmas effect_defs = emit_def log_at_def uuid_New_def time_Now_def wait_or_done_def close_body_def

subsection \<open>Concrete environments\<close>

text \<open>
  For evaluating the model on concrete inputs. In \<open>calm_env\<close> everything succeeds at once; a UUID's text is its decimal
  value, which stands for the functions of the UUID package, and \<open>example_bind\<close> stands for gin's binding. In \<open>flaky_env\<close> the first exchange is a 503.
\<close>

definition decimal_uuid_parse :: "string \<Rightarrow> uuid option" where
  "decimal_uuid_parse s = (if s \<noteq> [] \<and> list_all is_digit s then Some (word_of_nat (digits_value s)) else None)"

definition decimal_uuid_string :: "uuid \<Rightarrow> string" where
  "decimal_uuid_string u = show_nat (unat u)"

lemma decimal_uuid_roundtrip [simp]: "decimal_uuid_parse (decimal_uuid_string u) = Some u"
  by (simp add: decimal_uuid_parse_def decimal_uuid_string_def)

text \<open>A binding for bodies of one shape: \<open>{"userId": u, "items": [{"productId": p, "quantity": q}, ...]}\<close>.\<close>

definition example_line :: "json \<Rightarrow> create_order_item_request option" where
  "example_line j = (case j of
       JObject [(k, JString p), (k', JNumber q)] \<Rightarrow>
         if k = ''productId'' \<and> k' = ''quantity''
         then map_option (\<lambda>n. \<lparr>itemreq_ProductID = p, itemreq_Quantity = n\<rparr>) (atoi q) else None
     | _ \<Rightarrow> None)"

definition example_bind :: "body \<Rightarrow> foreign + create_order_request" where
  "example_bind b = (case b of
       JsonBody (JObject [(k, JString u), (k', JArray js)]) \<Rightarrow>
         (case those (map example_line js) of
            Some reqs \<Rightarrow>
              let r = \<lparr>req_UserID = u, req_Items = reqs\<rparr> in
              if k = ''userId'' \<and> k' = ''items'' \<and> order_binding_ok r then Inr r
              else Inl (ForeignError ''validation failed'' None)
          | None \<Rightarrow> Inl (ForeignError ''malformed item'' None))
     | _ \<Rightarrow> Inl (ForeignError ''malformed body'' None))"

lemma example_bind_checked: "example_bind b = Inr req \<Longrightarrow> order_binding_ok req"
  by (auto simp: example_bind_def Let_def split: body.splits json.splits list.splits option.splits prod.splits if_splits)

definition calm_env :: env where
  "calm_env = \<lparr>e_net = \<lambda>n rq. Inr (200, JsonBody JNull), e_wait = \<lambda>n. None, e_exec = \<lambda>n. ExecOk,
     e_violation = \<lambda>n. ForeignError ''constraint violation'' None, e_query = \<lambda>n. QueryOk, e_rank = \<lambda>n u. 0,
     e_uuid = \<lambda>n. word_of_nat (Suc n), e_now = \<lambda>n. int n, e_new_request = \<lambda>url. None, e_timestamptz = \<lambda>t. t,
     e_uuid_parse = decimal_uuid_parse, e_uuid_string = decimal_uuid_string, e_ping = \<lambda>n. None,
     e_bind = example_bind, e_time_text = show_int\<rparr>"

definition flaky_env :: env where
  "flaky_env = calm_env\<lparr>e_net := \<lambda>n rq. if n = 0 then Inr (503, JsonBody JNull) else Inr (200, JsonBody JNull)\<rparr>"

definition example_request :: http_request where
  "example_request = \<lparr>rq_method = ''GET'', rq_url = ''http://localhost:8081/api/v1/users/1'', rq_headers = [], rq_body = None\<rparr>"

end
