(* ===== verification/Payment_Service.thy ===== *)
theory Payment_Service
  imports Go_World
begin

section \<open>The payment service (\<open>payment-service\<close>)\<close>

text \<open>
  The callee that makes charges safe to repeat: \<open>PaymentsController.Charge\<close> and \<open>PaymentProcessingService.ChargeAsync\<close>, on the
  table \<open>payments\<close>. Requests are asynchronous and overlap: a request is a phase, a step is one call of the database or of
  the card gateway, and at every step the call may fail, take effect although it failed, or be cancelled. The calls of the
  gateway are kept in the order they were made, with the idempotency key they were made for and their outcome.

  What is asked of .NET and of the choices made outside the program is a parameter: parsing and printing of GUIDs,
  upper-casing, reading of the JSON body. Strings are lists of characters.
\<close>

subsection \<open>Data (\<open>Models\<close>, \<open>migrations/001_init.sql\<close>)\<close>

datatype payment_status = Payment_Pending | Payment_Succeeded | Payment_Failed | Payment_Declined

record payment =
  pay_Id :: uuid
  pay_OrderId :: uuid
  pay_UserId :: uuid
  pay_AmountCents :: int
  pay_Currency :: string
  pay_Status :: payment_status
  pay_TransactionId :: "string option"
  pay_FailureReason :: "string option"
  pay_IdempotencyKey :: string
  pay_CreatedAt :: time
  pay_UpdatedAt :: time

record charge_body =
  body_OrderId :: string
  body_UserId :: string
  body_AmountCents :: int
  body_Currency :: string

record gateway_request =
  gw_OrderId :: string
  gw_AmountCents :: int
  gw_Currency :: string

text \<open>What a call of the gateway comes to: a result, the exception for an unreachable gateway, or any other exception.\<close>

datatype gateway_outcome =
  Gateway_result bool "string option" "string option" | Gateway_unavailable | Gateway_threw

record pay_store =
  st_payments :: "payment list"
  st_gateway :: "(string \<times> gateway_request \<times> gateway_outcome) list"

definition text_fits :: "nat \<Rightarrow> string option \<Rightarrow> bool" where
  "text_fits n t \<longleftrightarrow> (case t of None \<Rightarrow> True | Some s \<Rightarrow> length s \<le> n \<and> CHR 0x00 \<notin> set s)"

definition payment_row_ok :: "payment \<Rightarrow> bool" where
  "payment_row_ok p \<longleftrightarrow> 0 < pay_AmountCents p \<and> pay_AmountCents p < 2 ^ 31 \<and> text_fits 3 (Some (pay_Currency p))
     \<and> text_fits 100 (pay_TransactionId p) \<and> text_fits 255 (pay_FailureReason p) \<and> text_fits 100 (Some (pay_IdempotencyKey p))"

text \<open>An \<open>INSERT\<close> under the primary key and the unique index of the keys, and the \<open>UPDATE\<close> of one row.\<close>

definition insert_payment :: "payment \<Rightarrow> payment list \<Rightarrow> payment list option" where
  "insert_payment p ps =
     (if pay_Id p \<notin> pay_Id ` set ps \<and> pay_IdempotencyKey p \<notin> pay_IdempotencyKey ` set ps \<and> payment_row_ok p
      then Some (ps @ [p]) else None)"

definition update_payment :: "payment \<Rightarrow> payment list \<Rightarrow> payment list option" where
  "update_payment p ps =
     (if payment_row_ok p
      then Some (map (\<lambda>q. if pay_Id q = pay_Id p
          then q\<lparr>pay_Status := pay_Status p, pay_TransactionId := pay_TransactionId p, pay_FailureReason := pay_FailureReason p,
            pay_UpdatedAt := pay_UpdatedAt p\<rparr>
          else q) ps)
      else None)"

subsection \<open>What is not the program's\<close>

record dotnet =
  net_guid_parse :: "string \<Rightarrow> uuid option"
  net_guid_text :: "uuid \<Rightarrow> string"
  net_upper :: "string \<Rightarrow> string"
  net_time_text :: "time \<Rightarrow> string"
  net_read_body :: "json option \<Rightarrow> charge_body option"

text \<open>A call of the database returns, fails without effect, or fails although it took effect.\<close>

datatype db_outcome = Db_ok | Db_failed | Db_lost

record choice =
  ch_guid :: uuid
  ch_now :: time
  ch_now2 :: time
  ch_db :: db_outcome
  ch_gateway :: gateway_outcome

subsection \<open>\<open>PaymentsController.Charge\<close>\<close>

definition blank :: "string \<Rightarrow> bool" where
  "blank s \<longleftrightarrow> (\<forall>c\<in>set s. c \<in> set [CHR '' '', CHR 0x09, CHR 0x0A, CHR 0x0B, CHR 0x0C, CHR 0x0D, CHR 0x85, CHR 0xA0])"

definition model_valid :: "charge_body \<Rightarrow> bool" where
  "model_valid r \<longleftrightarrow> \<not> blank (body_OrderId r) \<and> \<not> blank (body_UserId r) \<and> 1 \<le> body_AmountCents r \<and> body_AmountCents r \<le> 2147483647
     \<and> \<not> blank (body_Currency r) \<and> length (body_Currency r) = 3"

definition idempotency_key :: "string option \<Rightarrow> charge_body \<Rightarrow> string" where
  "idempotency_key header r = (case header of None \<Rightarrow> body_OrderId r | Some h \<Rightarrow> if blank h then body_OrderId r else h)"

datatype pay_phase =
    Looking charge_body string
  | Inserting payment
  | At_gateway payment
  | Saving payment
  | Answered int payment
  | Bad_request
  | Threw

definition receive_charge :: "dotnet \<Rightarrow> http_request \<Rightarrow> pay_phase" where
  "receive_charge net rq =
     (case net_read_body net (rq_body rq) of
        None \<Rightarrow> Bad_request
      | Some r \<Rightarrow>
          if model_valid r then Looking r (idempotency_key (map_of (rq_headers rq) ''Idempotency-Key'') r)
          else Bad_request)"

definition answer :: "payment \<Rightarrow> pay_phase" where
  "answer p = Answered (case pay_Status p of Payment_Succeeded \<Rightarrow> 200 | Payment_Declined \<Rightarrow> 402 | _ \<Rightarrow> 502) p"

text \<open>\<open>ChargeResponse.FromPayment\<close>, as JSON.\<close>

fun status_name :: "payment_status \<Rightarrow> string" where
  "status_name Payment_Pending = ''PENDING''"
| "status_name Payment_Succeeded = ''SUCCEEDED''"
| "status_name Payment_Failed = ''FAILED''"
| "status_name Payment_Declined = ''DECLINED''"

definition json_option :: "string option \<Rightarrow> json" where
  "json_option t = (case t of None \<Rightarrow> JNull | Some s \<Rightarrow> JString s)"

definition payment_json :: "dotnet \<Rightarrow> payment \<Rightarrow> json" where
  "payment_json net p = JObject
     [(''id'', JString (net_guid_text net (pay_Id p))), (''orderId'', JString (net_guid_text net (pay_OrderId p))),
      (''status'', JString (status_name (pay_Status p))), (''transactionId'', json_option (pay_TransactionId p)),
      (''reason'', json_option (pay_FailureReason p)), (''amountCents'', JNumber (show_int (pay_AmountCents p))),
      (''currency'', JString (pay_Currency p)), (''createdAt'', JString (net_time_text net (pay_CreatedAt p)))]"

subsection \<open>\<open>PaymentProcessingService.ChargeAsync\<close>\<close>

definition new_payment :: "dotnet \<Rightarrow> choice \<Rightarrow> charge_body \<Rightarrow> string \<Rightarrow> uuid \<Rightarrow> uuid \<Rightarrow> payment" where
  "new_payment net ch r key orderId userId =
     \<lparr>pay_Id = ch_guid ch, pay_OrderId = orderId, pay_UserId = userId, pay_AmountCents = body_AmountCents r,
      pay_Currency = net_upper net (body_Currency r), pay_Status = Payment_Pending, pay_TransactionId = None,
      pay_FailureReason = None, pay_IdempotencyKey = key, pay_CreatedAt = ch_now ch, pay_UpdatedAt = ch_now2 ch\<rparr>"

definition settled_payment :: "payment \<Rightarrow> gateway_outcome \<Rightarrow> payment option" where
  "settled_payment p outcome = (case outcome of
       Gateway_result approved tx reason \<Rightarrow> Some (p\<lparr>pay_Status := if approved then Payment_Succeeded else Payment_Declined,
         pay_TransactionId := tx, pay_FailureReason := reason\<rparr>)
     | Gateway_unavailable \<Rightarrow> Some (p\<lparr>pay_Status := Payment_Failed, pay_FailureReason := Some ''gateway_unavailable''\<rparr>)
     | Gateway_threw \<Rightarrow> None)"

text \<open>A \<open>SaveChangesAsync\<close>: the new rows, or an exception; an exception need not mean that nothing was saved.\<close>

definition saving :: "db_outcome \<Rightarrow> payment list option \<Rightarrow> pay_phase \<Rightarrow> pay_store \<Rightarrow> pay_phase \<times> pay_store" where
  "saving outcome rows ph st = (case rows of
       None \<Rightarrow> (Threw, st)
     | Some ps \<Rightarrow> (case outcome of
           Db_ok \<Rightarrow> (ph, st\<lparr>st_payments := ps\<rparr>) | Db_failed \<Rightarrow> (Threw, st) | Db_lost \<Rightarrow> (Threw, st\<lparr>st_payments := ps\<rparr>)))"

fun pay_advance :: "dotnet \<Rightarrow> choice \<Rightarrow> pay_phase \<Rightarrow> pay_store \<Rightarrow> pay_phase \<times> pay_store" where
  "pay_advance net ch (Looking r key) st =
     (if ch_db ch \<noteq> Db_ok then (Threw, st)
      else case find (\<lambda>p. pay_IdempotencyKey p = key) (st_payments st) of
          Some p \<Rightarrow> (answer p, st)
        | None \<Rightarrow>
            (case (net_guid_parse net (body_OrderId r), net_guid_parse net (body_UserId r)) of
               (Some orderId, Some userId) \<Rightarrow> (Inserting (new_payment net ch r key orderId userId), st)
             | _ \<Rightarrow> (Bad_request, st)))"
| "pay_advance net ch (Inserting p) st = saving (ch_db ch) (insert_payment p (st_payments st)) (At_gateway p) st"
| "pay_advance net ch (At_gateway p) st =
     (let call = \<lparr>gw_OrderId = net_guid_text net (pay_OrderId p), gw_AmountCents = pay_AmountCents p, gw_Currency = pay_Currency p\<rparr>
      in (case settled_payment p (ch_gateway ch) of Some p' \<Rightarrow> Saving p' | None \<Rightarrow> Threw,
          st\<lparr>st_gateway := st_gateway st @ [(pay_IdempotencyKey p, call, ch_gateway ch)]\<rparr>))"
| "pay_advance net ch (Saving p) st =
     (let p' = p\<lparr>pay_UpdatedAt := ch_now ch\<rparr>
      in saving (ch_db ch) (update_payment p' (st_payments st)) (answer p') st)"
| "pay_advance net ch ph st = (ph, st)"

subsection \<open>Reading a payment (\<open>GetById\<close>)\<close>

text \<open>The status and the body; the message of a 404 quotes the id.\<close>

definition get_payment :: "dotnet \<Rightarrow> uuid \<Rightarrow> pay_store \<Rightarrow> int \<times> json" where
  "get_payment net i st = (case find (\<lambda>p. pay_Id p = i) (st_payments st) of
       None \<Rightarrow> (404, JObject [(''error'', JString ''payment_not_found''),
         (''message'', JString (''Payment '' @ net_guid_text net i @ '' not found''))])
     | Some p \<Rightarrow> (200, payment_json net p))"

subsection \<open>The two gateways\<close>

text \<open>
  \<open>SimulatedPaymentGatewayClient.ChargeAsync\<close>: the delay may be cancelled; an ordinal comparison that ignores case compares the
  upper-cased texts; an approved charge gets the hexadecimal digits of a new GUID as its transaction.
\<close>

definition simulated_charge :: "dotnet \<Rightarrow> int \<Rightarrow> bool \<Rightarrow> string \<Rightarrow> gateway_request \<Rightarrow> gateway_outcome" where
  "simulated_charge net threshold cancelled guid rq =
     (if cancelled then Gateway_threw
      else if \<not> list_ex (\<lambda>c. net_upper net c = net_upper net (gw_Currency rq)) [''USD'', ''EUR'', ''GBP'']
      then Gateway_result False None (Some ''unsupported_currency'')
      else if gw_AmountCents rq > threshold then Gateway_result False None (Some ''amount_exceeds_limit'')
      else Gateway_result True (Some (''sim_txn_'' @ guid)) None)"

text \<open>
  \<open>HttpPaymentGatewayClient.ChargeAsync\<close>: what the exchange with the card processor comes to, once the policies of the HTTP client have
  had their say: a status with a body that cannot be read, is \<open>null\<close>, or is a response; a failed request; a timeout; or the
  cancellation by the caller.
\<close>

datatype live_exchange =
  Responded int "(bool \<times> string option \<times> string option) option option" | Request_failed | Timed_out | Cancelled

fun live_charge :: "live_exchange \<Rightarrow> gateway_outcome" where
  "live_charge (Responded status payload) =
     (if status < 200 \<or> 300 \<le> status then Gateway_unavailable
      else case payload of
          None \<Rightarrow> Gateway_threw
        | Some None \<Rightarrow> Gateway_result False None (Some ''empty_gateway_response'')
        | Some (Some (approved, tx, reason)) \<Rightarrow> Gateway_result approved tx reason)"
| "live_charge Timed_out = Gateway_unavailable"
| "live_charge Cancelled = Gateway_threw"
| "live_charge Request_failed = Gateway_unavailable"

text \<open>Every call so far went to the simulated gateway.\<close>

definition simulated_mode :: "dotnet \<Rightarrow> int \<Rightarrow> pay_store \<Rightarrow> bool" where
  "simulated_mode net threshold st \<longleftrightarrow>
     (\<forall>(key, call, outcome)\<in>set (st_gateway st). \<exists>cancelled guid. outcome = simulated_charge net threshold cancelled guid call)"

lemma simulated_approved:
  "simulated_charge net threshold cancelled guid rq = Gateway_result True tx reason \<Longrightarrow>
     gw_AmountCents rq \<le> threshold \<and> (\<exists>c\<in>{''USD'', ''EUR'', ''GBP''}. net_upper net c = net_upper net (gw_Currency rq))"
  by (auto simp: simulated_charge_def split: if_splits)

subsection \<open>Overlapping charges\<close>

text \<open>The requests that may arrive, any number of times each, are \<open>R\<close>; the table starts with the rows \<open>init\<close>.\<close>

definition payments_wf :: "payment list \<Rightarrow> bool" where
  "payments_wf ps \<longleftrightarrow> distinct (map pay_Id ps) \<and> distinct (map pay_IdempotencyKey ps)"

inductive pay_reachable :: "dotnet \<Rightarrow> http_request set \<Rightarrow> payment list \<Rightarrow> pay_store \<Rightarrow> pay_phase list \<Rightarrow> bool" for net R init where
  start: "payments_wf init \<Longrightarrow> pay_reachable net R init \<lparr>st_payments = init, st_gateway = []\<rparr> []"
| arrives: "pay_reachable net R init st qs \<Longrightarrow> rq \<in> R \<Longrightarrow> pay_reachable net R init st (qs @ [receive_charge net rq])"
| turn: "pay_reachable net R init st qs \<Longrightarrow> i < length qs \<Longrightarrow> pay_advance net ch (qs ! i) st = (ph, st')
    \<Longrightarrow> pay_reachable net R init st' (qs[i := ph])"

definition asked :: "dotnet \<Rightarrow> http_request set \<Rightarrow> string \<Rightarrow> int \<Rightarrow> bool" where
  "asked net R key amount \<longleftrightarrow> (\<exists>rq\<in>R. \<exists>r. net_read_body net (rq_body rq) = Some r
     \<and> key = idempotency_key (map_of (rq_headers rq) ''Idempotency-Key'') r \<and> amount = body_AmountCents r)"

text \<open>The gateway approved a charge for this key, or the row was there from the start.\<close>

definition approved :: "payment list \<Rightarrow> pay_store \<Rightarrow> string \<Rightarrow> bool" where
  "approved init st key \<longleftrightarrow> key \<in> pay_IdempotencyKey ` set init
     \<or> (\<exists>call tx reason. (key, call, Gateway_result True tx reason) \<in> set (st_gateway st))"

definition has_row :: "pay_store \<Rightarrow> payment \<Rightarrow> bool" where
  "has_row st p \<longleftrightarrow> (\<exists>q\<in>set (st_payments st). pay_Id q = pay_Id p \<and> pay_IdempotencyKey q = pay_IdempotencyKey p)"

fun pay_phase_ok :: "dotnet \<Rightarrow> http_request set \<Rightarrow> payment list \<Rightarrow> pay_store \<Rightarrow> pay_phase \<Rightarrow> bool" where
  "pay_phase_ok net R init st (Looking r key) \<longleftrightarrow> asked net R key (body_AmountCents r)"
| "pay_phase_ok net R init st (Inserting p) \<longleftrightarrow> asked net R (pay_IdempotencyKey p) (pay_AmountCents p) \<and> pay_Status p = Payment_Pending"
| "pay_phase_ok net R init st (At_gateway p) \<longleftrightarrow> asked net R (pay_IdempotencyKey p) (pay_AmountCents p) \<and> has_row st p
     \<and> pay_IdempotencyKey p \<notin> fst ` set (st_gateway st) \<and> pay_IdempotencyKey p \<notin> pay_IdempotencyKey ` set init"
| "pay_phase_ok net R init st (Saving p) \<longleftrightarrow> has_row st p
     \<and> (pay_Status p = Payment_Succeeded \<longrightarrow> approved init st (pay_IdempotencyKey p))"
| "pay_phase_ok net R init st (Answered status p) \<longleftrightarrow> (status = 200 \<longleftrightarrow> pay_Status p = Payment_Succeeded)
     \<and> (pay_Status p = Payment_Succeeded \<longrightarrow> approved init st (pay_IdempotencyKey p))"
| "pay_phase_ok net R init st ph \<longleftrightarrow> True"

definition at_key :: "pay_phase \<Rightarrow> string option" where
  "at_key ph = (case ph of At_gateway p \<Rightarrow> Some (pay_IdempotencyKey p) | _ \<Rightarrow> None)"

definition store_ok :: "dotnet \<Rightarrow> http_request set \<Rightarrow> payment list \<Rightarrow> pay_store \<Rightarrow> bool" where
  "store_ok net R init st \<longleftrightarrow> payments_wf (st_payments st)
     \<and> pay_IdempotencyKey ` set init \<subseteq> pay_IdempotencyKey ` set (st_payments st)
     \<and> distinct (map fst (st_gateway st)) \<and> fst ` set (st_gateway st) \<subseteq> pay_IdempotencyKey ` set (st_payments st)
     \<and> (\<forall>(key, call, outcome)\<in>set (st_gateway st). asked net R key (gw_AmountCents call) \<and> key \<notin> pay_IdempotencyKey ` set init)
     \<and> (\<forall>p\<in>set (st_payments st). pay_Status p = Payment_Succeeded \<longrightarrow> approved init st (pay_IdempotencyKey p))"

definition pay_ok :: "dotnet \<Rightarrow> http_request set \<Rightarrow> payment list \<Rightarrow> pay_store \<Rightarrow> pay_phase list \<Rightarrow> bool" where
  "pay_ok net R init st qs \<longleftrightarrow> store_ok net R init st \<and> (\<forall>ph\<in>set qs. pay_phase_ok net R init st ph)
     \<and> (\<forall>i j. i < length qs \<longrightarrow> j < length qs \<longrightarrow> i \<noteq> j \<longrightarrow> at_key (qs ! i) = None \<or> at_key (qs ! i) \<noteq> at_key (qs ! j))"

text \<open>The stores only grow: rows keep their ids and keys, and calls of the gateway are never forgotten.\<close>

definition grows :: "pay_store \<Rightarrow> pay_store \<Rightarrow> bool" where
  "grows st st' \<longleftrightarrow> (\<lambda>p. (pay_Id p, pay_IdempotencyKey p)) ` set (st_payments st) \<subseteq> (\<lambda>p. (pay_Id p, pay_IdempotencyKey p)) ` set (st_payments st')
     \<and> set (st_gateway st) \<subseteq> set (st_gateway st')"

lemma has_row_key: "has_row st p \<Longrightarrow> pay_IdempotencyKey p \<in> pay_IdempotencyKey ` set (st_payments st)"
  unfolding has_row_def by (metis imageI)

lemma grows_has_row: "grows st st' \<Longrightarrow> has_row st p \<Longrightarrow> has_row st' p"
  by (fastforce simp: grows_def has_row_def)

lemma grows_approved: "grows st st' \<Longrightarrow> approved init st key \<Longrightarrow> approved init st' key"
  by (fastforce simp: grows_def approved_def)

lemma grows_phase_ok:
  assumes "grows st st'" and "pay_phase_ok net R init st ph"
    and "\<And>key. at_key ph = Some key \<Longrightarrow> key \<notin> fst ` set (st_gateway st) \<Longrightarrow> key \<notin> fst ` set (st_gateway st')"
  shows "pay_phase_ok net R init st' ph"
  using assms by (cases ph) (auto simp: at_key_def intro: grows_has_row grows_approved)

text \<open>What one step establishes.\<close>

definition step_ok :: "dotnet \<Rightarrow> http_request set \<Rightarrow> payment list \<Rightarrow> pay_phase \<Rightarrow> pay_store \<Rightarrow> pay_phase \<Rightarrow> pay_store \<Rightarrow> bool" where
  "step_ok net R init ph st ph' st' \<longleftrightarrow> grows st st' \<and> store_ok net R init st' \<and> pay_phase_ok net R init st' ph'
     \<and> (\<forall>key. at_key ph' = Some key \<longrightarrow> key \<notin> pay_IdempotencyKey ` set (st_payments st))
     \<and> (\<forall>key\<in>fst ` set (st_gateway st'). key \<in> fst ` set (st_gateway st) \<or> at_key ph = Some key)"

lemma step_ok_same:
  "store_ok net R init st \<Longrightarrow> pay_phase_ok net R init st ph' \<Longrightarrow> at_key ph' = None \<Longrightarrow> step_ok net R init ph st ph' st"
  by (simp add: step_ok_def grows_def)

lemma answer_ok: "store_ok net R init st \<Longrightarrow> p \<in> set (st_payments st) \<Longrightarrow> pay_phase_ok net R init st (answer p)"
  by (auto simp: answer_def store_ok_def split: payment_status.split)

lemma at_key_simps [simp]: "at_key (answer p) = None" "at_key Threw = None" "at_key Bad_request = None"
  "at_key (Inserting p) = None" "at_key (Looking r key) = None" "at_key (Saving p) = None" "at_key (At_gateway p) = Some (pay_IdempotencyKey p)"
  by (simp_all add: at_key_def answer_def)

lemma Looking_step:
  assumes "store_ok net R init st" and "pay_phase_ok net R init st (Looking r key)"
    and "pay_advance net ch (Looking r key) st = (ph', st')"
  shows "step_ok net R init (Looking r key) st ph' st'"
proof -
  have "st' = st" and "ph' = Threw \<or> ph' = Bad_request \<or> (\<exists>p\<in>set (st_payments st). ph' = answer p)
      \<or> (\<exists>o' u. ph' = Inserting (new_payment net ch r key o' u))"
    using assms(3) by (auto simp: find_Some_iff split: if_splits option.splits)
  moreover have "pay_phase_ok net R init st (Inserting (new_payment net ch r key o' u))" for o' u
    using assms(2) by (simp add: new_payment_def)
  ultimately show ?thesis using assms(1) by (auto intro!: step_ok_same intro: answer_ok)
qed

lemma insert_payment_ok:
  assumes "store_ok net R init st" and "insert_payment p (st_payments st) = Some ps" and "pay_Status p = Payment_Pending"
  shows "grows st (st\<lparr>st_payments := ps\<rparr>)" and "store_ok net R init (st\<lparr>st_payments := ps\<rparr>)"
    and "has_row (st\<lparr>st_payments := ps\<rparr>) p" and "pay_IdempotencyKey p \<notin> pay_IdempotencyKey ` set (st_payments st)"
  using assms
  by (auto simp: insert_payment_def grows_def store_ok_def payments_wf_def has_row_def approved_def split: if_splits)

lemma Inserting_step:
  assumes "store_ok net R init st" and "pay_phase_ok net R init st (Inserting p)"
    and "pay_advance net ch (Inserting p) st = (ph', st')"
  shows "step_ok net R init (Inserting p) st ph' st'"
proof (cases "insert_payment p (st_payments st)")
  case None
  with assms show ?thesis by (auto simp: saving_def intro: step_ok_same)
next
  case (Some ps)
  have pending: "pay_Status p = Payment_Pending" using assms(2) by simp
  note new = insert_payment_ok [OF assms(1) Some pending]
  have "pay_IdempotencyKey p \<notin> fst ` set (st_gateway st)" "pay_IdempotencyKey p \<notin> pay_IdempotencyKey ` set init"
    using new(4) assms(1) by (auto simp: store_ok_def)
  with new assms(2,3) Some assms(1) show ?thesis
    by (auto simp: saving_def step_ok_def grows_def split: db_outcome.splits)
qed

lemma settled_status:
  "settled_payment p outcome = Some p' \<Longrightarrow> pay_Id p' = pay_Id p \<and> pay_IdempotencyKey p' = pay_IdempotencyKey p
     \<and> (pay_Status p' = Payment_Succeeded \<longrightarrow> (\<exists>tx reason. outcome = Gateway_result True tx reason))"
  by (auto simp: settled_payment_def split: gateway_outcome.splits if_splits)

lemma At_gateway_step:
  assumes "store_ok net R init st" and "pay_phase_ok net R init st (At_gateway p)"
    and "pay_advance net ch (At_gateway p) st = (ph', st')"
  shows "step_ok net R init (At_gateway p) st ph' st'"
proof -
  define call where "call = \<lparr>gw_OrderId = net_guid_text net (pay_OrderId p), gw_AmountCents = pay_AmountCents p, gw_Currency = pay_Currency p\<rparr>"
  have st': "st' = st\<lparr>st_gateway := st_gateway st @ [(pay_IdempotencyKey p, call, ch_gateway ch)]\<rparr>"
    and ph': "ph' = (case settled_payment p (ch_gateway ch) of Some p' \<Rightarrow> Saving p' | None \<Rightarrow> Threw)"
    using assms(3) by (simp_all add: call_def Let_def)
  have grows: "grows st st'" by (auto simp: grows_def st')
  have "pay_IdempotencyKey p \<in> pay_IdempotencyKey ` set (st_payments st)"
    using assms(2) by (auto dest: has_row_key)
  moreover have "approved init st' (pay_IdempotencyKey q)"
    if "q \<in> set (st_payments st)" "pay_Status q = Payment_Succeeded" for q
    using that assms(1) grows_approved [OF grows] by (auto simp: store_ok_def)
  ultimately have "store_ok net R init st'"
    using assms(1,2) by (auto simp: store_ok_def st' call_def)
  moreover have "pay_phase_ok net R init st' ph'"
  proof (cases "settled_payment p (ch_gateway ch)")
    case (Some p')
    note same = settled_status [OF Some]
    have "has_row st' p" using assms(2) grows_has_row [OF grows] by simp
    then have "has_row st' p'" using same by (simp add: has_row_def)
    moreover have "approved init st' (pay_IdempotencyKey p')" if "pay_Status p' = Payment_Succeeded"
    proof -
      from same that obtain tx reason where "ch_gateway ch = Gateway_result True tx reason" by blast
      then have "(pay_IdempotencyKey p', call, Gateway_result True tx reason) \<in> set (st_gateway st')" using same by (simp add: st')
      then show ?thesis unfolding approved_def by blast
    qed
    ultimately show ?thesis by (simp add: ph' Some)
  qed (simp add: ph')
  ultimately show ?thesis
    using grows by (auto simp: step_ok_def ph' st' split: option.splits)
qed

lemma update_payment_ok:
  assumes "store_ok net R init st" and "update_payment p (st_payments st) = Some ps" and "has_row st p"
    and "pay_Status p = Payment_Succeeded \<longrightarrow> approved init st (pay_IdempotencyKey p)"
  shows "grows st (st\<lparr>st_payments := ps\<rparr>)" and "store_ok net R init (st\<lparr>st_payments := ps\<rparr>)"
proof -
  define f where "f q = (if pay_Id q = pay_Id p
          then q\<lparr>pay_Status := pay_Status p, pay_TransactionId := pay_TransactionId p, pay_FailureReason := pay_FailureReason p,
            pay_UpdatedAt := pay_UpdatedAt p\<rparr> else q)" for q :: payment
  have ps: "ps = map f (st_payments st)" using assms(2) by (simp add: update_payment_def f_def [abs_def] split: if_splits)
  have keys: "pay_IdempotencyKey (f q) = pay_IdempotencyKey q" "pay_Id (f q) = pay_Id q" for q by (simp_all add: f_def)
  then have "map pay_IdempotencyKey ps = map pay_IdempotencyKey (st_payments st)" "map pay_Id ps = map pay_Id (st_payments st)"
    by (simp_all add: ps)
  then have wf: "payments_wf ps" "pay_IdempotencyKey ` set ps = pay_IdempotencyKey ` set (st_payments st)"
    using assms(1) by (simp_all add: store_ok_def payments_wf_def flip: set_map)
  show "grows st (st\<lparr>st_payments := ps\<rparr>)"
    by (simp add: grows_def ps image_image keys)
  have "pay_IdempotencyKey q = pay_IdempotencyKey p" if "q \<in> set (st_payments st)" "pay_Id q = pay_Id p" for q
  proof -
    from assms(3) obtain q0 where "q0 \<in> set (st_payments st)" "pay_Id q0 = pay_Id p"
      "pay_IdempotencyKey q0 = pay_IdempotencyKey p" by (auto simp: has_row_def)
    moreover have "inj_on pay_Id (set (st_payments st))" using assms(1) by (simp add: store_ok_def payments_wf_def distinct_map)
    ultimately show ?thesis using that by (metis inj_onD)
  qed
  then have "approved init st (pay_IdempotencyKey (f q))" if "q \<in> set (st_payments st)" "pay_Status (f q) = Payment_Succeeded" for q
    using that assms(1,4) by (auto simp: store_ok_def keys f_def split: if_splits)
  then have "\<forall>q\<in>set ps. pay_Status q = Payment_Succeeded \<longrightarrow> approved init (st\<lparr>st_payments := ps\<rparr>) (pay_IdempotencyKey q)"
    by (auto simp: ps approved_def)
  then show "store_ok net R init (st\<lparr>st_payments := ps\<rparr>)"
    using assms(1) wf by (simp add: store_ok_def)
qed

lemma Saving_step:
  assumes "store_ok net R init st" and "pay_phase_ok net R init st (Saving p)"
    and "pay_advance net ch (Saving p) st = (ph', st')"
  shows "step_ok net R init (Saving p) st ph' st'"
proof -
  let ?p = "p\<lparr>pay_UpdatedAt := ch_now ch\<rparr>"
  show ?thesis
  proof (cases "update_payment ?p (st_payments st)")
    case None
    with assms show ?thesis by (auto simp: saving_def Let_def intro: step_ok_same)
  next
    case (Some ps)
    have "has_row st ?p" using assms(2) by (simp add: has_row_def)
    moreover have "pay_Status ?p = Payment_Succeeded \<longrightarrow> approved init st (pay_IdempotencyKey ?p)" using assms(2) by simp
    moreover note saved = update_payment_ok [OF assms(1) Some calculation]
    moreover have "pay_phase_ok net R init (st\<lparr>st_payments := ps\<rparr>) (answer ?p)"
      using assms(2) by (auto simp: answer_def approved_def split: payment_status.split)
    ultimately show ?thesis
      using assms(1,3) Some
      by (auto simp: saving_def Let_def step_ok_def grows_def simp del: pay_phase_ok.simps(5) split: db_outcome.splits)
  qed
qed

lemma pay_step:
  assumes "store_ok net R init st" and "pay_phase_ok net R init st ph" and "pay_advance net ch ph st = (ph', st')"
  shows "step_ok net R init ph st ph' st'"
proof (cases ph)
  case (Looking r key)
  with assms Looking_step show ?thesis by metis
next
  case (Inserting p)
  with assms Inserting_step show ?thesis by metis
next
  case (At_gateway p)
  with assms At_gateway_step show ?thesis by metis
next
  case (Saving p)
  with assms Saving_step show ?thesis by metis
qed (use assms in \<open>auto simp: at_key_def intro: step_ok_same\<close>)

lemma at_key_stored: "pay_phase_ok net R init st ph \<Longrightarrow> at_key ph = Some key \<Longrightarrow> key \<in> pay_IdempotencyKey ` set (st_payments st)"
  by (cases ph) (auto simp: at_key_def dest: has_row_key)

lemma pay_turn_ok:
  assumes "pay_ok net R init st qs" and "i < length qs" and "pay_advance net ch (qs ! i) st = (ph, st')"
  shows "pay_ok net R init st' (qs[i := ph])"
proof -
  have store: "store_ok net R init st" and phases: "\<And>j. j < length qs \<Longrightarrow> pay_phase_ok net R init st (qs ! j)"
    and apart: "\<And>j k. j < length qs \<Longrightarrow> k < length qs \<Longrightarrow> j \<noteq> k \<Longrightarrow> at_key (qs ! j) = None \<or> at_key (qs ! j) \<noteq> at_key (qs ! k)"
    using assms(1) by (simp_all add: pay_ok_def)
  have step: "step_ok net R init (qs ! i) st ph st'" by (rule pay_step [OF store phases [OF assms(2)] assms(3)])
  have others: "pay_phase_ok net R init st' (qs ! j)" if j: "j < length qs" "j \<noteq> i" for j
  proof (rule grows_phase_ok [OF _ phases [OF j(1)]])
    show "grows st st'" using step by (simp add: step_ok_def)
    show "key \<notin> fst ` set (st_gateway st')" if "at_key (qs ! j) = Some key" "key \<notin> fst ` set (st_gateway st)" for key
      using step that apart [OF j(1) assms(2) j(2)] by (auto simp: step_ok_def)
  qed
  have fresh: "at_key ph = None \<or> at_key ph \<noteq> at_key (qs ! j)" if "j < length qs" for j
    using step at_key_stored [OF phases [OF that]] by (auto simp: step_ok_def)
  have "pay_phase_ok net R init st' (qs[i := ph] ! j)" if "j < length qs" for j
    using that step others by (cases "j = i") (simp_all add: step_ok_def)
  moreover have "at_key (qs[i := ph] ! j) = None \<or> at_key (qs[i := ph] ! j) \<noteq> at_key (qs[i := ph] ! k)"
    if "j < length qs" "k < length qs" "j \<noteq> k" for j k
    using that fresh [of j] fresh [of k] apart [of j k] by (cases "j = i"; cases "k = i") auto
  ultimately show ?thesis using step by (auto simp: pay_ok_def step_ok_def in_set_conv_nth)
qed

lemma receive_charge_ok: "rq \<in> R \<Longrightarrow> pay_phase_ok net R init st (receive_charge net rq) \<and> at_key (receive_charge net rq) = None"
  by (auto simp: receive_charge_def asked_def split: option.split)

lemma pay_arrives_ok:
  assumes "pay_ok net R init st qs" and "rq \<in> R"
  shows "pay_ok net R init st (qs @ [receive_charge net rq])"
  using assms(1) receive_charge_ok [OF assms(2), of net init st]
  by (auto simp: pay_ok_def nth_append less_Suc_eq)

lemma pay_invariant: "pay_reachable net R init st qs \<Longrightarrow> pay_ok net R init st qs"
proof (induction rule: pay_reachable.induct)
  case start
  then show ?case by (auto simp: pay_ok_def store_ok_def approved_def)
qed (blast intro: pay_arrives_ok pay_turn_ok)+

subsection \<open>A result that is stored is final\<close>

text \<open>A charge between the storing of its row and the storing of its result works on the row with this id.\<close>

definition open_row :: "pay_phase \<Rightarrow> uuid option" where
  "open_row ph = (case ph of At_gateway p \<Rightarrow> Some (pay_Id p) | Saving p \<Rightarrow> Some (pay_Id p) | _ \<Rightarrow> None)"

lemma open_row_simps [simp]: "open_row (answer p) = None" "open_row Threw = None" "open_row Bad_request = None"
  "open_row (Inserting p) = None" "open_row (Looking r key) = None" "open_row (Saving p) = Some (pay_Id p)"
  "open_row (At_gateway p) = Some (pay_Id p)" "open_row (Answered status p) = None"
  by (simp_all add: open_row_def answer_def)

text \<open>That row is pending, and no other charge works on it.\<close>

definition pending_row :: "pay_store \<Rightarrow> uuid \<Rightarrow> bool" where
  "pending_row st k \<longleftrightarrow> (\<exists>q\<in>set (st_payments st). pay_Id q = k \<and> pay_Status q = Payment_Pending)"

definition rows_open :: "pay_store \<Rightarrow> pay_phase list \<Rightarrow> bool" where
  "rows_open st qs \<longleftrightarrow> distinct (map pay_Id (st_payments st))
     \<and> (\<forall>i < length qs. \<forall>k. open_row (qs ! i) = Some k \<longrightarrow> pending_row st k)
     \<and> (\<forall>i j. i < length qs \<longrightarrow> j < length qs \<longrightarrow> i \<noteq> j \<longrightarrow> open_row (qs ! i) = None \<or> open_row (qs ! i) \<noteq> open_row (qs ! j))"

text \<open>What one step does to the rows and to the row it works on: it keeps every row but the pending one that it works on, and a row that
  it starts to work on is new.\<close>

definition row_step :: "pay_phase \<Rightarrow> pay_store \<Rightarrow> pay_phase \<Rightarrow> pay_store \<Rightarrow> bool" where
  "row_step ph st ph' st' \<longleftrightarrow> distinct (map pay_Id (st_payments st'))
     \<and> (\<forall>q\<in>set (st_payments st). open_row ph \<noteq> Some (pay_Id q) \<longrightarrow> q \<in> set (st_payments st'))
     \<and> (\<forall>k. open_row ph' = Some k \<longrightarrow> pending_row st' k \<and> (open_row ph = Some k \<or> k \<notin> pay_Id ` set (st_payments st)))"

lemma row_step_same:
  "distinct (map pay_Id (st_payments st)) \<Longrightarrow> st_payments st' = st_payments st \<Longrightarrow> open_row ph' = None \<Longrightarrow> row_step ph st ph' st'"
  by (simp add: row_step_def)

lemma pay_row_step:
  assumes "distinct (map pay_Id (st_payments st))" and "\<And>k. open_row ph = Some k \<Longrightarrow> pending_row st k"
    and "pay_phase_ok net R init st ph" and "pay_advance net ch ph st = (ph', st')"
  shows "row_step ph st ph' st'"
proof (cases ph)
  case (Looking r key)
  with assms(1,4) show ?thesis by (auto intro!: row_step_same split: if_splits option.splits)
next
  case (Inserting p)
  then have pending: "pay_Status p = Payment_Pending" using assms(3) by simp
  show ?thesis
  proof (cases "insert_payment p (st_payments st)")
    case None
    with Inserting assms(1,4) show ?thesis by (auto simp: saving_def intro: row_step_same)
  next
    case (Some ps)
    then have "pay_Id p \<notin> pay_Id ` set (st_payments st)" "ps = st_payments st @ [p]"
      by (simp_all add: insert_payment_def split: if_splits)
    with Inserting assms(1,4) Some pending show ?thesis
      by (auto simp: saving_def row_step_def pending_row_def split: db_outcome.splits)
  qed
next
  case (At_gateway p)
  with assms(2) [of "pay_Id p"] have "pending_row st (pay_Id p)" by simp
  then have "open_row ph' = Some k \<Longrightarrow> k = pay_Id p \<and> pending_row st k" for k
    using At_gateway assms(4) by (cases "settled_payment p (ch_gateway ch)") (auto simp: Let_def dest: settled_status)
  moreover have "st_payments st' = st_payments st" using At_gateway assms(4) by (auto simp: Let_def)
  ultimately show ?thesis using At_gateway assms(1) by (auto simp: row_step_def pending_row_def)
next
  case (Saving p)
  have ids: "map pay_Id ps = map pay_Id (st_payments st)
      \<and> (\<forall>q\<in>set (st_payments st). pay_Id q \<noteq> pay_Id p \<longrightarrow> q \<in> set ps)"
    if "update_payment (p\<lparr>pay_UpdatedAt := ch_now ch\<rparr>) (st_payments st) = Some ps" for ps
    using that by (auto simp: update_payment_def image_iff split: if_splits)
  with Saving assms(1,4) show ?thesis
    by (auto simp: saving_def Let_def row_step_def split: option.splits db_outcome.splits)
qed (use assms in \<open>auto simp: open_row_def intro: row_step_same\<close>)

lemma pending_row_kept:
  assumes "row_step ph st ph' st'" and "pending_row st k" and "open_row ph \<noteq> Some k"
  shows "pending_row st' k"
  using assms by (auto simp: row_step_def pending_row_def)

lemma rows_open_turn:
  assumes "rows_open st qs" and "i < length qs" and "row_step (qs ! i) st ph st'"
  shows "rows_open st' (qs[i := ph])"
proof -
  note step = assms(3) [unfolded row_step_def]
  have pending: "\<And>j k. j < length qs \<Longrightarrow> open_row (qs ! j) = Some k \<Longrightarrow> pending_row st k"
    and apart: "\<And>j k. j < length qs \<Longrightarrow> k < length qs \<Longrightarrow> j \<noteq> k \<Longrightarrow> open_row (qs ! j) = None \<or> open_row (qs ! j) \<noteq> open_row (qs ! k)"
    using assms(1) by (simp_all add: rows_open_def)
  have other: "pending_row st' k" if "j < length qs" "j \<noteq> i" "open_row (qs ! j) = Some k" for j k
    using pending_row_kept [OF assms(3) pending [OF that(1,3)]] apart [OF that(1) assms(2) that(2)] that(3) by auto
  have fresh: "open_row ph = None \<or> open_row ph \<noteq> open_row (qs ! j)" if j: "j < length qs" "j \<noteq> i" for j
  proof (cases "open_row (qs ! j)")
    case (Some k)
    then have "k \<in> pay_Id ` set (st_payments st)" using pending [OF j(1)] by (auto simp: pending_row_def)
    with step Some apart [OF j(1) assms(2) j(2)] show ?thesis by auto
  qed auto
  have "pending_row st' k" if "j < length qs" "open_row (qs[i := ph] ! j) = Some k" for j k
    using that step other by (cases "j = i") auto
  moreover have "open_row (qs[i := ph] ! j) = None \<or> open_row (qs[i := ph] ! j) \<noteq> open_row (qs[i := ph] ! k)"
    if "j < length qs" "k < length qs" "j \<noteq> k" for j k
    using that fresh [of j] fresh [of k] apart [of j k] by (cases "j = i"; cases "k = i") auto
  ultimately show ?thesis using step by (simp add: rows_open_def)
qed

lemma rows_open_arrives:
  assumes "rows_open st qs"
  shows "rows_open st (qs @ [receive_charge net rq])"
proof -
  have "open_row (receive_charge net rq) = None" by (simp add: receive_charge_def split: option.split)
  with assms show ?thesis by (auto simp: rows_open_def nth_append less_Suc_eq)
qed

lemma turn_row_step:
  assumes "pay_reachable net R init st qs" and "rows_open st qs" and "i < length qs" and "pay_advance net ch (qs ! i) st = (ph, st')"
  shows "row_step (qs ! i) st ph st'"
proof (rule pay_row_step [OF _ _ _ assms(4)])
  show "pay_phase_ok net R init st (qs ! i)" using pay_invariant [OF assms(1)] assms(3) by (simp add: pay_ok_def)
qed (use assms(2,3) in \<open>auto simp: rows_open_def\<close>)

lemma reachable_rows_open: "pay_reachable net R init st qs \<Longrightarrow> rows_open st qs"
proof (induction rule: pay_reachable.induct)
  case start
  then show ?case by (simp add: rows_open_def payments_wf_def)
qed (blast intro: rows_open_arrives rows_open_turn turn_row_step)+

text \<open>The states that follow a state.\<close>

inductive pay_later :: "dotnet \<Rightarrow> http_request set \<Rightarrow> pay_store \<Rightarrow> pay_phase list \<Rightarrow> pay_store \<Rightarrow> pay_phase list \<Rightarrow> bool" for net R st qs where
  now: "pay_later net R st qs st qs"
| later_arrives: "pay_later net R st qs st' qs' \<Longrightarrow> rq \<in> R \<Longrightarrow> pay_later net R st qs st' (qs' @ [receive_charge net rq])"
| later_turn: "pay_later net R st qs st' qs' \<Longrightarrow> i < length qs' \<Longrightarrow> pay_advance net ch (qs' ! i) st' = (ph, st'')
    \<Longrightarrow> pay_later net R st qs st'' (qs'[i := ph])"

text \<open>A row that no charge works on never changes again: only the charge that stored a row works on it.\<close>

lemma closed_row_final:
  assumes "pay_later net R st qs st' qs'" and "pay_reachable net R init st qs"
    and "p \<in> set (st_payments st)" and "\<forall>ph\<in>set qs. open_row ph \<noteq> Some (pay_Id p)"
  shows "pay_reachable net R init st' qs' \<and> p \<in> set (st_payments st') \<and> (\<forall>ph\<in>set qs'. open_row ph \<noteq> Some (pay_Id p))"
  using assms(1)
proof (induction rule: pay_later.induct)
  case (later_arrives st' qs' rq)
  moreover have "open_row (receive_charge net rq) = None" by (simp add: receive_charge_def split: option.split)
  ultimately show ?case by (auto intro: pay_reachable.arrives)
next
  case (later_turn st' qs' i ch ph st'')
  then have reach: "pay_reachable net R init st' qs'" and p: "p \<in> set (st_payments st')" by auto
  have "row_step (qs' ! i) st' ph st''" by (rule turn_row_step [OF reach reachable_rows_open [OF reach] later_turn(2,3)])
  moreover have "open_row (qs' ! i) \<noteq> Some (pay_Id p)" using later_turn by simp
  ultimately have "p \<in> set (st_payments st'')" and "open_row ph \<noteq> Some (pay_Id p)"
    using p by (auto simp: row_step_def)
  with pay_reachable.turn [OF reach later_turn(2,3)] later_turn(2,4) show ?case
    by (auto dest: set_update_subset_insert [THEN subsetD])
qed (use assms(2-4) in auto)

lemma settled_row_closed:
  assumes "pay_reachable net R init st qs" and "p \<in> set (st_payments st)" and "pay_Status p \<noteq> Payment_Pending"
    and "ph \<in> set qs"
  shows "open_row ph \<noteq> Some (pay_Id p)"
proof
  assume "open_row ph = Some (pay_Id p)"
  note rows = reachable_rows_open [OF assms(1)]
  with \<open>open_row ph = _\<close> assms(4) have "pending_row st (pay_Id p)" by (auto simp: rows_open_def in_set_conv_nth)
  then obtain q where q: "q \<in> set (st_payments st)" "pay_Id q = pay_Id p" "pay_Status q = Payment_Pending"
    by (auto simp: pending_row_def)
  have "inj_on pay_Id (set (st_payments st))" using rows by (simp add: rows_open_def distinct_map)
  with q assms(2) have "q = p" by (metis inj_onD)
  with q(3) assms(3) show False by simp
qed

lemma replay:
  assumes "payments_wf (st_payments st)" and "p \<in> set (st_payments st)"
  shows "pay_advance net (ch\<lparr>ch_db := Db_ok\<rparr>) (Looking r (pay_IdempotencyKey p)) st = (answer p, st)"
proof -
  have "find (\<lambda>q. pay_IdempotencyKey q = pay_IdempotencyKey p) (st_payments st) = Some p"
  proof (cases "find (\<lambda>q. pay_IdempotencyKey q = pay_IdempotencyKey p) (st_payments st)")
    case None
    with assms(2) show ?thesis by (auto simp: find_None_iff)
  next
    case (Some q)
    then have "q \<in> set (st_payments st)" "pay_IdempotencyKey q = pay_IdempotencyKey p" by (auto simp: find_Some_iff)
    moreover have "inj_on pay_IdempotencyKey (set (st_payments st))" using assms(1) by (simp add: payments_wf_def distinct_map)
    ultimately have "q = p" using assms(2) by (metis inj_onD)
    with Some show ?thesis by simp
  qed
  then show ?thesis by simp
qed

lemma find_row:
  assumes "distinct (map pay_Id ps)" and "p \<in> set ps"
  shows "find (\<lambda>q. pay_Id q = pay_Id p) ps = Some p"
proof (cases "find (\<lambda>q. pay_Id q = pay_Id p) ps")
  case None
  with assms(2) show ?thesis by (auto simp: find_None_iff)
next
  case (Some q)
  then have "q \<in> set ps" "pay_Id q = pay_Id p" by (auto simp: find_Some_iff)
  moreover have "inj_on pay_Id (set ps)" using assms(1) by (simp add: distinct_map)
  ultimately have "q = p" using assms(2) by (metis inj_onD)
  with Some show ?thesis by simp
qed

lemma closed_row_replayed:
  assumes "pay_later net R st qs st' qs'" and "pay_reachable net R init st qs"
    and "p \<in> set (st_payments st)" and "\<forall>ph\<in>set qs. open_row ph \<noteq> Some (pay_Id p)"
  shows "p \<in> set (st_payments st')
    \<and> pay_advance net (ch\<lparr>ch_db := Db_ok\<rparr>) (Looking r (pay_IdempotencyKey p)) st' = (answer p, st')
    \<and> get_payment net (pay_Id p) st' = (200, payment_json net p)"
proof -
  from closed_row_final [OF assms] have reach: "pay_reachable net R init st' qs'" and p: "p \<in> set (st_payments st')" by auto
  have wf: "payments_wf (st_payments st')" using pay_invariant [OF reach] by (simp add: pay_ok_def store_ok_def)
  with find_row [of "st_payments st'" p] p have "get_payment net (pay_Id p) st' = (200, payment_json net p)"
    by (simp add: get_payment_def payments_wf_def)
  with replay [OF wf p] p show ?thesis by simp
qed

subsection \<open>Properties\<close>

text \<open>\<open>IPaymentGatewayClient.ChargeAsync\<close>, the client of the card gateway, is called at most once for an idempotency key, however often the charge is repeated, however the repetitions
  overlap, and wherever they fail or are cancelled; and it is called with an amount that a request with that key asked for.\<close>

lemma gateway_called_once:
  assumes "pay_reachable net R init st qs"
  shows "distinct (map fst (st_gateway st)) \<and> (\<forall>(key, call, outcome)\<in>set (st_gateway st). \<exists>rq\<in>R. \<exists>r.
    net_read_body net (rq_body rq) = Some r \<and> key = idempotency_key (map_of (rq_headers rq) ''Idempotency-Key'') r
    \<and> gw_AmountCents call = body_AmountCents r)"
  using pay_invariant [OF assms] unfolding pay_ok_def store_ok_def asked_def by fastforce

text \<open>A payment counts as succeeded only if the gateway approved it: a request is answered with 200, and a row says \<open>Succeeded\<close>, only if a
  call of the gateway for that key was approved, or the table had the key from the start.\<close>

lemma payment_success_approved:
  assumes "pay_reachable net R init st qs"
  shows "(\<forall>p. Answered 200 p \<in> set qs \<longrightarrow> approved init st (pay_IdempotencyKey p))
    \<and> (\<forall>p\<in>set (st_payments st). pay_Status p = Payment_Succeeded \<longrightarrow> approved init st (pay_IdempotencyKey p))"
  using pay_invariant [OF assms] by (fastforce simp: pay_ok_def store_ok_def)

text \<open>C31. A stored result is final: once a payment has succeeded, failed or been declined, its row never changes again, and from then on every
  request that looks up its key is answered with it, unchanged, and without a call of the gateway, and reading it returns it.\<close>

theorem settled_payment_replayed:
  assumes "pay_reachable net R init st qs" and "p \<in> set (st_payments st)" and "pay_Status p \<noteq> Payment_Pending"
    and "pay_later net R st qs st' qs'"
  shows "p \<in> set (st_payments st')
    \<and> pay_advance net (ch\<lparr>ch_db := Db_ok\<rparr>) (Looking r (pay_IdempotencyKey p)) st'
      = (Answered (if pay_Status p = Payment_Succeeded then 200 else if pay_Status p = Payment_Declined then 402 else 502) p, st')
    \<and> get_payment net (pay_Id p) st' = (200, payment_json net p)"
proof -
  from closed_row_replayed [OF assms(4,1,2), of ch r] settled_row_closed [OF assms(1,2,3)] assms(3)
  show ?thesis by (auto simp: answer_def split: payment_status.splits)
qed

subsection \<open>A concrete service\<close>

definition read_charge_body :: "json option \<Rightarrow> charge_body option" where
  "read_charge_body j = (case j of
       Some (JObject kvs) \<Rightarrow>
         (case (map_of kvs ''orderId'', map_of kvs ''userId'', map_of kvs ''amountCents'', map_of kvs ''currency'') of
            (Some (JString oid), Some (JString uid), Some (JNumber n), Some (JString cur)) \<Rightarrow>
              (case atoi n of
                 Some i \<Rightarrow> if - 2147483648 \<le> sint i \<and> sint i < 2147483648
                   then Some \<lparr>body_OrderId = oid, body_UserId = uid, body_AmountCents = sint i, body_Currency = cur\<rparr> else None
               | None \<Rightarrow> None)
          | _ \<Rightarrow> None)
     | _ \<Rightarrow> None)"

definition plain_dotnet :: dotnet where
  "plain_dotnet = \<lparr>net_guid_parse = decimal_uuid_parse, net_guid_text = decimal_uuid_string, net_upper = (\<lambda>s. s),
     net_time_text = show_int, net_read_body = read_charge_body\<rparr>"

definition plain_charge :: http_request where
  "plain_charge = \<lparr>rq_method = ''POST'', rq_url = ''http://payments/api/v1/payments'',
     rq_headers = [(''Content-Type'', ''application/json''), (''Idempotency-Key'', ''1'')],
     rq_body = Some (JObject [(''orderId'', JString ''1''), (''userId'', JString ''1''), (''amountCents'', JNumber (show_int 3998)),
       (''currency'', JString ''USD'')])\<rparr>"

definition plain_payment :: payment where
  "plain_payment = \<lparr>pay_Id = 5, pay_OrderId = 1, pay_UserId = 1, pay_AmountCents = 3998, pay_Currency = ''USD'',
     pay_Status = Payment_Pending, pay_TransactionId = None, pay_FailureReason = None, pay_IdempotencyKey = ''1'',
     pay_CreatedAt = 0, pay_UpdatedAt = 0\<rparr>"

definition smooth :: choice where
  "smooth = \<lparr>ch_guid = 5, ch_now = 0, ch_now2 = 0, ch_db = Db_ok, ch_gateway = Gateway_result True (Some ''tx'') None\<rparr>"

lemma plain_receive: "receive_charge plain_dotnet plain_charge =
    Looking \<lparr>body_OrderId = ''1'', body_UserId = ''1'', body_AmountCents = 3998, body_Currency = ''USD''\<rparr> ''1''"
proof -
  have "atoi (show_int 3998) = Some 3998" by (simp add: atoi_show_int in_int64_def)
  then show ?thesis
    by (simp add: receive_charge_def plain_dotnet_def plain_charge_def read_charge_body_def model_valid_def blank_def idempotency_key_def)
qed

lemma plain_insert: "insert_payment plain_payment [] = Some [plain_payment]"
  by (simp add: insert_payment_def payment_row_ok_def text_fits_def plain_payment_def)

text \<open>The charge is accepted, and the gateway approves it.\<close>

definition plain_approved :: pay_store where
  "plain_approved = \<lparr>st_payments = [plain_payment], st_gateway =
     [(''1'', \<lparr>gw_OrderId = decimal_uuid_string 1, gw_AmountCents = 3998, gw_Currency = ''USD''\<rparr>, Gateway_result True (Some ''tx'') None)]\<rparr>"

lemma single_turn:
  "pay_reachable net R init st [ph] \<Longrightarrow> pay_advance net ch ph st = (ph', st') \<Longrightarrow> pay_reachable net R init st' [ph']"
  using pay_reachable.turn [of net R init st "[ph]" 0 ch ph' st'] by simp

lemma plain_approved_reachable: "pay_reachable plain_dotnet {plain_charge} [] plain_approved
    [Saving (plain_payment\<lparr>pay_Status := Payment_Succeeded, pay_TransactionId := Some ''tx''\<rparr>)]"
proof -
  let ?r = "\<lparr>body_OrderId = ''1'', body_UserId = ''1'', body_AmountCents = 3998, body_Currency = ''USD''\<rparr>"
  let ?reach = "pay_reachable plain_dotnet {plain_charge} []"
  have "?reach \<lparr>st_payments = [], st_gateway = []\<rparr> []" by (rule pay_reachable.start) (simp add: payments_wf_def)
  from pay_reachable.arrives [OF this, of plain_charge] have looking: "?reach \<lparr>st_payments = [], st_gateway = []\<rparr> [Looking ?r ''1'']"
    by (simp add: plain_receive)
  have "new_payment plain_dotnet smooth ?r ''1'' 1 1 = plain_payment"
    by (simp add: new_payment_def smooth_def plain_payment_def plain_dotnet_def)
  moreover have "decimal_uuid_parse ''1'' = Some 1"
    by (simp add: decimal_uuid_parse_def is_digit_def digits_value_def digit_value_def)
  ultimately have "pay_advance plain_dotnet smooth (Looking ?r ''1'') \<lparr>st_payments = [], st_gateway = []\<rparr>
      = (Inserting plain_payment, \<lparr>st_payments = [], st_gateway = []\<rparr>)"
    by (simp add: plain_dotnet_def smooth_def)
  note inserting = single_turn [OF looking this]
  have "pay_advance plain_dotnet smooth (Inserting plain_payment) \<lparr>st_payments = [], st_gateway = []\<rparr>
      = (At_gateway plain_payment, \<lparr>st_payments = [plain_payment], st_gateway = []\<rparr>)"
    by (simp add: saving_def plain_insert) (simp add: smooth_def)
  note asking = single_turn [OF inserting this]
  have "pay_advance plain_dotnet smooth (At_gateway plain_payment) \<lparr>st_payments = [plain_payment], st_gateway = []\<rparr>
      = (Saving (plain_payment\<lparr>pay_Status := Payment_Succeeded, pay_TransactionId := Some ''tx''\<rparr>), plain_approved)"
    by (simp add: smooth_def settled_payment_def plain_approved_def plain_payment_def plain_dotnet_def)
  from single_turn [OF asking this] show ?thesis .
qed

text \<open>C32. A payment can be lost: there is a run in which the gateway has approved a charge, and then the saving of the result fails or is
  cancelled, as it is when the caller no longer waits. The row stays pending whatever happens after, and every request that looks up the
  key is answered with a 502, although the card has been charged.\<close>

theorem approved_payment_stays_pending:
  "\<exists>st p call tx. pay_reachable plain_dotnet {plain_charge} [] st [Threw] \<and> pay_Status p = Payment_Pending
    \<and> (pay_IdempotencyKey p, call, Gateway_result True tx None) \<in> set (st_gateway st)
    \<and> (\<forall>st' qs' r ch. pay_later plain_dotnet {plain_charge} st [Threw] st' qs' \<longrightarrow> p \<in> set (st_payments st')
      \<and> pay_advance plain_dotnet (ch\<lparr>ch_db := Db_ok\<rparr>) (Looking r (pay_IdempotencyKey p)) st' = (Answered 502 p, st'))"
proof -
  have "pay_advance plain_dotnet (smooth\<lparr>ch_db := Db_failed\<rparr>)
      (Saving (plain_payment\<lparr>pay_Status := Payment_Succeeded, pay_TransactionId := Some ''tx''\<rparr>)) plain_approved = (Threw, plain_approved)"
    by (simp add: saving_def Let_def split: option.split)
  note lost = single_turn [OF plain_approved_reachable this]
  have "answer plain_payment = Answered 502 plain_payment" by (simp add: plain_payment_def answer_def)
  with closed_row_replayed [OF _ lost, of _ _ plain_payment] lost show ?thesis
    by (intro exI [of _ plain_approved] exI [of _ plain_payment] exI [of _ "Some ''tx''"]
        exI [of _ "\<lparr>gw_OrderId = decimal_uuid_string 1, gw_AmountCents = 3998, gw_Currency = ''USD''\<rparr>"])
      (simp add: plain_approved_def, simp add: plain_payment_def)
qed

theorem approved_payment_stays_pending_witness:
  "\<exists>st p. pay_reachable plain_dotnet {plain_charge} [] st [Threw] \<and> p \<in> set (st_payments st) \<and> pay_Status p = Payment_Pending
    \<and> fst (pay_advance plain_dotnet (smooth\<lparr>ch_db := Db_ok\<rparr>)
        (Looking \<lparr>body_OrderId = ''1'', body_UserId = ''1'', body_AmountCents = 3998, body_Currency = ''USD''\<rparr> (pay_IdempotencyKey p)) st)
      = Answered 502 p"
  using approved_payment_stays_pending pay_later.now by (metis fst_conv)

text \<open>The same charge once its result has been saved.\<close>

definition plain_paid :: payment where
  "plain_paid = plain_payment\<lparr>pay_Status := Payment_Succeeded, pay_TransactionId := Some ''tx''\<rparr>"

lemma plain_paid_reachable:
  "pay_reachable plain_dotnet {plain_charge} [] (plain_approved\<lparr>st_payments := [plain_paid]\<rparr>) [Answered 200 plain_paid]"
proof -
  have "update_payment plain_paid [plain_payment] = Some [plain_paid]"
    by (simp add: update_payment_def payment_row_ok_def text_fits_def plain_payment_def plain_paid_def)
  moreover have "plain_paid\<lparr>pay_UpdatedAt := 0\<rparr> = plain_paid" by (simp add: plain_paid_def plain_payment_def)
  ultimately have "pay_advance plain_dotnet smooth (Saving plain_paid) plain_approved
      = (Answered 200 plain_paid, plain_approved\<lparr>st_payments := [plain_paid]\<rparr>)"
    by (simp add: saving_def Let_def smooth_def plain_approved_def answer_def) (simp add: plain_paid_def)
  from single_turn [OF plain_approved_reachable [folded plain_paid_def] this] show ?thesis .
qed

theorem settled_payment_replayed_witness:
  "plain_paid \<in> set (st_payments (plain_approved\<lparr>st_payments := [plain_paid]\<rparr>)) \<and>
   fst (pay_advance plain_dotnet smooth
     (Looking \<lparr>body_OrderId = ''1'', body_UserId = ''1'', body_AmountCents = 3998, body_Currency = ''USD''\<rparr> ''1'')
     (plain_approved\<lparr>st_payments := [plain_paid]\<rparr>)) = Answered 200 plain_paid"
  using settled_payment_replayed [OF plain_paid_reachable _ _ pay_later.later_arrives [OF pay_later.now, of plain_charge], of plain_paid smooth]
  by (simp add: plain_paid_def plain_payment_def smooth_def)

end
