(* ===== verification/Service_Interfaces.thy ===== *)
theory Service_Interfaces
  imports Go_World
begin

section \<open>The interfaces of the order service\<close>

text \<open>
  The Go interfaces \<open>OrderRepository\<close>, \<open>UserVerifier\<close>, \<open>ProductFetcher\<close> and \<open>PaymentCharger\<close> as records of
  operations over an abstract state \<open>'w\<close>, with the data that passes through them, and one locale per interface with the
  laws its provider promises. The service is written against the records and proved against the locales; the HTTP
  clients and the PostgreSQL repository interpret them.

  The laws speak of three observations of the state: \<open>stored\<close>, what the tables hold; \<open>posts\<close>, the charge requests
  that went out; and \<open>ok\<close>, the providers' own invariant.
\<close>

subsection \<open>Data\<close>

record product_info =
  product_ID :: string
  product_SKU :: string
  product_Name :: string
  product_PriceCents :: goint
  product_StockQuantity :: goint
  product_IsActive :: bool

record charge_request =
  charge_OrderID :: string
  charge_UserID :: string
  charge_AmountCents :: goint
  charge_Currency :: string

record charge_result =
  result_TransactionID :: string
  result_Status :: string
  result_Reason :: string

subsection \<open>Operations\<close>

text \<open>
  \<open>Create\<close> writes the timestamps and missing item ids back into the order it is given, so it returns that order too.
  A pair of a value and an error is what the Go methods return; a method that returns one of the two is a sum.
\<close>

record 'w order_repository =
  repo_Create :: "order_t \<Rightarrow> ('w, order_t \<times> go_error option) io"
  repo_GetByID :: "uuid \<Rightarrow> ('w, go_error + order_t) io"
  repo_ListByUser :: "uuid \<Rightarrow> ('w, order_t list \<times> go_error option) io"
  repo_UpdateStatus :: "uuid \<Rightarrow> order_status \<Rightarrow> ('w, go_error option) io"

type_synonym 'w user_verifier = "string \<Rightarrow> ('w, go_error option) io"
type_synonym 'w product_fetcher = "string \<Rightarrow> ('w, go_error + product_info) io"
type_synonym 'w payment_charger = "charge_request \<Rightarrow> ('w, go_error + charge_result) io"
type_synonym 'w logger = "log_level \<Rightarrow> string \<Rightarrow> (string \<times> log_value) list \<Rightarrow> ('w, unit) io"

text \<open>The functions of \<open>google/uuid\<close> the service calls.\<close>

record 'w uuid_package =
  uuid_New_op :: "('w, uuid) io"
  uuid_Parse :: "string \<Rightarrow> uuid option"
  uuid_String :: "uuid \<Rightarrow> string"

subsection \<open>How an order is stored\<close>

definition order_rows :: "(time \<Rightarrow> time) \<Rightarrow> order_t \<Rightarrow> (order_row \<times> item_row list) option" where
  "order_rows ts od =
     (case (encode_order ts od, those (map (encode_item (order_ID od)) (order_Items od))) of
        (Some row, Some its) \<Rightarrow> Some (row, its)
      | _ \<Rightarrow> None)"

text \<open>The order was new, and the tables now hold it and are otherwise unchanged.\<close>

definition added :: "(time \<Rightarrow> time) \<Rightarrow> order_t \<Rightarrow> stored \<Rightarrow> stored \<Rightarrow> bool" where
  "added ts od st st' \<longleftrightarrow> st (order_ID od) = None
     \<and> (\<exists>row its. order_rows ts od = Some (row, its) \<and> st' = st(order_ID od \<mapsto> (row, mset its)))"

text \<open>The status of one order was set, and the tables are otherwise unchanged.\<close>

definition status_set :: "uuid \<Rightarrow> order_status \<Rightarrow> stored \<Rightarrow> stored \<Rightarrow> bool" where
  "status_set i s st st' \<longleftrightarrow>
     (\<exists>t row its. st i = Some (row, its) \<and> st' = st(i \<mapsto> (set_status s t row, its)))"

text \<open>What \<open>Create\<close> leaves as it was in the order it is given.\<close>

definition same_order :: "order_t \<Rightarrow> order_t \<Rightarrow> bool" where
  "same_order od od' \<longleftrightarrow> order_ID od' = order_ID od \<and> order_UserID od' = order_UserID od
     \<and> order_Status od' = order_Status od \<and> order_TotalCents od' = order_TotalCents od
     \<and> order_Currency od' = order_Currency od
     \<and> map (\<lambda>it. it\<lparr>item_ID := 0\<rparr>) (order_Items od') = map (\<lambda>it. it\<lparr>item_ID := 0\<rparr>) (order_Items od)"

text \<open>An order read back agrees with what is stored; the items come in any order.\<close>

definition order_of_row :: "order_row \<Rightarrow> order_item list \<Rightarrow> order_t" where
  "order_of_row r its = \<lparr>order_ID = row_id r, order_UserID = row_user_id r, order_Status = row_status r,
     order_TotalCents = word_of_int (row_total_cents r), order_Currency = row_currency r, order_Items = its,
     order_CreatedAt = row_created_at r, order_UpdatedAt = row_updated_at r\<rparr>"

definition item_of_row :: "item_row \<Rightarrow> order_item" where
  "item_of_row r = \<lparr>item_ID = irow_id r, item_ProductID = irow_product_id r, item_SKU = irow_sku r,
     item_Quantity = word_of_int (irow_quantity r), item_UnitPriceCents = word_of_int (irow_unit_price_cents r)\<rparr>"

subsection \<open>Contracts\<close>

locale observed_state =
  fixes stored :: "'w \<Rightarrow> stored"
    and posts :: "'w \<Rightarrow> http_request list"
    and ok :: "'w \<Rightarrow> bool"
begin

text \<open>Nothing observable changed.\<close>

definition untouched :: "'w \<Rightarrow> 'w \<Rightarrow> bool" where
  "untouched w w' \<longleftrightarrow> (ok w \<longrightarrow> ok w' \<and> stored w' = stored w \<and> posts w' = posts w)"

lemma untouchedD:
  "untouched w w' \<Longrightarrow> ok w \<Longrightarrow> ok w'"
  "untouched w w' \<Longrightarrow> ok w \<Longrightarrow> stored w' = stored w"
  "untouched w w' \<Longrightarrow> ok w \<Longrightarrow> posts w' = posts w"
  by (auto simp: untouched_def)

lemma untouched_refl [simp]: "untouched w w"
  by (simp add: untouched_def)

lemma untouched_reflp: "reflp untouched"
  by (simp add: reflp_def)

lemma untouched_transp: "transp untouched"
  by (auto simp: transp_def untouched_def)

lemmas untouched_trans = transpD [OF untouched_transp]

end

locale user_verifier = observed_state stored posts ok
  for stored :: "'w \<Rightarrow> stored" and posts :: "'w \<Rightarrow> http_request list" and ok :: "'w \<Rightarrow> bool" +
  fixes VerifyUserExists :: "'w user_verifier"
  assumes verify_untouched: "preserves untouched (VerifyUserExists u)"

locale product_fetcher = observed_state stored posts ok
  for stored :: "'w \<Rightarrow> stored" and posts :: "'w \<Rightarrow> http_request list" and ok :: "'w \<Rightarrow> bool" +
  fixes GetProduct :: "'w product_fetcher"
  assumes get_product_untouched: "preserves untouched (GetProduct pid)"

text \<open>However often a charge is sent, within a bound, every request that goes out is the one of this charge.\<close>

locale payment_charger = observed_state stored posts ok
  for stored :: "'w \<Rightarrow> stored" and posts :: "'w \<Rightarrow> http_request list" and ok :: "'w \<Rightarrow> bool" +
  fixes Charge :: "'w payment_charger"
    and charge_post :: "charge_request \<Rightarrow> http_request"
    and max_charges :: nat
  assumes charge_law: "ok w \<Longrightarrow> Charge cr w = (r, w') \<Longrightarrow>
    ok w' \<and> stored w' = stored w \<and> (\<exists>k\<le>max_charges. posts w' = posts w @ replicate k (charge_post cr))"

locale order_store = observed_state stored posts ok
  for stored :: "'w \<Rightarrow> stored" and posts :: "'w \<Rightarrow> http_request list" and ok :: "'w \<Rightarrow> bool" +
  fixes repo :: "'w order_repository"
    and ts :: "time \<Rightarrow> time"
  assumes create_returns: "ok w \<Longrightarrow> \<exists>od' err w'. repo_Create repo od w = (Ret (od', err), w')"
    and create_law: "ok w \<Longrightarrow> repo_Create repo od w = (Ret (od', err), w') \<Longrightarrow>
      ok w' \<and> posts w' = posts w \<and> same_order od od'
      \<and> (case err of None \<Rightarrow> added ts od' (stored w) (stored w')
          | Some e \<Rightarrow> stored w' = stored w \<or> added ts od' (stored w) (stored w'))"
    and create_foreign: "repo_Create repo od w = (Ret (od', Some e), w') \<Longrightarrow> \<exists>f. e = Foreign f"
    and update_returns: "ok w \<Longrightarrow> utf8_length s \<le> 20 \<Longrightarrow> \<exists>err w'. repo_UpdateStatus repo i s w = (Ret err, w')"
    and update_law: "ok w \<Longrightarrow> utf8_length s \<le> 20 \<Longrightarrow> repo_UpdateStatus repo i s w = (Ret err, w') \<Longrightarrow>
      ok w' \<and> posts w' = posts w
      \<and> (case err of None \<Rightarrow> status_set i s (stored w) (stored w')
          | Some e \<Rightarrow> stored w' = stored w \<or> status_set i s (stored w) (stored w'))"
    and get_untouched: "preserves untouched (repo_GetByID repo i)"
    and get_law: "ok w \<Longrightarrow> repo_GetByID repo i w = (Ret (Inr od), w') \<Longrightarrow>
      \<exists>row irows. stored w i = Some (row, mset irows) \<and> od = order_of_row row (map item_of_row irows)"
    and get_missing: "ok w \<Longrightarrow> repo_GetByID repo i w = (Ret (Inl e), w') \<Longrightarrow>
      errors_is e Repository_ErrOrderNotFound \<Longrightarrow> stored w i = None"
    and get_errors: "repo_GetByID repo i w = (Ret (Inl e), w') \<Longrightarrow>
      e = Sentinel Repository_ErrOrderNotFound \<or> (\<exists>f. e = Foreign f)"
    and list_untouched: "preserves untouched (repo_ListByUser repo u)"
    and list_law: "ok w \<Longrightarrow> repo_ListByUser repo u w = (Ret (ods, None), w') \<Longrightarrow> od \<in> set ods \<Longrightarrow>
      \<exists>row its. stored w (order_ID od) = Some (row, its) \<and> row_user_id row = u \<and> od = order_of_row row []"
    and list_foreign: "repo_ListByUser repo u w = (Ret (ods, Some e), w') \<Longrightarrow> \<exists>f. e = Foreign f"

end
