(* ===== verification/Order_Service.thy ===== *)
theory Order_Service
  imports Service_Interfaces
begin

section \<open>The order service (\<open>internal/service/order_service.go\<close>)\<close>

text \<open>
  \<open>OrderService\<close> over the interfaces it is given: \<open>CreateOrder\<close> checks the user, prices and checks every line, persists
  the order, charges it and records the outcome. It is written against the operations of the four interfaces and proved
  inside a locale that assumes no more than their contracts.
\<close>

record 'w order_service =
  svc_repo :: "'w order_repository"
  svc_users :: "'w user_verifier"
  svc_products :: "'w product_fetcher"
  svc_payments :: "'w payment_charger"
  svc_logger :: "'w logger"
  svc_uuid :: "'w uuid_package"

definition NewOrderService ::
  "'w order_repository \<Rightarrow> 'w user_verifier \<Rightarrow> 'w product_fetcher \<Rightarrow> 'w payment_charger \<Rightarrow> 'w logger \<Rightarrow> 'w uuid_package
    \<Rightarrow> 'w order_service" where
  "NewOrderService repo users products payments logger uuids = \<lparr>svc_repo = repo, svc_users = users,
     svc_products = products, svc_payments = payments, svc_logger = logger, svc_uuid = uuids\<rparr>"

subsection \<open>Pricing\<close>

text \<open>The line item of a request for a product (lines 86 to 92).\<close>

definition new_item :: "uuid \<Rightarrow> uuid \<Rightarrow> product_info \<Rightarrow> create_order_item_request \<Rightarrow> order_item" where
  "new_item i productID product itemReq = \<lparr>item_ID = i, item_ProductID = productID, item_SKU = product_SKU product,
     item_Quantity = itemreq_Quantity itemReq, item_UnitPriceCents = product_PriceCents product\<rparr>"

text \<open>The loop over the requested items (lines 65 to 93), with the running total and the items so far.\<close>

fun price_items ::
  "'w order_service \<Rightarrow> create_order_item_request list \<Rightarrow> goint \<Rightarrow> order_item list
    \<Rightarrow> ('w, go_error + (goint \<times> order_item list)) io" where
  "price_items s [] cents items = ret (Inr (cents, items))"
| "price_items s (itemReq # reqs) cents items =
     bindIO (svc_products s (itemreq_ProductID itemReq)) (\<lambda>res. case res of
       Inl err \<Rightarrow>
         if errors_is err Client_ErrProductNotFound
         then ret (Inl (errorf_w (Sentinel Service_ErrProductNotFound) ('': product '' @ itemreq_ProductID itemReq)))
         else ret (Inl (errorf_w (Sentinel Service_ErrUpstreamUnavailable) ('': '' @ error_text err)))
     | Inr product \<Rightarrow>
         if \<not> product_IsActive product \<or> sint (product_StockQuantity product) < sint (itemreq_Quantity itemReq)
         then ret (Inl (errorf_w (Sentinel Service_ErrProductUnavailable) ('': product '' @ itemreq_ProductID itemReq)))
         else (case uuid_Parse (svc_uuid s) (product_ID product) of
             None \<Rightarrow> ret (Inl (errorf_w (Sentinel Service_ErrUpstreamUnavailable)
               '': product-service returned an invalid product id''))
           | Some productID \<Rightarrow> bindIO (uuid_New_op (svc_uuid s)) (\<lambda>i.
               price_items s reqs (cents + product_PriceCents product * itemreq_Quantity itemReq)
                 (items @ [new_item i productID product itemReq]))))"

subsection \<open>Charging and settling\<close>

definition charge_of :: "'w order_service \<Rightarrow> order_t \<Rightarrow> charge_request" where
  "charge_of s od = \<lparr>charge_OrderID = uuid_String (svc_uuid s) (order_ID od),
     charge_UserID = uuid_String (svc_uuid s) (order_UserID od), charge_AmountCents = order_TotalCents od,
     charge_Currency = order_Currency od\<rparr>"

definition final_status :: "go_error + charge_result \<Rightarrow> order_status" where
  "final_status charged = (case charged of
       Inl err \<Rightarrow> OrderStatusFailed
     | Inr result \<Rightarrow> if result_Status result \<noteq> ''SUCCEEDED'' then OrderStatusFailed else OrderStatusConfirmed)"

definition log_charge :: "'w order_service \<Rightarrow> order_t \<Rightarrow> go_error + charge_result \<Rightarrow> ('w, unit) io" where
  "log_charge s od charged = (case charged of
       Inl err \<Rightarrow> svc_logger s LevelError ''payment charge failed, marking order as failed''
         [(''orderId'', LUuid (order_ID od)), (''error'', LError (Some err))]
     | Inr result \<Rightarrow>
         if result_Status result \<noteq> ''SUCCEEDED''
         then svc_logger s LevelWarn ''payment declined''
           [(''orderId'', LUuid (order_ID od)), (''reason'', LString (result_Reason result))]
         else ret ())"

definition log_update :: "'w order_service \<Rightarrow> order_t \<Rightarrow> go_error option \<Rightarrow> ('w, unit) io" where
  "log_update s od updateErr = (case updateErr of
       Some err \<Rightarrow> svc_logger s LevelError ''failed to persist final order status''
         [(''orderId'', LUuid (order_ID od)), (''error'', LError (Some err))]
     | None \<Rightarrow> ret ())"

text \<open>From the charge on (lines 100 to 124), for an order that has been persisted.\<close>

definition settle :: "'w order_service \<Rightarrow> order_t \<Rightarrow> ('w, order_t option \<times> go_error option) io" where
  "settle s od =
     bindIO (svc_payments s (charge_of s od)) (\<lambda>charged.
     bindIO (log_charge s od charged) (\<lambda>_.
     bindIO (repo_UpdateStatus (svc_repo s) (order_ID od) (final_status charged)) (\<lambda>updateErr.
     bindIO (log_update s od updateErr) (\<lambda>_.
     ret (Some (od\<lparr>order_Status := final_status charged\<rparr>),
          if final_status charged = OrderStatusFailed then Some (Sentinel Service_ErrPaymentDeclined) else None)))))"

subsection \<open>The operations\<close>

text \<open>The zero \<open>time.Time\<close>, January 1 of year 1, in nanoseconds from 1970.\<close>

definition zero_time :: time where
  "zero_time = - 62135596800000000000"

definition new_order :: "uuid \<Rightarrow> uuid \<Rightarrow> goint \<Rightarrow> order_item list \<Rightarrow> order_t" where
  "new_order i userID cents items = \<lparr>order_ID = i, order_UserID = userID, order_Status = OrderStatusPending,
     order_TotalCents = cents, order_Currency = ''USD'', order_Items = items,
     order_CreatedAt = zero_time, order_UpdatedAt = zero_time\<rparr>"

text \<open>Persisting a new order, then settling it (lines 96 to 124).\<close>

definition persist_and_settle :: "'w order_service \<Rightarrow> order_t \<Rightarrow> ('w, order_t option \<times> go_error option) io" where
  "persist_and_settle s od =
     bindIO (repo_Create (svc_repo s) od) (\<lambda>(od', err). case err of
       Some e \<Rightarrow> ret (None, Some (Wrapped (''persisting order: '' @ error_text e) e))
     | None \<Rightarrow> settle s od')"

text \<open>From the new order on (lines 58 to 124), for a user that has been verified.\<close>

definition place_order ::
  "'w order_service \<Rightarrow> create_order_request \<Rightarrow> uuid \<Rightarrow> ('w, order_t option \<times> go_error option) io" where
  "place_order s req userID =
     bindIO (uuid_New_op (svc_uuid s)) (\<lambda>i.
     bindIO (price_items s (req_Items req) 0 []) (\<lambda>priced. case priced of
       Inl err \<Rightarrow> ret (None, Some err)
     | Inr (cents, items) \<Rightarrow> persist_and_settle s (new_order i userID cents items)))"

definition CreateOrder ::
  "'w order_service \<Rightarrow> create_order_request \<Rightarrow> ('w, order_t option \<times> go_error option) io" where
  "CreateOrder s req =
     (case uuid_Parse (svc_uuid s) (req_UserID req) of
        None \<Rightarrow> ret (None, Some (errorf_w (Sentinel Service_ErrValidation) '': invalid userId''))
      | Some userID \<Rightarrow>
          bindIO (svc_users s (req_UserID req)) (\<lambda>verified. case verified of
            Some err \<Rightarrow>
              if errors_is err Client_ErrUserNotFound then ret (None, Some (Sentinel Service_ErrUserNotFound))
              else ret (None, Some (errorf_w (Sentinel Service_ErrUpstreamUnavailable) ('': '' @ error_text err)))
          | None \<Rightarrow> place_order s req userID))"

definition GetOrder :: "'w order_service \<Rightarrow> uuid \<Rightarrow> ('w, go_error + order_t) io" where
  "GetOrder s i =
     bindIO (repo_GetByID (svc_repo s) i) (\<lambda>res. case res of
       Inl err \<Rightarrow>
         if errors_is err Repository_ErrOrderNotFound then ret (Inl (Sentinel Service_ErrOrderNotFound))
         else ret (Inl err)
     | Inr od \<Rightarrow> ret (Inr od))"

definition ListOrdersByUser :: "'w order_service \<Rightarrow> uuid \<Rightarrow> ('w, order_t list \<times> go_error option) io" where
  "ListOrdersByUser s userID = repo_ListByUser (svc_repo s) userID"

subsection \<open>Prices and totals\<close>

text \<open>How a line of the order comes from a line of the request and what product-service said of the product.\<close>

definition priced_as :: "'w order_service \<Rightarrow> product_info \<Rightarrow> create_order_item_request \<Rightarrow> order_item \<Rightarrow> bool" where
  "priced_as s product itemReq it \<longleftrightarrow>
     product_IsActive product \<and> sint (itemreq_Quantity itemReq) \<le> sint (product_StockQuantity product)
     \<and> uuid_Parse (svc_uuid s) (product_ID product) = Some (item_ProductID it)
     \<and> item_SKU it = product_SKU product \<and> item_Quantity it = itemreq_Quantity itemReq
     \<and> item_UnitPriceCents it = product_PriceCents product"

definition fetched_line :: "'w order_service \<Rightarrow> create_order_item_request \<Rightarrow> order_item \<Rightarrow> bool" where
  "fetched_line s itemReq it \<longleftrightarrow>
     (\<exists>product wa wb. svc_products s (itemreq_ProductID itemReq) wa = (Ret (Inr product), wb)
        \<and> priced_as s product itemReq it)"

text \<open>The total the loop computes, in 64-bit arithmetic.\<close>

definition word_total :: "order_item list \<Rightarrow> goint" where
  "word_total its = (\<Sum>it\<leftarrow>its. item_UnitPriceCents it * item_Quantity it)"

lemma word_total_simps [simp]:
  "word_total [] = 0"
  "word_total (it # its) = item_UnitPriceCents it * item_Quantity it + word_total its"
  "word_total (xs @ ys) = word_total xs + word_total ys"
  by (simp_all add: word_total_def)

lemma word_total_eq: "word_total its = word_of_int (lines_cents its)"
  by (induction its) (simp_all add: line_cents_def)

lemma sint_word_total: "in_int64 (lines_cents its) \<Longrightarrow> sint (word_total its) = lines_cents its"
  by (simp add: word_total_eq sint_word_of_int64)

definition pricing_error :: "go_error \<Rightarrow> bool" where
  "pricing_error e \<longleftrightarrow> errors_is e Service_ErrProductNotFound \<or> errors_is e Service_ErrProductUnavailable
     \<or> errors_is e Service_ErrUpstreamUnavailable"

lemma price_items_result:
  assumes "price_items s reqs cents items w = (Ret res, w')"
  shows "case res of
      Inl e \<Rightarrow> pricing_error e
    | Inr (cents', items') \<Rightarrow> \<exists>new. items' = items @ new \<and> cents' = cents + word_total new
        \<and> list_all2 (fetched_line s) reqs new"
  using assms
proof (induction s reqs cents items arbitrary: w rule: price_items.induct)
  case (1 s cents items)
  then show ?case by auto
next
  case (2 s itemReq reqs cents items)
  from "2.prems" obtain fetched w1 where f: "svc_products s (itemreq_ProductID itemReq) w = (Ret fetched, w1)"
    by (auto elim: bindIO_RetE)
  show ?case
  proof (cases fetched)
    case (Inl err)
    with "2.prems" f show ?thesis by (auto simp: bindIO_Ret pricing_error_def split: if_splits)
  next
    case (Inr product)
    show ?thesis
    proof (cases "\<not> product_IsActive product \<or> sint (product_StockQuantity product) < sint (itemreq_Quantity itemReq)
        \<or> uuid_Parse (svc_uuid s) (product_ID product) = None")
      case True
      with "2.prems" f Inr show ?thesis by (auto simp: bindIO_Ret pricing_error_def split: if_splits option.splits)
    next
      case False
      then obtain productID where pid: "uuid_Parse (svc_uuid s) (product_ID product) = Some productID" by auto
      with False "2.prems" f Inr obtain i w2 where
        rest: "price_items s reqs (cents + product_PriceCents product * itemreq_Quantity itemReq)
            (items @ [new_item i productID product itemReq]) w2 = (Ret res, w')"
        by (auto simp: bindIO_Ret elim: bindIO_RetE)
      have "fetched_line s itemReq (new_item i productID product itemReq)"
        unfolding fetched_line_def priced_as_def new_item_def using False pid f Inr by force
      moreover from "2.IH" [OF _ pid rest] False
      have "case res of Inl e \<Rightarrow> pricing_error e
        | Inr (cents', items') \<Rightarrow> \<exists>new. items' = (items @ [new_item i productID product itemReq]) @ new
            \<and> cents' = cents + product_PriceCents product * itemreq_Quantity itemReq + word_total new
            \<and> list_all2 (fetched_line s) reqs new" by simp
      ultimately show ?thesis
        by (fastforce split: sum.splits prod.splits simp: new_item_def intro: exI [of _ "_ # _"])
    qed
  qed
qed

text \<open>The order a request asks for: priced from product-service, in the request's lines and quantities, pending, in dollars.\<close>

definition order_for :: "'w order_service \<Rightarrow> create_order_request \<Rightarrow> order_t \<Rightarrow> bool" where
  "order_for s req od \<longleftrightarrow> uuid_Parse (svc_uuid s) (req_UserID req) = Some (order_UserID od)
     \<and> order_Status od = OrderStatusPending \<and> order_Currency od = ''USD''
     \<and> order_TotalCents od = word_total (order_Items od)
     \<and> list_all2 (fetched_line s) (req_Items req) (order_Items od)"

definition rejection :: "go_error \<Rightarrow> bool" where
  "rejection e \<longleftrightarrow> errors_is e Service_ErrValidation \<or> errors_is e Service_ErrUserNotFound \<or> pricing_error e"

lemma fetched_line_clear [simp]: "fetched_line s itemReq (it\<lparr>item_ID := i\<rparr>) = fetched_line s itemReq it"
  by (simp add: fetched_line_def priced_as_def)

lemma word_total_clear: "word_total (map (\<lambda>it. it\<lparr>item_ID := 0\<rparr>) its) = word_total its"
  by (induction its) simp_all

lemma same_items:
  assumes "map (\<lambda>it. it\<lparr>item_ID := 0\<rparr>) its' = map (\<lambda>it. it\<lparr>item_ID := 0\<rparr>) its"
  shows "list_all2 (fetched_line s) reqs its' = list_all2 (fetched_line s) reqs its" and "word_total its' = word_total its"
proof -
  have "list_all2 (fetched_line s) reqs (map (\<lambda>it. it\<lparr>item_ID := 0\<rparr>) xs) = list_all2 (fetched_line s) reqs xs" for xs
    by (simp add: list_all2_map2)
  from this [of its'] this [of its] assms
  show "list_all2 (fetched_line s) reqs its' = list_all2 (fetched_line s) reqs its" by simp
  from word_total_clear [of its'] word_total_clear [of its] assms
  show "word_total its' = word_total its" by simp
qed

lemma order_for_same: "order_for s req od \<Longrightarrow> same_order od od' \<Longrightarrow> order_for s req od'"
  using same_items [of "order_Items od'" "order_Items od"] by (auto simp: order_for_def same_order_def)

lemma utf8_length_final_status: "utf8_length (final_status charged) \<le> 20"
  by (auto simp: final_status_def status_defs utf8_length_def utf8_continuation_def split: sum.splits)

text \<open>A new order was stored, pending or with its final status.\<close>

definition settled_row :: "order_row \<Rightarrow> order_row \<Rightarrow> bool" where
  "settled_row row row' \<longleftrightarrow> row' = row \<or> (\<exists>t s. (s = OrderStatusConfirmed \<or> s = OrderStatusFailed) \<and> row' = set_status s t row)"

definition placed :: "(time \<Rightarrow> time) \<Rightarrow> order_t \<Rightarrow> stored \<Rightarrow> stored \<Rightarrow> bool" where
  "placed ts od st st' \<longleftrightarrow> st (order_ID od) = None \<and> (\<exists>row its row'. order_rows ts od = Some (row, its)
     \<and> settled_row row row' \<and> st' = st(order_ID od \<mapsto> (row', mset its)))"

lemma added_placed: "added ts od st st' \<Longrightarrow> placed ts od st st'"
  unfolding added_def placed_def settled_row_def by blast

lemma final_status_cases: "final_status charged = OrderStatusConfirmed \<or> final_status charged = OrderStatusFailed"
  by (simp add: final_status_def split: sum.split)

lemma placed_settled:
  assumes "added ts od st st1" and "status_set (order_ID od) (final_status charged) st1 st'"
  shows "placed ts od st st'"
proof -
  from assms(1) obtain row its where row: "order_rows ts od = Some (row, its)" and new: "st (order_ID od) = None"
    and st1: "st1 = st(order_ID od \<mapsto> (row, mset its))" by (auto simp: added_def)
  with assms(2) obtain t where "st' = st(order_ID od \<mapsto> (set_status (final_status charged) t row, mset its))"
    by (auto simp: status_set_def)
  with row new final_status_cases [of charged] show ?thesis unfolding placed_def settled_row_def by metis
qed

subsection \<open>Under the contracts\<close>

locale order_service_contract =
  users: user_verifier stored posts ok "svc_users S" +
  products: product_fetcher stored posts ok "svc_products S" +
  payments: payment_charger stored posts ok "svc_payments S" charge_post max_charges +
  store: order_store stored posts ok "svc_repo S" ts
  for stored :: "'w \<Rightarrow> stored" and posts :: "'w \<Rightarrow> http_request list" and ok :: "'w \<Rightarrow> bool"
    and S :: "'w order_service" and charge_post and max_charges and ts +
  assumes log_untouched: "preserves (observed_state.untouched stored posts ok) (svc_logger S lvl msg attrs)"
    and log_returns: "\<exists>w'. svc_logger S lvl msg attrs w = (Ret (), w')"
    and uuid_untouched: "preserves (observed_state.untouched stored posts ok) (uuid_New_op (svc_uuid S))"
begin

lemma price_items_untouched: "preserves users.untouched (price_items S reqs cents items)"
  by (induction reqs arbitrary: cents items)
    (auto intro!: preserves_bindIO [OF users.untouched_transp] preserves_ret [OF users.untouched_reflp]
      products.get_product_untouched uuid_untouched split: sum.splits option.splits)

lemma log_steps:
  "\<exists>w'. log_charge S od charged w = (Ret (), w') \<and> users.untouched w w'"
  "\<exists>w'. log_update S od err w = (Ret (), w') \<and> users.untouched w w'"
  using log_returns log_untouched
  by (fastforce simp: log_charge_def log_update_def preserves_def split: sum.splits option.splits)+

lemma settle_E:
  assumes "ok w" and "settle S od w = (r, w')"
  obtains (Panicked) p k where "r = Panic p" and "ok w'" and "stored w' = stored w"
      and "posts w' = posts w @ replicate k (charge_post (charge_of S od))" and "k \<le> max_charges"
    | (Settled) charged wa wb wc wd upd k where "svc_payments S (charge_of S od) wa = (Ret charged, wb)"
      and "r = Ret (Some (od\<lparr>order_Status := final_status charged\<rparr>),
             if final_status charged = OrderStatusFailed then Some (Sentinel Service_ErrPaymentDeclined) else None)"
      and "ok w'" and "posts w' = posts w @ replicate k (charge_post (charge_of S od))"
      and "repo_UpdateStatus (svc_repo S) (order_ID od) (final_status charged) wc = (Ret upd, wd)"
      and "stored w' = stored w \<and> upd \<noteq> None \<or> status_set (order_ID od) (final_status charged) (stored w) (stored w')" and "k \<le> max_charges"
proof -
  obtain r1 w1 where charge: "svc_payments S (charge_of S od) w = (r1, w1)" by fastforce
  from payments.charge_law [OF assms(1) charge] obtain k where
    w1: "ok w1" "stored w1 = stored w" "posts w1 = posts w @ replicate k (charge_post (charge_of S od))"
      "k \<le> max_charges" by blast
  show thesis
  proof (cases r1)
    case (Panic p)
    with charge assms(2) w1 show thesis by (intro Panicked) (auto simp: settle_def bindIO_Panic)
  next
    case (Ret charged)
    obtain w2 where log1: "log_charge S od charged w1 = (Ret (), w2)" and u2: "users.untouched w1 w2"
      using log_steps(1) by blast
    have w2: "ok w2" "stored w2 = stored w" "posts w2 = posts w1"
      using users.untouchedD [OF u2 w1(1)] w1(2) by simp_all
    obtain upd w3 where update: "repo_UpdateStatus (svc_repo S) (order_ID od) (final_status charged) w2 = (Ret upd, w3)"
      using store.update_returns [OF w2(1) utf8_length_final_status] by blast
    note law = store.update_law [OF w2(1) utf8_length_final_status update]
    obtain w4 where log2: "log_update S od upd w3 = (Ret (), w4)" and u4: "users.untouched w3 w4"
      using log_steps(2) by blast
    have w4: "ok w4" "stored w4 = stored w3" "posts w4 = posts w3"
      using users.untouchedD [OF u4] law by auto
    from assms(2) charge Ret log1 update log2 have
      "r = Ret (Some (od\<lparr>order_Status := final_status charged\<rparr>),
             if final_status charged = OrderStatusFailed then Some (Sentinel Service_ErrPaymentDeclined) else None)"
      and "w' = w4"
      by (simp_all add: settle_def bindIO_Ret)
    with charge Ret update law w4 w2 w1 show thesis
      by (intro Settled [of w charged w1 k w2 upd w3]) (auto split: option.splits)
  qed
qed

lemma persist_E:
  assumes "ok w" and "order_for S req od" and "persist_and_settle S od w = (r, w')"
  obtains (Unpersisted) f od' where
      "r = Ret (None, Some (Wrapped (''persisting order: '' @ foreign_text f) (Foreign f)))" and "ok w'"
      and "posts w' = posts w" and "order_for S req od'" and "stored w' = stored w \<or> added ts od' (stored w) (stored w')"
    | (Charge_panicked) p od' k where "r = Panic p" and "ok w'" and "order_for S req od'"
      and "added ts od' (stored w) (stored w')" and "posts w' = posts w @ replicate k (charge_post (charge_of S od'))" and "k \<le> max_charges"
    | (Settled) od' st charged wa wb wc wd upd k where "order_for S req od'" and "added ts od' (stored w) st"
      and "svc_payments S (charge_of S od') wa = (Ret charged, wb)"
      and "r = Ret (Some (od'\<lparr>order_Status := final_status charged\<rparr>),
             if final_status charged = OrderStatusFailed then Some (Sentinel Service_ErrPaymentDeclined) else None)"
      and "ok w'" and "posts w' = posts w @ replicate k (charge_post (charge_of S od'))"
      and "repo_UpdateStatus (svc_repo S) (order_ID od') (final_status charged) wc = (Ret upd, wd)"
      and "stored w' = st \<and> upd \<noteq> None \<or> status_set (order_ID od') (final_status charged) st (stored w')" and "k \<le> max_charges"
proof -
  obtain od' err w1 where create: "repo_Create (svc_repo S) od w = (Ret (od', err), w1)"
    using store.create_returns [OF assms(1)] by blast
  note law = store.create_law [OF assms(1) create]
  have od': "order_for S req od'" using order_for_same [OF assms(2)] law by blast
  show thesis
  proof (cases err)
    case (Some e)
    with create obtain f where "e = Foreign f" using store.create_foreign by blast
    with Some assms(3) create law od' show thesis
      by (intro Unpersisted [of f od']) (auto simp: persist_and_settle_def bindIO_Ret)
  next
    case None
    then have run: "settle S od' w1 = (r, w')" and st: "added ts od' (stored w) (stored w1)" and ok1: "ok w1"
      and posts1: "posts w1 = posts w"
      using assms(3) create law by (auto simp: persist_and_settle_def bindIO_Ret)
    from ok1 run show thesis
    proof (cases rule: settle_E)
      case (Panicked p k)
      with st od' posts1 show thesis by (intro Charge_panicked [of p od' k]) auto
    next
      case (Settled charged wa wb wc wd upd k)
      show thesis
        by (rule that(3) [OF od' st Settled(1,2,3) _ Settled(5,6,7)]) (simp add: Settled(4) posts1)
    qed
  qed
qed

text \<open>Up to the persisting of the order nothing observable happens: the call ends in a rejection or a panic, or goes on with the
  order the request asks for.\<close>

lemma CreateOrder_prefix:
  assumes "ok w" and "CreateOrder S req w = (r, w')"
  obtains (Rejected) e where "r = Ret (None, Some e)" and "rejection e" and "users.untouched w w'"
    | (Panicked) p where "r = Panic p" and "users.untouched w w'"
    | (Goes_on) od w1 where "order_for S req od" and "users.untouched w w1" and "persist_and_settle S od w1 = (r, w')"
proof (cases "uuid_Parse (svc_uuid S) (req_UserID req)")
  case None
  with assms Rejected show thesis by (auto simp: CreateOrder_def rejection_def)
next
  case (Some userID)
  obtain r1 w1 where verify: "svc_users S (req_UserID req) w = (r1, w1)" by fastforce
  note u1 = preservesD [OF users.verify_untouched verify]
  note run = assms(2) [unfolded CreateOrder_def] verify Some
  show thesis
  proof (cases r1)
    case (Panic p)
    with run u1 Panicked show thesis by (auto simp: bindIO_Panic)
  next
    case (Ret verified)
    show thesis
    proof (cases verified)
      case (Some err)
      with Ret run u1 Rejected show thesis
        by (auto simp: bindIO_Ret rejection_def pricing_error_def split: if_splits)
    next
      case None
      with Ret run have place: "place_order S req userID w1 = (r, w')" by (simp add: bindIO_Ret)
      from place [unfolded place_order_def] show thesis
      proof (cases rule: bindIO_E)
        case (Panic p)
        with u1 preservesD [OF uuid_untouched Panic(1)] Panicked users.untouched_trans show thesis by blast
      next
        case (Ret i w2)
        have u2: "users.untouched w w2" using u1 preservesD [OF uuid_untouched Ret(1)] users.untouched_trans by blast
        from Ret(2) show thesis
        proof (cases rule: bindIO_E)
          case (Panic p)
          with u2 preservesD [OF price_items_untouched Panic(1)] Panicked users.untouched_trans show thesis by blast
        next
          case (Ret priced w3)
          have u3: "users.untouched w w3" using u2 preservesD [OF price_items_untouched Ret(1)] users.untouched_trans by blast
          note priced = price_items_result [OF Ret(1)]
          show thesis
          proof (cases priced)
            case (Inl e)
            with Ret(2) priced u3 Rejected show thesis by (auto simp: rejection_def)
          next
            case (Inr ci)
            obtain cents items where ci: "ci = (cents, items)" by fastforce
            have "order_for S req (new_order i userID cents items)"
              using priced Inr ci \<open>uuid_Parse (svc_uuid S) (req_UserID req) = Some userID\<close>
              by (simp add: order_for_def new_order_def)
            with Ret(2) Inr ci u3 show thesis by (intro Goes_on) auto
          qed
        qed
      qed
    qed
  qed
qed

text \<open>All the ways a \<open>CreateOrder\<close> can end.\<close>

lemma CreateOrder_E:
  assumes "ok w" and "CreateOrder S req w = (r, w')"
  obtains (Rejected) e where "r = Ret (None, Some e)" and "rejection e" and "ok w'" and "stored w' = stored w"
      and "posts w' = posts w"
    | (Panicked) p where "r = Panic p" and "ok w'" and "stored w' = stored w" and "posts w' = posts w"
    | (Unpersisted) f od where "r = Ret (None, Some (Wrapped (''persisting order: '' @ foreign_text f) (Foreign f)))"
      and "ok w'" and "posts w' = posts w" and "order_for S req od"
      and "stored w' = stored w \<or> added ts od (stored w) (stored w')"
    | (Charge_panicked) p od k where "r = Panic p" and "ok w'" and "order_for S req od"
      and "added ts od (stored w) (stored w')" and "posts w' = posts w @ replicate k (charge_post (charge_of S od))" and "k \<le> max_charges"
    | (Settled) od st charged wa wb wc wd upd k where "order_for S req od" and "added ts od (stored w) st"
      and "svc_payments S (charge_of S od) wa = (Ret charged, wb)"
      and "r = Ret (Some (od\<lparr>order_Status := final_status charged\<rparr>),
             if final_status charged = OrderStatusFailed then Some (Sentinel Service_ErrPaymentDeclined) else None)"
      and "ok w'" and "posts w' = posts w @ replicate k (charge_post (charge_of S od))"
      and "repo_UpdateStatus (svc_repo S) (order_ID od) (final_status charged) wc = (Ret upd, wd)"
      and "stored w' = st \<and> upd \<noteq> None \<or> status_set (order_ID od) (final_status charged) st (stored w')" and "k \<le> max_charges"
  using assms
proof (cases rule: CreateOrder_prefix)
  case (Rejected e)
  with users.untouchedD [OF Rejected(3) assms(1)] that(1) show thesis by blast
next
  case (Panicked p)
  with users.untouchedD [OF Panicked(2) assms(1)] that(2) show thesis by blast
next
  case (Goes_on od w1)
  note w1 = users.untouchedD [OF Goes_on(2) assms(1)]
  from w1(1) Goes_on(1,3) show thesis
  proof (cases rule: persist_E)
    case (Unpersisted f od')
    with w1 show thesis by (intro that(3) [of f od']) simp_all
  next
    case (Charge_panicked p od' k)
    with w1 show thesis by (intro that(4) [of p od' k]) simp_all
  next
    case (Settled od' st charged wa wb wc wd upd k)
    show thesis
      by (rule that(5) [OF Settled(1) _ Settled(3,4,5) _ Settled(7,8,9)]) (simp_all add: w1 Settled(2,6) [unfolded w1])
  qed
qed

text \<open>
  What the rest of the system may rely on: either nothing observable happened, or the order the request asks for was new and
  is now stored, as it was created or settled, nothing else in the tables changed, and every charge that went out is the
  charge of that order.
\<close>

lemma CreateOrder_effect:
  assumes "ok w" and "CreateOrder S req w = (r, w')"
  obtains (Nothing) "ok w'" and "stored w' = stored w" and "posts w' = posts w" and "\<And>od err. r \<noteq> Ret (Some od, err)"
    | (Placed) od k where "ok w'" and "order_for S req od" and "placed ts od (stored w) (stored w')"
      and "posts w' = posts w @ replicate k (charge_post (charge_of S od))" and "k \<le> max_charges"
  using assms
proof (cases rule: CreateOrder_E)
  case (Rejected e)
  with Nothing show thesis by simp
next
  case (Panicked p)
  with Nothing show thesis by simp
next
  case (Unpersisted f od)
  with Nothing Placed [of od 0] show thesis by (auto dest: added_placed)
next
  case (Charge_panicked p od k)
  with Placed [of od k] show thesis by (auto dest: added_placed)
next
  case (Settled od st charged wa wb wc wd upd k)
  with Placed [of od k] show thesis by (auto dest: added_placed intro: placed_settled)
qed

end

end
