(* ===== verification/Order_Steps.thy ===== *)
theory Order_Steps
  imports Order_Service
begin

section \<open>Placing an order, call by call\<close>

text \<open>
  The server runs one goroutine per request, so between two calls that \<open>CreateOrder\<close> makes, the other requests make
  theirs. Here \<open>CreateOrder\<close> is split at its calls of the repository, the clients, the logger and \<open>uuid.New\<close>: a phase says
  which call is next and what the local variables hold, and \<open>advance\<close> makes that one call. Running a phase to the end without
  interruption is shown to be the rest of \<open>CreateOrder\<close>, so the phases add nothing to the code; they are what the
  interleavings of \<open>Order_Concurrency\<close> are made of.
\<close>

datatype phase =
    Verifying create_order_request uuid
  | Minting create_order_request uuid
  | Pricing create_order_request uuid uuid goint "order_item list" "create_order_item_request list"
  | Adding create_order_request uuid uuid goint "order_item list" create_order_item_request product_info uuid
      "create_order_item_request list"
  | Persisting create_order_request order_t
  | Charging order_t
  | Charged order_t "go_error + charge_result"
  | Recording order_t "go_error + charge_result"
  | Recorded order_t "go_error + charge_result" "go_error option"
  | Finished "(order_t option \<times> go_error option) outcome"

text \<open>One call, and what follows its return; a panic ends the request.\<close>

definition making :: "('w, 'a) io \<Rightarrow> ('a \<Rightarrow> phase) \<Rightarrow> 'w \<Rightarrow> phase \<times> 'w" where
  "making m k w = (case m w of (Ret x, w') \<Rightarrow> (k x, w') | (Panic p, w') \<Rightarrow> (Finished (Panic p), w'))"

definition refused :: "go_error \<Rightarrow> phase" where
  "refused e = Finished (Ret (None, Some e))"

definition begin_order :: "'w order_service \<Rightarrow> create_order_request \<Rightarrow> phase" where
  "begin_order s req =
     (case uuid_Parse (svc_uuid s) (req_UserID req) of
        None \<Rightarrow> refused (errorf_w (Sentinel Service_ErrValidation) '': invalid userId'')
      | Some userID \<Rightarrow> Verifying req userID)"

fun advance :: "'w order_service \<Rightarrow> phase \<Rightarrow> 'w \<Rightarrow> phase \<times> 'w" where
  "advance s (Verifying req userID) =
     making (svc_users s (req_UserID req)) (\<lambda>verified. case verified of
         Some err \<Rightarrow>
           if errors_is err Client_ErrUserNotFound then refused (Sentinel Service_ErrUserNotFound)
           else refused (errorf_w (Sentinel Service_ErrUpstreamUnavailable) ('': '' @ error_text err))
       | None \<Rightarrow> Minting req userID)"
| "advance s (Minting req userID) =
     making (uuid_New_op (svc_uuid s)) (\<lambda>i. Pricing req userID i 0 [] (req_Items req))"
| "advance s (Pricing req userID i cents items []) = (\<lambda>w. (Persisting req (new_order i userID cents items), w))"
| "advance s (Pricing req userID i cents items (itemReq # reqs)) =
     making (svc_products s (itemreq_ProductID itemReq)) (\<lambda>res. case res of
         Inl err \<Rightarrow>
           if errors_is err Client_ErrProductNotFound
           then refused (errorf_w (Sentinel Service_ErrProductNotFound) ('': product '' @ itemreq_ProductID itemReq))
           else refused (errorf_w (Sentinel Service_ErrUpstreamUnavailable) ('': '' @ error_text err))
       | Inr product \<Rightarrow>
           if \<not> product_IsActive product \<or> sint (product_StockQuantity product) < sint (itemreq_Quantity itemReq)
           then refused (errorf_w (Sentinel Service_ErrProductUnavailable) ('': product '' @ itemreq_ProductID itemReq))
           else (case uuid_Parse (svc_uuid s) (product_ID product) of
               None \<Rightarrow> refused (errorf_w (Sentinel Service_ErrUpstreamUnavailable)
                 '': product-service returned an invalid product id'')
             | Some productID \<Rightarrow> Adding req userID i cents items itemReq product productID reqs))"
| "advance s (Adding req userID i cents items itemReq product productID reqs) =
     making (uuid_New_op (svc_uuid s)) (\<lambda>j. Pricing req userID i
       (cents + product_PriceCents product * itemreq_Quantity itemReq) (items @ [new_item j productID product itemReq]) reqs)"
| "advance s (Persisting req od) =
     making (repo_Create (svc_repo s) od) (\<lambda>(od', err). case err of
         Some e \<Rightarrow> refused (Wrapped (''persisting order: '' @ error_text e) e)
       | None \<Rightarrow> Charging od')"
| "advance s (Charging od) = making (svc_payments s (charge_of s od)) (Charged od)"
| "advance s (Charged od charged) = making (log_charge s od charged) (\<lambda>_. Recording od charged)"
| "advance s (Recording od charged) =
     making (repo_UpdateStatus (svc_repo s) (order_ID od) (final_status charged)) (Recorded od charged)"
| "advance s (Recorded od charged updateErr) =
     making (log_update s od updateErr) (\<lambda>_. Finished (Ret (Some (od\<lparr>order_Status := final_status charged\<rparr>),
       if final_status charged = OrderStatusFailed then Some (Sentinel Service_ErrPaymentDeclined) else None)))"
| "advance s (Finished r) = (\<lambda>w. (Finished r, w))"

text \<open>At most this many calls are left.\<close>

fun calls_left :: "phase \<Rightarrow> nat" where
  "calls_left (Verifying req userID) = 2 * length (req_Items req) + 8"
| "calls_left (Minting req userID) = 2 * length (req_Items req) + 7"
| "calls_left (Pricing req userID i cents items reqs) = 2 * length reqs + 6"
| "calls_left (Adding req userID i cents items itemReq product productID reqs) = 2 * length reqs + 7"
| "calls_left (Persisting req od) = 5"
| "calls_left (Charging od) = 4"
| "calls_left (Charged od charged) = 3"
| "calls_left (Recording od charged) = 2"
| "calls_left (Recorded od charged updateErr) = 1"
| "calls_left (Finished r) = 0"

lemma calls_left_refused [simp]: "calls_left (refused e) = 0"
  by (simp add: refused_def)

lemma making_decreases: "(\<And>x. calls_left (k x) < n) \<Longrightarrow> 0 < n \<Longrightarrow> calls_left (fst (making m k w)) < n"
  by (simp add: making_def split: prod.split outcome.split)

lemma making_0: "(\<And>x. calls_left (k x) = 0) \<Longrightarrow> calls_left (fst (making m k w)) = 0"
  by (simp add: making_def split: prod.split outcome.split)

lemma advance_decreases: "0 < calls_left ph \<Longrightarrow> calls_left (fst (advance s ph w)) < calls_left ph"
  by (cases "(s, ph)" rule: advance.cases)
    (auto intro!: making_decreases making_0 split: option.splits sum.splits prod.splits)

lemma advance_less: "0 < calls_left ph \<Longrightarrow> (case advance s ph w of (ph', w') \<Rightarrow> calls_left ph') < calls_left ph"
  using advance_decreases [of ph s w] by (simp add: case_prod_beta)

lemma calls_left_0: "calls_left ph = 0 \<longleftrightarrow> (\<exists>r. ph = Finished r)"
  by (cases ph) simp_all

subsection \<open>Without interruption: the code itself\<close>

lemma calls_left_pos: "0 < calls_left ph \<longleftrightarrow> (\<nexists>r. ph = Finished r)"
  by (cases ph) simp_all

function finish :: "'w order_service \<Rightarrow> phase \<Rightarrow> 'w \<Rightarrow> (order_t option \<times> go_error option) outcome \<times> 'w" where
  "finish s ph w = (case ph of Finished r \<Rightarrow> (r, w) | _ \<Rightarrow> (case advance s ph w of (ph', w') \<Rightarrow> finish s ph' w'))"
  by pat_completeness auto
termination
  by (relation "measure (\<lambda>(s, ph, w). calls_left ph)")
    (auto simp del: advance.simps calls_left.simps intro!: advance_less simp: calls_left_pos)

declare finish.simps [simp del]

lemma finish_Finished [simp]: "finish s (Finished r) w = (r, w)"
  by (simp add: finish.simps)

lemma finish_advance:
  "\<nexists>r. ph = Finished r \<Longrightarrow> advance s ph w = (ph', w') \<Longrightarrow> finish s ph w = finish s ph' w'"
  by (subst finish.simps) (auto split: phase.splits)

lemma finish_induct [case_names Finished advance]:
  assumes "\<And>r w. P (Finished r) w"
    and "\<And>ph w ph' w'. \<nexists>r. ph = Finished r \<Longrightarrow> advance s ph w = (ph', w') \<Longrightarrow> P ph' w' \<Longrightarrow> P ph w"
  shows "P ph w"
proof -
  have "\<forall>ph w. calls_left ph = n \<longrightarrow> P ph w" for n
  proof (induction n rule: less_induct)
    case (less n)
    show ?case
    proof (intro allI impI)
      fix ph w assume n: "calls_left ph = n"
      show "P ph w"
      proof (cases "\<exists>r. ph = Finished r")
        case True
        with assms(1) show ?thesis by blast
      next
        case False
        obtain ph' w' where step: "advance s ph w = (ph', w')" by fastforce
        from False have "0 < calls_left ph" by (simp add: calls_left_pos)
        from advance_less [OF this, of s w] step n have "calls_left ph' < n" by simp
        with less assms(2) [OF False step] show ?thesis by blast
      qed
    qed
  qed
  then show ?thesis by blast
qed

text \<open>What of \<open>CreateOrder\<close> is left in a phase, in the words of the code.\<close>

definition priced :: "'w order_service \<Rightarrow> uuid \<Rightarrow> uuid \<Rightarrow> go_error + (goint \<times> order_item list)
    \<Rightarrow> ('w, order_t option \<times> go_error option) io" where
  "priced s userID i res = (case res of
       Inl err \<Rightarrow> ret (None, Some err)
     | Inr (cents, items) \<Rightarrow> persist_and_settle s (new_order i userID cents items))"

definition settled_result :: "order_t \<Rightarrow> go_error + charge_result \<Rightarrow> order_t option \<times> go_error option" where
  "settled_result od charged = (Some (od\<lparr>order_Status := final_status charged\<rparr>),
     if final_status charged = OrderStatusFailed then Some (Sentinel Service_ErrPaymentDeclined) else None)"

fun rest_of :: "'w order_service \<Rightarrow> phase \<Rightarrow> ('w, order_t option \<times> go_error option) io" where
  "rest_of s (Verifying req userID) =
     bindIO (svc_users s (req_UserID req)) (\<lambda>verified. case verified of
         Some err \<Rightarrow>
           if errors_is err Client_ErrUserNotFound then ret (None, Some (Sentinel Service_ErrUserNotFound))
           else ret (None, Some (errorf_w (Sentinel Service_ErrUpstreamUnavailable) ('': '' @ error_text err)))
       | None \<Rightarrow> place_order s req userID)"
| "rest_of s (Minting req userID) = place_order s req userID"
| "rest_of s (Pricing req userID i cents items reqs) = bindIO (price_items s reqs cents items) (priced s userID i)"
| "rest_of s (Adding req userID i cents items itemReq product productID reqs) =
     bindIO (uuid_New_op (svc_uuid s)) (\<lambda>j. bindIO (price_items s reqs
         (cents + product_PriceCents product * itemreq_Quantity itemReq) (items @ [new_item j productID product itemReq]))
       (priced s userID i))"
| "rest_of s (Persisting req od) = persist_and_settle s od"
| "rest_of s (Charging od) = settle s od"
| "rest_of s (Charged od charged) =
     bindIO (log_charge s od charged) (\<lambda>_.
     bindIO (repo_UpdateStatus (svc_repo s) (order_ID od) (final_status charged)) (\<lambda>updateErr.
     bindIO (log_update s od updateErr) (\<lambda>_. ret (settled_result od charged))))"
| "rest_of s (Recording od charged) =
     bindIO (repo_UpdateStatus (svc_repo s) (order_ID od) (final_status charged)) (\<lambda>updateErr.
     bindIO (log_update s od updateErr) (\<lambda>_. ret (settled_result od charged)))"
| "rest_of s (Recorded od charged updateErr) = bindIO (log_update s od updateErr) (\<lambda>_. ret (settled_result od charged))"
| "rest_of s (Finished r) = (\<lambda>w. (r, w))"

lemma rest_of_refused [simp]: "rest_of s (refused e) w = (Ret (None, Some e), w)"
  by (simp add: refused_def)

lemma priced_Inr: "priced s userID i (Inr (cents, items)) = persist_and_settle s (new_order i userID cents items)"
  by (simp add: priced_def)

lemma place_order_priced:
  "place_order s req userID = bindIO (uuid_New_op (svc_uuid s)) (\<lambda>i. bindIO (price_items s (req_Items req) 0 []) (priced s userID i))"
  by (simp add: place_order_def priced_def [abs_def])

lemma settle_settled:
  "settle s od = bindIO (svc_payments s (charge_of s od)) (\<lambda>charged. rest_of s (Charged od charged))"
  by (simp add: settle_def settled_result_def)

text \<open>Making a call and going on with the rest is running the call and then the rest.\<close>

lemma making_rest:
  assumes "making m k w = (ph', w')" and "\<And>x w1. rest_of s (k x) w1 = f x w1"
  shows "bindIO m f w = rest_of s ph' w'"
  using assms by (auto simp: making_def bindIO_def split: prod.splits outcome.splits)

lemma advance_rest: "advance s ph w = (ph', w') \<Longrightarrow> rest_of s ph w = rest_of s ph' w'"
proof (cases "(s, ph)" rule: advance.cases)
  case (4 s1 req userID i cents items itemReq reqs)
  moreover assume "advance s ph w = (ph', w')"
  ultimately show ?thesis
    by (simp add: bindIO_assoc)
      (erule making_rest, auto simp: priced_def bindIO_assoc bindIO_ret split: sum.splits option.splits)
next
  case (3 s1 req userID i cents items)
  moreover assume "advance s ph w = (ph', w')"
  ultimately show ?thesis by (auto simp: bindIO_ret priced_Inr)
qed (auto simp: place_order_priced settle_settled bindIO_ret priced_Inr persist_and_settle_def settled_result_def [symmetric]
    elim!: making_rest split: option.splits sum.splits prod.splits)

lemma finish_rest: "finish s ph w = rest_of s ph w"
proof (induction ph w rule: finish_induct [where s = s])
  case (advance ph w ph' w')
  with finish_advance [OF advance(1,2)] advance_rest [OF advance(2)] show ?case by simp
qed simp

text \<open>An order that is started and run to its end, call by call, without interruption is \<open>CreateOrder\<close>, with the same result and the same
  final state.\<close>

lemma finish_begin: "finish s (begin_order s req) w = CreateOrder s req w"
  by (simp add: finish_rest begin_order_def CreateOrder_def refused_def split: option.split)

subsection \<open>With interruptions: a bound\<close>

lemma turns_bound: "calls_left ph \<le> length ws \<Longrightarrow> calls_left (fold (\<lambda>w ph. fst (advance s ph w)) ws ph) = 0"
proof (induction ws arbitrary: ph)
  case (Cons w ws)
  show ?case
  proof (cases "calls_left ph = 0")
    case True
    then obtain r where "ph = Finished r" by (auto simp: calls_left_0)
    with Cons.IH [of ph] show ?thesis by simp
  next
    case False
    with Cons advance_decreases [of ph s w] show ?thesis by simp
  qed
qed simp

text \<open>C15. A request to place an order needs at most \<open>2 n + 8\<close> turns for \<open>n\<close> lines, whatever state of the world it finds at each of them: other
  requests cannot keep it from ending.\<close>

theorem order_ends_in_bounded_turns:
  assumes "2 * length (req_Items req) + 8 \<le> length ws"
  shows "\<exists>r. fold (\<lambda>w ph. fst (advance s ph w)) ws (begin_order s req) = Finished r"
proof -
  have "calls_left (begin_order s req) \<le> length ws"
    using assms by (simp add: begin_order_def split: option.split)
  from turns_bound [OF this] show ?thesis by (simp add: calls_left_0)
qed

subsection \<open>A concrete request\<close>

text \<open>A service whose calls panic, but for the check of the user and the drawing of ids.\<close>

definition silent_service :: "unit order_service" where
  "silent_service = \<lparr>svc_repo = \<lparr>repo_Create = (\<lambda>od. panic ''down''), repo_GetByID = (\<lambda>i. panic ''down''),
     repo_ListByUser = (\<lambda>u. panic ''down''), repo_UpdateStatus = (\<lambda>i st. panic ''down'')\<rparr>,
     svc_users = (\<lambda>u. ret None), svc_products = (\<lambda>p. panic ''down''), svc_payments = (\<lambda>c. panic ''down''),
     svc_logger = (\<lambda>l m a. ret ()), svc_uuid = \<lparr>uuid_New_op = ret 7, uuid_Parse = (\<lambda>s. Some 1), uuid_String = (\<lambda>u. [])\<rparr>\<rparr>"

theorem order_ends_in_bounded_turns_witness:
  "\<exists>r. fold (\<lambda>w ph. fst (advance silent_service ph w)) (replicate 10 ())
     (begin_order silent_service \<lparr>req_UserID = ''1'', req_Items = [\<lparr>itemreq_ProductID = ''2'', itemreq_Quantity = 1\<rparr>]\<rparr>) = Finished r"
  by (rule order_ends_in_bounded_turns) simp

end
