(* ===== verification/Resilient_Client.thy ===== *)
theory Resilient_Client
  imports Go_World
begin

section \<open>The resilient HTTP client (\<open>internal/client/http_client.go\<close>)\<close>

text \<open>
  \<open>ResilientClient.Do\<close> with its retry loop. The request a caller's \<open>reqFn\<close> builds is the same for every
  attempt (the closures of the clients build it from the same method, URL, body and headers), so \<open>reqFn\<close> is the
  value it returns. The loop counter is a mathematical integer: it never exceeds \<open>retryAttempts + 1\<close>,
  which is what the code counts to unless \<open>retryAttempts\<close> is the largest \<open>int\<close>; then the \<open>int\<close> of the code wraps and its loop does not end.
\<close>

record resilient_client =
  rc_timeout :: duration
  rc_retryAttempts :: goint
  rc_retryBackoff :: duration
  rc_baseURL :: string
  rc_serviceName :: string

definition NewResilientClient ::
  "string \<Rightarrow> string \<Rightarrow> duration \<Rightarrow> goint \<Rightarrow> duration \<Rightarrow> resilient_client" where
  "NewResilientClient baseURL serviceName timeout retryAttempts retryBackoff =
     \<lparr>rc_timeout = timeout, rc_retryAttempts = retryAttempts, rc_retryBackoff = retryBackoff,
      rc_baseURL = baseURL, rc_serviceName = serviceName\<rparr>"

text \<open>The most requests one call of \<open>Do\<close> sends.\<close>

definition max_sends :: "resilient_client \<Rightarrow> nat" where
  "max_sends c = nat (sint (rc_retryAttempts c) + 1)"

definition classifyErr :: "go_error \<Rightarrow> go_error" where
  "classifyErr err =
     (if errors_as_timeout err = Some True
      then errorf_w (Sentinel Client_ErrDownstreamTimeout) ('': '' @ error_text err)
      else errorf_w (Sentinel Client_ErrDownstreamUnavailable) ('': '' @ error_text err))"

definition isRetryable :: "go_error \<Rightarrow> bool" where
  "isRetryable err \<longleftrightarrow>
     errors_is err Client_ErrDownstreamUnavailable \<or> errors_is err Client_ErrDownstreamTimeout"

text \<open>\<open>c.retryBackoff * time.Duration(1<<uint(attempt-1))\<close>: a 64-bit shift and a 64-bit product.\<close>

definition backoff_before :: "resilient_client \<Rightarrow> int \<Rightarrow> duration" where
  "backoff_before c attempt = rc_retryBackoff c * push_bit (nat (attempt - 1)) 1"

definition gateway_failure :: "goint \<Rightarrow> bool" where
  "gateway_failure st \<longleftrightarrow> st = 502 \<or> st = 503 \<or> st = 504"

definition gateway_error :: "resilient_client \<Rightarrow> goint \<Rightarrow> go_error" where
  "gateway_error c st = errorf_w (Sentinel Client_ErrDownstreamUnavailable)
     ('': status '' @ show_int (sint st) @ '' from '' @ rc_serviceName c)"

text \<open>One pass of the loop body: it returns from \<open>Do\<close>, or leaves the loop, or goes on with a new \<open>lastErr\<close>.\<close>

datatype pass =
    Return "http_response option" "go_error option"
  | Break go_error
  | Continue go_error

text \<open>From the request on (lines 64 to 87), when the wait of a retry is over.\<close>

definition send_attempt :: "env \<Rightarrow> resilient_client \<Rightarrow> go_error + http_request \<Rightarrow> (world, pass) io" where
  "send_attempt E c reqFn =
     (case reqFn of
        Inl err \<Rightarrow> ret (Return None (Some err))
      | Inr req \<Rightarrow> bindIO (http_Do E (rc_timeout c) req) (\<lambda>res. case res of
          Inl f \<Rightarrow>
            let lastErr = classifyErr (Foreign f)
            in if \<not> isRetryable lastErr then ret (Break lastErr) else ret (Continue lastErr)
        | Inr resp \<Rightarrow>
            if gateway_failure (rs_status resp)
            then bindIO (close_body resp) (\<lambda>_. ret (Continue (gateway_error c (rs_status resp))))
            else ret (Return (Some resp) None)))"

definition do_pass ::
  "env \<Rightarrow> resilient_client \<Rightarrow> string \<Rightarrow> string \<Rightarrow> go_error + http_request \<Rightarrow> int \<Rightarrow> (world, pass) io" where
  "do_pass E c method path reqFn attempt =
     (if 0 < attempt
      then bindIO (log_at LevelWarn ''retrying downstream call''
             [(''service'', LString (rc_serviceName c)), (''method'', LString method), (''path'', LString path),
              (''attempt'', LInt attempt), (''backoff'', LDuration (backoff_before c attempt))]) (\<lambda>_.
           bindIO (wait_or_done E (backoff_before c attempt)) (\<lambda>cancelled. case cancelled of
             Some f \<Rightarrow> ret (Return None (Some (Foreign f)))
           | None \<Rightarrow> send_attempt E c reqFn))
      else send_attempt E c reqFn)"

definition give_up ::
  "resilient_client \<Rightarrow> string \<Rightarrow> string \<Rightarrow> go_error option
    \<Rightarrow> (world, http_response option \<times> go_error option) io" where
  "give_up c method path lastErr =
     bindIO (log_at LevelError ''downstream call failed after retries''
       [(''service'', LString (rc_serviceName c)), (''method'', LString method), (''path'', LString path),
        (''error'', LError lastErr)]) (\<lambda>_. ret (None, lastErr))"

function do_loop ::
  "env \<Rightarrow> resilient_client \<Rightarrow> string \<Rightarrow> string \<Rightarrow> go_error + http_request \<Rightarrow> int \<Rightarrow> go_error option
    \<Rightarrow> (world, http_response option \<times> go_error option) io" where
  "do_loop E c method path reqFn attempt lastErr w =
     (if attempt \<le> sint (rc_retryAttempts c)
      then (case do_pass E c method path reqFn attempt w of
              (Panic p, w') \<Rightarrow> (Panic p, w')
            | (Ret (Return resp err), w') \<Rightarrow> (Ret (resp, err), w')
            | (Ret (Break err), w') \<Rightarrow> give_up c method path (Some err) w'
            | (Ret (Continue err), w') \<Rightarrow> do_loop E c method path reqFn (attempt + 1) (Some err) w')
      else give_up c method path lastErr w)"
  by pat_completeness auto
termination
  by (relation "measure (\<lambda>(E, c, m, p, rq, attempt, le, w). nat (sint (rc_retryAttempts c) + 1 - attempt))") auto

declare do_loop.simps [simp del]

definition rc_Do ::
  "env \<Rightarrow> resilient_client \<Rightarrow> string \<Rightarrow> string \<Rightarrow> go_error + http_request
    \<Rightarrow> (world, http_response option \<times> go_error option) io" where
  "rc_Do E c method path reqFn = do_loop E c method path reqFn 0 None"

subsection \<open>Classification\<close>

lemma errors_is_classifyErr:
  "errors_is (classifyErr e) s \<longleftrightarrow>
     s = (if errors_as_timeout e = Some True then Client_ErrDownstreamTimeout else Client_ErrDownstreamUnavailable)"
  by (auto simp: classifyErr_def)

lemma isRetryable_classifyErr [simp]: "isRetryable (classifyErr e)"
  by (simp add: isRetryable_def errors_is_classifyErr)

lemma isRetryable_gateway_error [simp]: "isRetryable (gateway_error c st)"
  by (simp add: isRetryable_def gateway_error_def)

subsection \<open>One pass\<close>

text \<open>
  What the \<open>n\<close>-th exchange means to the loop: \<open>Some\<close> the error it goes on with, or \<open>None\<close> for a response
  that \<open>Do\<close> returns.
\<close>

definition transient :: "env \<Rightarrow> resilient_client \<Rightarrow> http_request \<Rightarrow> nat \<Rightarrow> go_error option" where
  "transient E c rq n =
     (case e_net E n rq of
        Inl f \<Rightarrow> Some (classifyErr (Foreign f))
      | Inr (st, b) \<Rightarrow> if gateway_failure st then Some (gateway_error c st) else None)"

definition response_at :: "env \<Rightarrow> http_request \<Rightarrow> nat \<Rightarrow> http_response" where
  "response_at E rq n = (case e_net E n rq of
      Inr (st, b) \<Rightarrow> \<lparr>rs_exchange = n, rs_status = st, rs_body = b\<rparr>
    | Inl f \<Rightarrow> \<lparr>rs_exchange = n, rs_status = 0, rs_body = BadBody f\<rparr>)"

text \<open>The events of one exchange.\<close>

definition exchange_events :: "env \<Rightarrow> resilient_client \<Rightarrow> http_request \<Rightarrow> nat \<Rightarrow> event list" where
  "exchange_events E c rq n = EvRequest n (rc_timeout c) rq #
     (case e_net E n rq of
        Inl f \<Rightarrow> []
      | Inr (st, b) \<Rightarrow> if gateway_failure st then [EvAnswered n, EvClose n] else [EvAnswered n])"

lemma send_attempt_Inr:
  "send_attempt E c (Inr rq) w =
     (Ret (case transient E c rq (w_exchanges w) of
             Some err \<Rightarrow> Continue err
           | None \<Rightarrow> Return (Some (response_at E rq (w_exchanges w))) None),
      w\<lparr>w_exchanges := Suc (w_exchanges w),
        w_trace := w_trace w @ exchange_events E c rq (w_exchanges w)\<rparr>)"
  by (simp add: send_attempt_def bindIO_def http_Do_def close_body_def emit_def Let_def transient_def
      response_at_def exchange_events_def split: sum.splits prod.splits)

lemma send_attempt_Inl [simp]: "send_attempt E c (Inl err) w = (Ret (Return None (Some err)), w)"
  by (simp add: send_attempt_def)

lemma requests_of_exchange [simp]: "requests_of (exchange_events E c rq n) = [rq]"
  by (simp add: exchange_events_def split: sum.splits prod.splits)

lemma waits_of_exchange [simp]: "waits_of (exchange_events E c rq n) = []"
  by (simp add: exchange_events_def split: sum.splits prod.splits)

lemma open_after_exchange:
  "open_after S (exchange_events E c rq n) =
     (if transient E c rq n = None then insert n S
      else case e_net E n rq of Inl f \<Rightarrow> S | Inr p \<Rightarrow> S - {n})"
  by (auto simp: exchange_events_def transient_def split: sum.splits prod.splits)

text \<open>The state in which the \<open>attempt\<close>-th pass sends: the retry has been logged and waited for.\<close>

definition retry_events :: "resilient_client \<Rightarrow> string \<Rightarrow> string \<Rightarrow> int \<Rightarrow> event list" where
  "retry_events c method path attempt =
     [EvLog LevelWarn ''retrying downstream call''
        [(''service'', LString (rc_serviceName c)), (''method'', LString method), (''path'', LString path),
         (''attempt'', LInt attempt), (''backoff'', LDuration (backoff_before c attempt))],
      EvWait (backoff_before c attempt)]"

definition after_wait :: "resilient_client \<Rightarrow> string \<Rightarrow> string \<Rightarrow> int \<Rightarrow> world \<Rightarrow> world" where
  "after_wait c method path attempt w =
     (if 0 < attempt
      then w\<lparr>w_waits := Suc (w_waits w), w_trace := w_trace w @ retry_events c method path attempt\<rparr>
      else w)"

lemma do_pass_eq:
  "do_pass E c method path reqFn attempt w =
     (if 0 < attempt \<and> e_wait E (w_waits w) \<noteq> None
      then (Ret (Return None (map_option Foreign (e_wait E (w_waits w)))), after_wait c method path attempt w)
      else send_attempt E c reqFn (after_wait c method path attempt w))"
  by (auto simp: do_pass_def bindIO_def log_at_def emit_def wait_or_done_def after_wait_def retry_events_def)

lemma after_wait_fields [simp]:
  "w_exchanges (after_wait c m p a w) = w_exchanges w"
  "w_db (after_wait c m p a w) = w_db w"
  by (simp_all add: after_wait_def)

lemma retry_events_proj [simp]:
  "requests_of (retry_events c m p a) = []"
  "waits_of (retry_events c m p a) = [backoff_before c a]"
  "open_after S (retry_events c m p a) = S"
  "posts_of (retry_events c m p a) = []"
  by (simp_all add: retry_events_def)

lemma give_up_eq [simp]:
  "give_up c method path lastErr w =
     (Ret (None, lastErr),
      w\<lparr>w_trace := w_trace w @ [EvLog LevelError ''downstream call failed after retries''
        [(''service'', LString (rc_serviceName c)), (''method'', LString method), (''path'', LString path),
         (''error'', LError lastErr)]]\<rparr>)"
  by (simp add: give_up_def bindIO_def log_at_def emit_def)

subsection \<open>The loop as a relation\<close>

text \<open>
  The runs of the loop for a request that could be built, one rule per way a pass ends. Every property of the
  loop is an induction over it.
\<close>

definition sent :: "env \<Rightarrow> resilient_client \<Rightarrow> http_request \<Rightarrow> world \<Rightarrow> world" where
  "sent E c rq w = w\<lparr>w_exchanges := Suc (w_exchanges w),
     w_trace := w_trace w @ exchange_events E c rq (w_exchanges w)\<rparr>"

definition gave_up :: "resilient_client \<Rightarrow> string \<Rightarrow> string \<Rightarrow> go_error option \<Rightarrow> world \<Rightarrow> world" where
  "gave_up c m p le w = snd (give_up c m p le w)"

inductive retry_run ::
  "env \<Rightarrow> resilient_client \<Rightarrow> string \<Rightarrow> string \<Rightarrow> http_request \<Rightarrow> int \<Rightarrow> go_error option \<Rightarrow> world
    \<Rightarrow> http_response option \<times> go_error option \<Rightarrow> world \<Rightarrow> bool"
  for E c m p rq where
  exhausted: "sint (rc_retryAttempts c) < a \<Longrightarrow>
     retry_run E c m p rq a le w (None, le) (gave_up c m p le w)"
| cancelled: "a \<le> sint (rc_retryAttempts c) \<Longrightarrow> 0 < a \<Longrightarrow> e_wait E (w_waits w) = Some f \<Longrightarrow>
     retry_run E c m p rq a le w (None, Some (Foreign f)) (after_wait c m p a w)"
| answered: "a \<le> sint (rc_retryAttempts c) \<Longrightarrow> a \<le> 0 \<or> e_wait E (w_waits w) = None \<Longrightarrow>
     transient E c rq (w_exchanges w) = None \<Longrightarrow>
     retry_run E c m p rq a le w (Some (response_at E rq (w_exchanges w)), None)
       (sent E c rq (after_wait c m p a w))"
| retried: "a \<le> sint (rc_retryAttempts c) \<Longrightarrow> a \<le> 0 \<or> e_wait E (w_waits w) = None \<Longrightarrow>
     transient E c rq (w_exchanges w) = Some e \<Longrightarrow>
     retry_run E c m p rq (a + 1) (Some e) (sent E c rq (after_wait c m p a w)) res w' \<Longrightarrow>
     retry_run E c m p rq a le w res w'"

lemma do_loop_Inr:
  "do_loop E c m p (Inr rq) a le w =
     (if a \<le> sint (rc_retryAttempts c)
      then if 0 < a \<and> e_wait E (w_waits w) \<noteq> None
           then (Ret (None, map_option Foreign (e_wait E (w_waits w))), after_wait c m p a w)
           else case transient E c rq (w_exchanges w) of
               None \<Rightarrow> (Ret (Some (response_at E rq (w_exchanges w)), None), sent E c rq (after_wait c m p a w))
             | Some e \<Rightarrow> do_loop E c m p (Inr rq) (a + 1) (Some e) (sent E c rq (after_wait c m p a w))
      else (Ret (None, le), gave_up c m p le w))"
  by (subst do_loop.simps)
    (cases "e_wait E (w_waits w)"; cases "transient E c rq (w_exchanges w)";
      simp add: do_pass_eq send_attempt_Inr sent_def gave_up_def)

lemma do_loop_retry_run:
  "\<exists>res w'. do_loop E c m p (Inr rq) a le w = (Ret res, w') \<and> retry_run E c m p rq a le w res w'"
proof (induction "nat (sint (rc_retryAttempts c) + 1 - a)" arbitrary: a le w)
  case 0
  then show ?case by (auto simp: do_loop_Inr intro: retry_run.intros)
next
  case (Suc n)
  then have a: "a \<le> sint (rc_retryAttempts c)" by simp
  from Suc have "n = nat (sint (rc_retryAttempts c) + 1 - (a + 1))" by simp
  note IH = Suc.hyps(1) [OF this]
  show ?case
  proof (cases "transient E c rq (w_exchanges w)")
    case None
    then show ?thesis using a by (fastforce simp: do_loop_Inr intro: retry_run.intros)
  next
    case (Some e)
    with a IH [of "Some e" "sent E c rq (after_wait c m p a w)"] show ?thesis
      by (fastforce simp: do_loop_Inr [of _ _ _ _ _ a] intro: retry_run.intros)
  qed
qed

text \<open>
  The client never panics and always returns. \<open>rc_Do_E\<close> opens a call: the request could not be built, and nothing
  was sent, or the result is that of a run.
\<close>

lemma rc_Do_Inl:
  "rc_Do E c m p (Inl err) w =
     (if 0 \<le> sint (rc_retryAttempts c) then (Ret (None, Some err), w) else (Ret (None, None), gave_up c m p None w))"
  by (simp add: rc_Do_def do_loop.simps [of _ _ _ _ _ 0] do_pass_eq after_wait_def gave_up_def)

lemma rc_Do_E:
  assumes "rc_Do E c m p reqFn w = (r, w')"
  obtains (Unbuilt) err where "reqFn = Inl err" and "0 \<le> sint (rc_retryAttempts c)"
      and "r = Ret (None, Some err)" and "w' = w"
    | (Never) "sint (rc_retryAttempts c) < 0" and "r = Ret (None, None)" and "w' = gave_up c m p None w"
    | (Run) rq res where "reqFn = Inr rq" and "0 \<le> sint (rc_retryAttempts c)" and "r = Ret res"
      and "retry_run E c m p rq 0 None w res w'"
proof (cases reqFn)
  case (Inl err)
  with assms show thesis using Unbuilt Never by (auto simp: rc_Do_Inl split: if_splits)
next
  case (Inr rq)
  show thesis
  proof (cases "0 \<le> sint (rc_retryAttempts c)")
    case True
    with Inr assms do_loop_retry_run [of E c m p rq 0 None w] show thesis
      using Run by (auto simp: rc_Do_def)
  next
    case False
    with Inr assms show thesis using Never by (simp add: rc_Do_def do_loop_Inr)
  qed
qed

subsection \<open>What a run does to the world\<close>

text \<open>A call of a downstream service only counts exchanges and waits and extends the trace.\<close>

definition downstream_only :: "world \<Rightarrow> world \<Rightarrow> bool" where
  "downstream_only w w' \<longleftrightarrow>
     w_db w' = w_db w \<and> w_execs w' = w_execs w \<and> w_queries w' = w_queries w \<and> w_uuids w' = w_uuids w
     \<and> w_nows w' = w_nows w \<and> w_exchanges w \<le> w_exchanges w' \<and> prefix (w_trace w) (w_trace w')"

lemma downstream_only_refl [simp]: "downstream_only w w"
  by (simp add: downstream_only_def)

lemma downstream_only_trans [trans]:
  "downstream_only w w1 \<Longrightarrow> downstream_only w1 w2 \<Longrightarrow> downstream_only w w2"
  by (auto simp: downstream_only_def intro: prefix_order.trans)

lemma downstream_only_after_wait: "downstream_only w (after_wait c m p a w)"
  by (simp add: downstream_only_def after_wait_def)

lemma downstream_only_sent: "downstream_only w (sent E c rq w)"
  by (simp add: downstream_only_def sent_def)

lemma downstream_only_gave_up: "downstream_only w (gave_up c m p le w)"
  by (simp add: downstream_only_def gave_up_def)

lemma downstream_only_frame [frame_simps]:
  assumes "downstream_only w w'"
  shows "w_db w' = w_db w" and "w_execs w' = w_execs w" and "w_queries w' = w_queries w"
    and "w_uuids w' = w_uuids w" and "w_nows w' = w_nows w"
  using assms by (auto simp: downstream_only_def)

lemma retry_run_downstream_only: "retry_run E c m p rq a le w res w' \<Longrightarrow> downstream_only w w'"
  by (induction rule: retry_run.induct)
    (blast intro: downstream_only_gave_up downstream_only_after_wait downstream_only_sent
      downstream_only_trans)+

lemma rc_Do_downstream_only: "rc_Do E c m p reqFn w = (r, w') \<Longrightarrow> downstream_only w w'"
  by (erule rc_Do_E) (auto intro: retry_run_downstream_only downstream_only_gave_up)

subsection \<open>Requests and waits\<close>

lemma retry_run_discipline:
  assumes "retry_run E c m p rq a le w res w'" and "0 \<le> a"
  shows "\<exists>es k j. w_trace w' = w_trace w @ es \<and> requests_of es = replicate k rq
     \<and> waits_of es = map (backoff_before c) [max 1 a .. a + int j - 1]
     \<and> k \<le> j \<and> j \<le> Suc k \<and> int j \<le> max 0 (sint (rc_retryAttempts c) + 1 - a)
     \<and> (0 < j \<longleftrightarrow> a \<le> sint (rc_retryAttempts c)) \<and> (a = 0 \<longrightarrow> 0 < j \<longrightarrow> 0 < k)"
  using assms
proof (induction rule: retry_run.induct)
  case (exhausted a le w)
  then show ?case by (intro exI [of _ "[_]"] exI [of _ 0]) (auto simp: gave_up_def)
next
  case (cancelled a w f le)
  then show ?case
    by (intro exI [of _ "retry_events c m p a"] exI [of _ 0] exI [of _ 1]) (auto simp: after_wait_def)
next
  case (answered a w le)
  then show ?case
    by (intro exI [of _ "(if 0 < a then retry_events c m p a else []) @ exchange_events E c rq (w_exchanges w)"]
        exI [of _ 1]) (auto simp: after_wait_def sent_def)
next
  case (retried a w e res w' le)
  then obtain es k j where IH: "w_trace w' = w_trace (sent E c rq (after_wait c m p a w)) @ es"
      "requests_of es = replicate k rq" "waits_of es = map (backoff_before c) [a + 1 .. a + int j]"
      "k \<le> j" "j \<le> Suc k" "int j \<le> max 0 (sint (rc_retryAttempts c) + 1 - (a + 1))"
    by (auto simp: algebra_simps)
  let ?es = "(if 0 < a then retry_events c m p a else []) @ exchange_events E c rq (w_exchanges w) @ es"
  have "[max 1 a .. a + int j] = (if 0 < a then [a] else []) @ [a + 1 .. a + int j]"
    using \<open>0 \<le> a\<close> by (auto simp: upto.simps [of a])
  with IH retried.hyps(1) retried.prems show ?case
    by (intro exI [of _ ?es] exI [of _ "Suc k"] exI [of _ "Suc j"]) (auto simp: after_wait_def sent_def)
qed

text \<open>The waits, counted from 0: the \<open>i\<close>-th is \<open>retryBackoff * 2^i\<close>, modulo 2^64.\<close>

lemma map_backoffs:
  "map (backoff_before c) [1 .. int j - 1] = map (\<lambda>i. word_of_int (sint (rc_retryBackoff c) * 2 ^ i)) [0..<j - 1]"
proof (induction j)
  case (Suc j)
  show ?case
  proof (cases j)
    case (Suc m)
    have "[1..int (Suc j) - 1] = [1..int j - 1] @ [int j]" using Suc by (simp add: upto_rec2)
    with Suc.IH Suc show ?thesis by (simp add: backoff_before_def push_bit_eq_mult)
  qed simp
qed simp

text \<open>C27. The retry discipline of \<open>ResilientClient.Do\<close>, whatever the network and the caller's context do: every
  request of a call is the one the caller built, there are at most \<open>retryAttempts + 1\<close> of them, at least one is
  sent unless \<open>retryAttempts\<close> is negative, and the waits between them are \<open>retryBackoff\<close>, then twice, four times, eight times
  that and so on (modulo 2^64), one before each resend (and one more when the context ends during it).\<close>

theorem rc_Do_retry_discipline:
  "\<exists>es k j. w_trace (snd (rc_Do E c m p (Inr rq) w)) = w_trace w @ es \<and> requests_of es = replicate k rq
     \<and> waits_of es = map (\<lambda>i. word_of_int (sint (rc_retryBackoff c) * 2 ^ i)) [0..<j - 1] \<and> k \<le> j \<and> j \<le> Suc k
     \<and> int k \<le> max 0 (sint (rc_retryAttempts c) + 1) \<and> (0 < k \<longleftrightarrow> 0 \<le> sint (rc_retryAttempts c))"
proof -
  obtain r w' where call: "rc_Do E c m p (Inr rq) w = (r, w')" by fastforce
  from call have "\<exists>es k j. w_trace w' = w_trace w @ es \<and> requests_of es = replicate k rq
     \<and> waits_of es = map (backoff_before c) [1 .. int j - 1] \<and> k \<le> j \<and> j \<le> Suc k
     \<and> int k \<le> max 0 (sint (rc_retryAttempts c) + 1) \<and> (0 < k \<longleftrightarrow> 0 \<le> sint (rc_retryAttempts c))"
  proof (cases rule: rc_Do_E)
    case Never
    then show ?thesis by (intro exI [of _ "[_]"] exI [of _ 0]) (auto simp: gave_up_def)
  next
    case (Run rq' res)
    from retry_run_discipline [OF Run(4)] Run(1,2) obtain es k j
      where "w_trace w' = w_trace w @ es" "requests_of es = replicate k rq"
        "waits_of es = map (backoff_before c) [1 .. int j - 1]" "k \<le> j" "j \<le> Suc k"
        "int j \<le> max 0 (sint (rc_retryAttempts c) + 1)" "0 < j" "0 < j \<longrightarrow> 0 < k"
      by auto
    then show ?thesis using Run(2) by (intro exI [of _ es] exI [of _ k] exI [of _ j]) auto
  qed auto
  with call show ?thesis unfolding map_backoffs by simp
qed

text \<open>The wait before attempt \<open>i\<close> is \<open>retryBackoff * 2^(i-1)\<close> as long as that product fits a
  \<open>time.Duration\<close>; the shift and the product wrap beyond.\<close>

lemma backoff_doubles:
  assumes "1 \<le> i" and "0 \<le> sint (rc_retryBackoff c)"
    and "sint (rc_retryBackoff c) * 2 ^ nat (i - 1) \<le> int64_max"
  shows "sint (backoff_before c i) = sint (rc_retryBackoff c) * 2 ^ nat (i - 1)"
proof -
  have "backoff_before c i = word_of_int (sint (rc_retryBackoff c) * 2 ^ nat (i - 1))"
    by (simp add: backoff_before_def push_bit_eq_mult)
  moreover have "in_int64 (sint (rc_retryBackoff c) * 2 ^ nat (i - 1))"
    using assms(2,3) by (simp add: in_int64_def) (smt (verit) zero_le_mult_iff zero_le_power)
  ultimately show ?thesis by (metis sint_word_of_int64)
qed

definition example_client :: resilient_client where
  "example_client = NewResilientClient ''http://localhost:8083'' ''payment-service'' 3000000000 2 200000000"

subsection \<open>Results\<close>

text \<open>What comes back is decided by the last exchange: its response, unless it was a transient failure.\<close>

lemma retry_run_last:
  assumes "retry_run E c m p rq a le w res w'" and "0 < a \<Longrightarrow> transient E c rq (w_exchanges w - 1) \<noteq> None"
    and "0 < a \<or> a \<le> sint (rc_retryAttempts c)" and "0 \<le> a"
  shows "fst res = (if transient E c rq (w_exchanges w' - 1) = None then Some (response_at E rq (w_exchanges w' - 1)) else None)"
  using assms
proof (induction rule: retry_run.induct)
  case (retried a w e res w' le)
  then show ?case by (simp add: sent_def)
qed (auto simp: gave_up_def sent_def)

text \<open>A response that \<open>Do\<close> may return for exchange \<open>n\<close>, and an error it may return.\<close>

definition returned_response :: "env \<Rightarrow> http_request \<Rightarrow> http_response \<Rightarrow> bool" where
  "returned_response E rq resp \<longleftrightarrow>
     e_net E (rs_exchange resp) rq = Inr (rs_status resp, rs_body resp) \<and> \<not> gateway_failure (rs_status resp)"

lemma transient_None_response:
  "transient E c rq n = None \<Longrightarrow> returned_response E rq (response_at E rq n) \<and> rs_exchange (response_at E rq n) = n"
  by (auto simp: transient_def response_at_def returned_response_def split: sum.splits prod.splits if_splits)

lemma transient_Some_retryable: "transient E c rq n = Some e \<Longrightarrow> isRetryable e"
  by (auto simp: transient_def split: sum.splits prod.splits if_splits)

lemma retry_run_result:
  assumes "retry_run E c m p rq a le w res w'" and "\<And>e. le = Some e \<Longrightarrow> isRetryable e"
    and "a \<le> sint (rc_retryAttempts c) \<or> le \<noteq> None"
  shows "(\<exists>resp. res = (Some resp, None) \<and> returned_response E rq resp
            \<and> w_exchanges w \<le> rs_exchange resp \<and> rs_exchange resp < w_exchanges w')
    \<or> (\<exists>err. res = (None, Some err) \<and> (isRetryable err \<or> (\<exists>k f. e_wait E k = Some f \<and> err = Foreign f)))"
  using assms
proof (induction rule: retry_run.induct)
  case (retried a w e res w' le)
  then have "isRetryable e" by (blast dest: transient_Some_retryable)
  with retried show ?case by (simp add: sent_def) (metis Suc_leD)
qed (auto simp: sent_def dest: transient_None_response)

text \<open>With a retry count that is not negative, \<open>Do\<close> returns a response or an error and never both or neither.
  The response is what the network answered to the caller's request in one exchange of this call, with a status other than
  502, 503 and 504. The error is the caller's own failure to build the request, the end of the context during a wait,
  or wraps one of the two retryable sentinels.\<close>

lemma rc_Do_result:
  assumes "0 \<le> sint (rc_retryAttempts c)" and "rc_Do E c m p reqFn w = (r, w')"
  shows "(\<exists>resp rq. r = Ret (Some resp, None) \<and> reqFn = Inr rq \<and> returned_response E rq resp
            \<and> w_exchanges w \<le> rs_exchange resp \<and> rs_exchange resp < w_exchanges w')
    \<or> (\<exists>err. r = Ret (None, Some err)
          \<and> (reqFn = Inl err \<or> isRetryable err \<or> (\<exists>k f. e_wait E k = Some f \<and> err = Foreign f)))"
  using assms(2)
proof (cases rule: rc_Do_E)
  case (Run rq res)
  from retry_run_result [OF Run(4)] Run show ?thesis by auto
qed (use assms(1) in auto)

text \<open>With a negative retry count, which nothing in the configuration excludes, the loop body never runs: nothing is
  sent and \<open>Do\<close> returns neither a response nor an error.\<close>

lemma rc_Do_negative_attempts:
  assumes "sint (rc_retryAttempts c) < 0"
  shows "fst (rc_Do E c m p reqFn w) = Ret (None, None) \<and> w_exchanges (snd (rc_Do E c m p reqFn w)) = w_exchanges w"
  using assms by (cases reqFn) (simp_all add: rc_Do_def do_loop.simps [of _ _ _ _ _ 0] gave_up_def)

subsection \<open>The reference behaviour\<close>

text \<open>
  Without a cancellation, \<open>Do\<close> is a search: among the next \<open>retryAttempts + 1\<close> exchanges the first that is not a
  transient failure is returned, else the last failure.
\<close>

definition Do_spec :: "env \<Rightarrow> resilient_client \<Rightarrow> http_request \<Rightarrow> nat \<Rightarrow> http_response option \<times> go_error option" where
  "Do_spec E c rq n =
     (let tries = Suc (nat (sint (rc_retryAttempts c)))
      in case find (\<lambda>i. transient E c rq i = None) [n..<n + tries] of
           Some i \<Rightarrow> (Some (response_at E rq i), None)
         | None \<Rightarrow> (None, transient E c rq (n + tries - 1)))"

lemma retry_run_search:
  assumes "retry_run E c m p rq a le w res w'" and "\<forall>k. e_wait E k = None"
    and "a \<le> sint (rc_retryAttempts c) + 1"
    and "N = w_exchanges w + nat (sint (rc_retryAttempts c) + 1 - a)"
  shows "(case find (\<lambda>i. transient E c rq i = None) [w_exchanges w..<N] of
      Some i \<Rightarrow> res = (Some (response_at E rq i), None) \<and> w_exchanges w' = Suc i
    | None \<Rightarrow> res = (None, if N = w_exchanges w then le else transient E c rq (N - 1)) \<and> w_exchanges w' = N)"
  using assms
proof (induction rule: retry_run.induct)
  case (answered a w le)
  then have "w_exchanges w < N" by simp
  with answered show ?case by (simp add: upt_conv_Cons sent_def)
next
  case (retried a w e res w' le)
  let ?w1 = "sent E c rq (after_wait c m p a w)"
  have w1: "w_exchanges ?w1 = Suc (w_exchanges w)" by (simp add: sent_def)
  from retried.prems retried.hyps(1) have less: "w_exchanges w < N"
    and N: "N = w_exchanges ?w1 + nat (sint (rc_retryAttempts c) + 1 - (a + 1))"
    by (simp_all add: sent_def)
  have IH: "case find (\<lambda>i. transient E c rq i = None) [Suc (w_exchanges w)..<N] of
      Some i \<Rightarrow> res = (Some (response_at E rq i), None) \<and> w_exchanges w' = Suc i
    | None \<Rightarrow> res = (None, if N = Suc (w_exchanges w) then Some e else transient E c rq (N - 1))
        \<and> w_exchanges w' = N"
    using retried.IH [OF retried.prems(1) _ N] retried.hyps(1) unfolding w1 by simp
  have "find (\<lambda>i. transient E c rq i = None) [w_exchanges w..<N] =
      find (\<lambda>i. transient E c rq i = None) [Suc (w_exchanges w)..<N]"
    using retried.hyps(3) by (simp add: upt_conv_Cons [OF less])
  with IH less retried.hyps(3) show ?case by (auto split: option.splits if_splits)
qed (auto simp: gave_up_def)

text \<open>C26. Equivalence with the reference search: with a retry count that is not negative and a context that does not
  end during a wait, \<open>Do\<close> returns the first exchange of the next \<open>retryAttempts + 1\<close> that is neither a network error
  nor a 502, 503 or 504, and otherwise the classified error of the last one.\<close>

theorem rc_Do_reference:
  assumes "0 \<le> sint (rc_retryAttempts c)" and "\<forall>k. e_wait E k = None"
  shows "fst (rc_Do E c m p (Inr rq) w) = Ret (Do_spec E c rq (w_exchanges w))"
proof -
  obtain r w' where call: "rc_Do E c m p (Inr rq) w = (r, w')" by fastforce
  from call assms(1) obtain res where r: "r = Ret res" and run: "retry_run E c m p rq 0 None w res w'"
    by (auto elim: rc_Do_E)
  have "nat (sint (rc_retryAttempts c) + 1) = Suc (nat (sint (rc_retryAttempts c)))"
    using assms(1) by simp
  with retry_run_search [OF run assms(2) _ refl] assms(1)
  have "res = Do_spec E c rq (w_exchanges w)"
    by (simp add: Do_spec_def split: option.splits)
  with call r show ?thesis by simp
qed

subsection \<open>Response bodies\<close>

lemma retry_run_bodies:
  assumes "retry_run E c m p rq a le w res w'" and "open_bodies w = {}"
  shows "open_bodies w' = (case fst res of Some resp \<Rightarrow> {rs_exchange resp} | None \<Rightarrow> {})"
  using assms
proof (induction rule: retry_run.induct)
  case (answered a w le)
  then show ?case
    using transient_None_response [OF answered.hyps(3)]
    by (simp add: sent_def after_wait_def open_after_exchange)
next
  case (retried a w e res w' le)
  then have "open_bodies (sent E c rq (after_wait c m p a w)) = {}"
    by (simp add: sent_def after_wait_def open_after_exchange split: sum.splits)
  then show ?case by (rule retried.IH)
qed (simp_all add: gave_up_def after_wait_def)

text \<open>\<open>Do\<close> leaks no response body: it closes the body of every gateway failure it retries, and leaves exactly the
  body of the response it returns for the caller to close.\<close>

lemma rc_Do_bodies:
  assumes "open_bodies w = {}" and "rc_Do E c m p reqFn w = (Ret (resp, err), w')"
  shows "open_bodies w' = (case resp of Some x \<Rightarrow> {rs_exchange x} | None \<Rightarrow> {})"
  using assms(2)
proof (cases rule: rc_Do_E)
  case (Run rq res)
  then show ?thesis using retry_run_bodies [OF Run(4) assms(1)] by (cases res) simp
qed (use assms(1) in \<open>auto simp: gave_up_def\<close>)

subsection \<open>Concrete calls\<close>

lemmas concrete_call_simps = rc_Do_def do_loop_Inr transient_def response_at_def returned_response_def sent_def
  after_wait_def exchange_events_def retry_events_def gateway_failure_def gateway_error_def
  calm_env_def flaky_env_def example_client_def NewResilientClient_def start_world_def

theorem rc_Do_reference_witness:
  "fst (rc_Do flaky_env example_client ''GET'' ''/'' (Inr example_request) (start_world empty_db))
     = Ret (Some \<lparr>rs_exchange = 1, rs_status = 200, rs_body = JsonBody JNull\<rparr>, None)"
  using rc_Do_reference [of example_client flaky_env "''GET''" "''/''" example_request "start_world empty_db"]
  by (simp add: Do_spec_def upt_rec concrete_call_simps)

end
