(* ===== verification/Service_Clients.thy ===== *)
theory Service_Clients
  imports Resilient_Client Service_Interfaces
begin

section \<open>The clients of the sibling services (\<open>internal/client\<close>)\<close>

text \<open>
  \<open>UserClient\<close>, \<open>ProductClient\<close> and \<open>PaymentClient\<close>: the request each builds, the statuses it accepts, the
  decoding of the body. Each is a call of \<open>ResilientClient.Do\<close> whose error is handed on, whose response is read and
  whose body is closed on return; a response that is missing without an error is a nil dereference. The last section
  interprets the interface contracts on the three clients.
\<close>

definition nil_dereference :: string where
  "nil_dereference = ''runtime error: invalid memory address or nil pointer dereference''"

text \<open>
  \<open>if err != nil { return err }\<close>, then \<open>defer resp.Body.Close()\<close>, then a result that depends on the response.
\<close>

definition handle_response ::
  "(http_response \<Rightarrow> 'a) \<Rightarrow> (go_error \<Rightarrow> 'a) \<Rightarrow> http_response option \<times> go_error option \<Rightarrow> (world, 'a) io" where
  "handle_response on_response on_error = (\<lambda>(resp, err).
     case err of
       Some e \<Rightarrow> ret (on_error e)
     | None \<Rightarrow> (case resp of
           None \<Rightarrow> panic nil_dereference
         | Some rp \<Rightarrow> bindIO (close_body rp) (\<lambda>_. ret (on_response rp))))"

definition get_request :: "string \<Rightarrow> http_request" where
  "get_request url = \<lparr>rq_method = ''GET'', rq_url = url, rq_headers = [], rq_body = None\<rparr>"

subsection \<open>\<open>user_client.go\<close>\<close>

definition user_url :: "resilient_client \<Rightarrow> string \<Rightarrow> string" where
  "user_url c userID = rc_baseURL c @ ''/api/v1/users/'' @ userID"

definition verify_status :: "http_response \<Rightarrow> go_error option" where
  "verify_status resp =
     (if rs_status resp = 200 then None
      else if rs_status resp = 404 then Some (Sentinel Client_ErrUserNotFound)
      else Some (Errorf (''user-service returned unexpected status '' @ show_int (sint (rs_status resp)))))"

definition VerifyUserExists :: "env \<Rightarrow> resilient_client \<Rightarrow> string \<Rightarrow> (world, go_error option) io" where
  "VerifyUserExists E c userID =
     bindIO (rc_Do E c ''GET'' (user_url c userID) (http_NewRequest E (get_request (user_url c userID))))
       (handle_response verify_status Some)"

subsection \<open>\<open>product_client.go\<close>\<close>

definition product_fields :: "product_info field list" where
  "product_fields =
     [StringField ''id'' (\<lambda>v r. r\<lparr>product_ID := v\<rparr>), StringField ''sku'' (\<lambda>v r. r\<lparr>product_SKU := v\<rparr>),
      StringField ''name'' (\<lambda>v r. r\<lparr>product_Name := v\<rparr>), IntField ''price_cents'' (\<lambda>v r. r\<lparr>product_PriceCents := v\<rparr>),
      IntField ''stock_quantity'' (\<lambda>v r. r\<lparr>product_StockQuantity := v\<rparr>),
      BoolField ''is_active'' (\<lambda>v r. r\<lparr>product_IsActive := v\<rparr>)]"

definition zero_product :: product_info where
  "zero_product = \<lparr>product_ID = [], product_SKU = [], product_Name = [], product_PriceCents = 0,
     product_StockQuantity = 0, product_IsActive = False\<rparr>"

definition product_url :: "resilient_client \<Rightarrow> string \<Rightarrow> string" where
  "product_url c productID = rc_baseURL c @ ''/api/v1/products/'' @ productID"

definition read_product :: "http_response \<Rightarrow> go_error + product_info" where
  "read_product resp =
     (if rs_status resp = 404 then Inl (Sentinel Client_ErrProductNotFound)
      else if rs_status resp \<noteq> 200
      then Inl (Errorf (''product-service returned unexpected status '' @ show_int (sint (rs_status resp))))
      else case decode_body ''client'' ''ProductInfo'' product_fields zero_product (rs_body resp) of
          Inl f \<Rightarrow> Inl (Wrapped (''decoding product-service response: '' @ foreign_text f) (Foreign f))
        | Inr info \<Rightarrow> Inr info)"

definition GetProduct :: "env \<Rightarrow> resilient_client \<Rightarrow> string \<Rightarrow> (world, go_error + product_info) io" where
  "GetProduct E c productID =
     bindIO (rc_Do E c ''GET'' (product_url c productID) (http_NewRequest E (get_request (product_url c productID))))
       (handle_response read_product Inl)"

subsection \<open>\<open>payment_client.go\<close>\<close>

definition charge_json :: "charge_request \<Rightarrow> json" where
  "charge_json cr = JObject
     [(''orderId'', JString (charge_OrderID cr)), (''userId'', JString (charge_UserID cr)),
      (''amountCents'', json_int (charge_AmountCents cr)), (''currency'', JString (charge_Currency cr))]"

definition payment_url :: "resilient_client \<Rightarrow> string" where
  "payment_url c = rc_baseURL c @ ''/api/v1/payments''"

definition charge_post :: "resilient_client \<Rightarrow> charge_request \<Rightarrow> http_request" where
  "charge_post c cr =
     \<lparr>rq_method = ''POST'', rq_url = payment_url c,
      rq_headers = [(''Content-Type'', ''application/json''), (''Idempotency-Key'', charge_OrderID cr)],
      rq_body = Some (charge_json cr)\<rparr>"

definition result_fields :: "charge_result field list" where
  "result_fields =
     [StringField ''transactionId'' (\<lambda>v r. r\<lparr>result_TransactionID := v\<rparr>),
      StringField ''status'' (\<lambda>v r. r\<lparr>result_Status := v\<rparr>), StringField ''reason'' (\<lambda>v r. r\<lparr>result_Reason := v\<rparr>)]"

definition zero_result :: charge_result where
  "zero_result = \<lparr>result_TransactionID = [], result_Status = [], result_Reason = []\<rparr>"

definition read_charge :: "http_response \<Rightarrow> go_error + charge_result" where
  "read_charge resp =
     (if rs_status resp \<noteq> 200 \<and> rs_status resp \<noteq> 201 \<and> rs_status resp \<noteq> 402
      then Inl (Errorf (''payment-service returned unexpected status '' @ show_int (sint (rs_status resp))))
      else case decode_body ''client'' ''ChargeResult'' result_fields zero_result (rs_body resp) of
          Inl f \<Rightarrow> Inl (Wrapped (''decoding payment-service response: '' @ foreign_text f) (Foreign f))
        | Inr result \<Rightarrow> Inr result)"

definition Charge :: "env \<Rightarrow> resilient_client \<Rightarrow> charge_request \<Rightarrow> (world, go_error + charge_result) io" where
  "Charge E c req =
     bindIO (rc_Do E c ''POST'' (payment_url c) (http_NewRequest E (charge_post c req)))
       (handle_response read_charge Inl)"

text \<open>The constructors: a client is a struct with one field, and the order service knows it by its one method.\<close>

definition NewUserClient :: "env \<Rightarrow> resilient_client \<Rightarrow> world user_verifier" where
  "NewUserClient E rc = VerifyUserExists E rc"

definition NewProductClient :: "env \<Rightarrow> resilient_client \<Rightarrow> world product_fetcher" where
  "NewProductClient E rc = GetProduct E rc"

definition NewPaymentClient :: "env \<Rightarrow> resilient_client \<Rightarrow> world payment_charger" where
  "NewPaymentClient E rc = Charge E rc"

subsection \<open>One downstream call\<close>

definition downstream_call ::
  "env \<Rightarrow> resilient_client \<Rightarrow> string \<Rightarrow> string \<Rightarrow> http_request \<Rightarrow> (http_response \<Rightarrow> 'a) \<Rightarrow> (go_error \<Rightarrow> 'a)
    \<Rightarrow> (world, 'a) io" where
  "downstream_call E c m p rq f g = bindIO (rc_Do E c m p (http_NewRequest E rq)) (handle_response f g)"

lemma client_calls:
  "VerifyUserExists E c u = downstream_call E c ''GET'' (user_url c u) (get_request (user_url c u)) verify_status Some"
  "GetProduct E c pid = downstream_call E c ''GET'' (product_url c pid) (get_request (product_url c pid)) read_product Inl"
  "Charge E c cr = downstream_call E c ''POST'' (payment_url c) (charge_post c cr) read_charge Inl"
  by (simp_all add: VerifyUserExists_def GetProduct_def Charge_def downstream_call_def)

text \<open>How a call can end. The three cases are exhaustive: a response read, an error, and, with a negative retry count, a panic.\<close>

lemma downstream_call_E:
  assumes "downstream_call E c m p rq f g w = (r, w')"
  obtains (Response) resp w1 where "rc_Do E c m p (http_NewRequest E rq) w = (Ret (Some resp, None), w1)"
      and "r = Ret (f resp)" and "returned_response E rq resp" and "w' = w1\<lparr>w_trace := w_trace w1 @ [EvClose (rs_exchange resp)]\<rparr>"
    | (Error) err where "rc_Do E c m p (http_NewRequest E rq) w = (Ret (None, Some err), w')" and "r = Ret (g err)"
      and "\<And>s. errors_is err s \<Longrightarrow> s = Client_ErrDownstreamUnavailable \<or> s = Client_ErrDownstreamTimeout"
    | (Nil) "rc_Do E c m p (http_NewRequest E rq) w = (Ret (None, None), w')" and "r = Panic nil_dereference"
      and "sint (rc_retryAttempts c) < 0"
proof -
  obtain r1 w1 where call: "rc_Do E c m p (http_NewRequest E rq) w = (r1, w1)" by fastforce
  note defs = downstream_call_def bindIO_def handle_response_def close_body_def emit_def
  from call show thesis
  proof (cases rule: rc_Do_E)
    case (Unbuilt err)
    with assms call show thesis
      by (intro Error [of err]) (auto simp: defs http_NewRequest_def split: option.splits)
  next
    case Never
    with assms call show thesis by (intro Nil) (auto simp: defs)
  next
    case (Run rq' res)
    have "(\<exists>resp. res = (Some resp, None) \<and> returned_response E rq resp) \<or>
        (\<exists>err. res = (None, Some err) \<and> (isRetryable err \<or> (\<exists>f. err = Foreign f)))"
      using retry_run_result [OF Run(4)] Run(1,2) by (auto simp: http_NewRequest_def split: option.splits)
    then show thesis
    proof (elim disjE exE conjE)
      fix resp assume "res = (Some resp, None)" "returned_response E rq resp"
      with assms call Run(3) show thesis by (intro Response [of resp w1]) (auto simp: defs)
    next
      fix err assume "res = (None, Some err)" "isRetryable err"
      with assms call Run(3) show thesis
        by (intro Error [of err]) (auto simp: defs isRetryable_def dest: errors_is_unique)
    next
      fix err fo assume "res = (None, Some err)" "err = Foreign fo"
      with assms call Run(3) show thesis by (intro Error [of err]) (auto simp: defs)
    qed
  qed
qed

text \<open>What a call does to the world: it only counts and traces, leaves no body open, and sends copies of its request.\<close>

lemma rc_Do_requests:
  assumes "rc_Do E c m p (http_NewRequest E rq) w = (r, w')"
  shows "\<exists>k\<le>max_sends c. requests_of (w_trace w') = requests_of (w_trace w) @ replicate k rq"
  using assms
proof (cases rule: rc_Do_E)
  case (Run rq' res)
  then have "rq' = rq" by (simp add: http_NewRequest_def split: option.splits)
  moreover from retry_run_discipline [OF Run(4)] obtain es k j where "w_trace w' = w_trace w @ es"
      "requests_of es = replicate k rq'" "k \<le> j" "int j \<le> max 0 (sint (rc_retryAttempts c) + 1)" by auto
  ultimately show ?thesis by (intro exI [of _ k]) (auto simp: max_sends_def)
qed (auto simp: gave_up_def intro: exI [of _ 0])

lemma downstream_call_frame:
  assumes "downstream_call E c m p rq f g w = (r, w')"
  shows "downstream_only w w'"
    and "\<exists>k\<le>max_sends c. requests_of (w_trace w') = requests_of (w_trace w) @ replicate k rq"
proof -
  have "downstream_only w w' \<and> (\<exists>k\<le>max_sends c. requests_of (w_trace w') = requests_of (w_trace w) @ replicate k rq)"
    using assms
  proof (cases rule: downstream_call_E)
    case (Response resp w1)
    have "downstream_only w1 w'" by (simp add: Response(4) downstream_only_def)
    with rc_Do_downstream_only [OF Response(1)] rc_Do_requests [OF Response(1)] Response(4)
    show ?thesis by (auto intro: downstream_only_trans)
  qed (blast intro: rc_Do_downstream_only rc_Do_requests)+
  then show "downstream_only w w'" and "\<exists>k\<le>max_sends c. requests_of (w_trace w') = requests_of (w_trace w) @ replicate k rq"
    by auto
qed

lemma rc_Do_open:
  assumes "rc_Do E c m p reqFn w = (Ret (resp, err), w')" and "open_bodies w = {}"
  shows "open_bodies w' = (case resp of Some x \<Rightarrow> {rs_exchange x} | None \<Rightarrow> {})"
  using assms(1)
proof (cases rule: rc_Do_E)
  case (Run rq res)
  then show ?thesis using retry_run_bodies [OF Run(4) assms(2)] by (cases res) simp
qed (use assms(2) in \<open>auto simp: gave_up_def\<close>)

lemma downstream_call_closed:
  assumes "downstream_call E c m p rq f g w = (r, w')" and "open_bodies w = {}"
  shows "open_bodies w' = {}"
  using assms(1)
proof (cases rule: downstream_call_E)
  case (Response resp w1)
  then show ?thesis using rc_Do_open [OF Response(1) assms(2)] by simp
next
  case (Error err)
  then show ?thesis using rc_Do_open [OF Error(1) assms(2)] by simp
next
  case Nil
  then show ?thesis using rc_Do_open [OF Nil(1) assms(2)] by simp
qed

lemma downstream_call_posts:
  assumes "downstream_call E c m p rq f g w = (r, w')"
  shows "\<exists>k\<le>max_sends c. charges w' = charges w @ replicate k (rq :: http_request)"
    and "rq_method rq \<noteq> ''POST'' \<Longrightarrow> charges w' = charges w"
proof -
  from downstream_call_frame(2) [OF assms] obtain k
    where k: "k \<le> max_sends c" "requests_of (w_trace w') = requests_of (w_trace w) @ replicate k rq" by blast
  show "\<exists>k\<le>max_sends c. charges w' = charges w @ replicate k rq"
  proof (cases "rq_method rq = ''POST''")
    case True
    with k show ?thesis by (auto simp: posts_of_def)
  next
    case False
    with k show ?thesis by (auto simp: posts_of_def intro: exI [of _ 0])
  qed
  show "rq_method rq \<noteq> ''POST'' \<Longrightarrow> charges w' = charges w"
    using k by (auto simp: posts_of_def)
qed

subsection \<open>The clients keep the contracts of the service\<close>

lemma downstream_call_ok:
  "downstream_call E c m p rq f g w = (r, w') \<Longrightarrow> ok_world w \<Longrightarrow> ok_world w' \<and> stored w' = stored w"
  using downstream_call_frame(1) downstream_call_closed
  by (fastforce simp: ok_world_def frame_simps)

interpretation users: user_verifier "\<lambda>w. stored w" "\<lambda>w. charges w" ok_world "VerifyUserExists E c" for E c
proof unfold_locales
  fix u
  show "preserves (observed_state.untouched (\<lambda>w. stored w) (\<lambda>w. charges w) ok_world) (VerifyUserExists E c u)"
    using downstream_call_ok downstream_call_posts(2)
    by (fastforce simp: preserves_def observed_state.untouched_def client_calls get_request_def)
qed

interpretation products: product_fetcher "\<lambda>w. stored w" "\<lambda>w. charges w" ok_world "GetProduct E c" for E c
proof unfold_locales
  fix pid
  show "preserves (observed_state.untouched (\<lambda>w. stored w) (\<lambda>w. charges w) ok_world) (GetProduct E c pid)"
    using downstream_call_ok downstream_call_posts(2)
    by (fastforce simp: preserves_def observed_state.untouched_def client_calls get_request_def)
qed

interpretation payments: payment_charger "\<lambda>w. stored w" "\<lambda>w. charges w" ok_world "Charge E c" "charge_post c" "max_sends c"
  for E c
  using downstream_call_ok downstream_call_posts(1)
  by unfold_locales (fastforce simp: client_calls charge_post_def)+

subsection \<open>What the clients decide\<close>

lemma downstream_call_exchange:
  assumes "rc_Do E c m p (http_NewRequest E rq) w = (Ret (Some resp, None), w1)"
  shows "w_exchanges w \<le> rs_exchange resp \<and> rs_exchange resp < w_exchanges w1
    \<and> e_net E (rs_exchange resp) rq = Inr (rs_status resp, rs_body resp)"
  using assms
proof (cases rule: rc_Do_E)
  case (Run rq' res)
  then have "rq' = rq" by (simp add: http_NewRequest_def split: option.splits)
  with retry_run_result [OF Run(4)] Run(2,3) show ?thesis by (auto simp: returned_response_def)
qed auto

text \<open>A charge result was decoded from a response of payment-service with status 200, 201 or 402 to this charge.\<close>

lemma Charge_answer:
  assumes "Charge E c cr w = (Ret (Inr result), w')"
  shows "\<exists>n st b. w_exchanges w \<le> n \<and> n < w_exchanges w' \<and> e_net E n (charge_post c cr) = Inr (st, b)
    \<and> st \<in> {200, 201, 402} \<and> decode_body ''client'' ''ChargeResult'' result_fields zero_result b = Inr result"
  using assms [unfolded client_calls]
proof (cases rule: downstream_call_E)
  case (Response resp w1)
  from downstream_call_exchange [OF Response(1)] Response(2,4) show ?thesis
    by (intro exI [of _ "rs_exchange resp"] exI [of _ "rs_status resp"] exI [of _ "rs_body resp"])
      (auto simp: read_charge_def split: if_splits sum.splits)
qed auto

text \<open>What a call brings is decided by its last exchange: its answer is read, or there was none.\<close>

lemma rc_Do_last:
  assumes "rc_Do E c m p (http_NewRequest E rq) w = (Ret res, w')" and "e_new_request E (rq_url rq) = None"
    and "0 \<le> sint (rc_retryAttempts c)"
  shows "fst res = (if transient E c rq (w_exchanges w' - 1) = None then Some (response_at E rq (w_exchanges w' - 1)) else None)"
  using assms(1)
proof (cases rule: rc_Do_E)
  case (Run rq' res')
  with assms(2) have "rq' = rq" "res' = res" by (simp_all add: http_NewRequest_def)
  with retry_run_last [OF Run(4)] Run(2) show ?thesis by simp
qed (use assms in \<open>auto simp: http_NewRequest_def\<close>)

lemma downstream_call_last:
  assumes "downstream_call E c m p rq f g w = (Ret x, w')"
  obtains (Answer) "e_new_request E (rq_url rq) = None" and "transient E c rq (w_exchanges w' - 1) = None"
      and "x = f (response_at E rq (w_exchanges w' - 1))"
    | (No_answer) err where "x = g err"
      and "\<And>st b. e_new_request E (rq_url rq) = None \<Longrightarrow> e_net E (w_exchanges w' - 1) rq = Inr (st, b) \<Longrightarrow> gateway_failure st"
      and "\<And>s. errors_is err s \<Longrightarrow> s = Client_ErrDownstreamUnavailable \<or> s = Client_ErrDownstreamTimeout"
  using assms
proof (cases rule: downstream_call_E)
  case (Response resp w1)
  from Response(1) have built: "e_new_request E (rq_url rq) = None" and "0 \<le> sint (rc_retryAttempts c)"
    by (auto elim!: rc_Do_E simp: http_NewRequest_def split: option.splits)
  from rc_Do_last [OF Response(1) this] have "transient E c rq (w_exchanges w1 - 1) = None"
    and "resp = response_at E rq (w_exchanges w1 - 1)" by (auto split: if_splits)
  with built Response(2,4) Answer show thesis by simp
next
  case (Error err)
  show thesis
  proof (cases "e_new_request E (rq_url rq) = None")
    case True
    with Error(1) have "0 \<le> sint (rc_retryAttempts c)" by (auto elim!: rc_Do_E simp: http_NewRequest_def)
    from rc_Do_last [OF Error(1) True this] have "transient E c rq (w_exchanges w' - 1) \<noteq> None" by (auto split: if_splits)
    then have "gateway_failure st" if "e_net E (w_exchanges w' - 1) rq = Inr (st, b)" for st b
      using that by (auto simp: transient_def split: if_splits)
    with Error(2,3) No_answer show thesis by blast
  next
    case False
    from Error(2) have x: "x = g err" by simp
    show thesis by (rule No_answer [OF x _ Error(3)]) (use False in simp_all)
  qed
qed simp

lemma transient_answer:
  assumes "transient E c rq n = None"
  obtains st b where "e_net E n rq = Inr (st, b)" and "response_at E rq n = \<lparr>rs_exchange = n, rs_status = st, rs_body = b\<rparr>"
  using assms by (auto simp: transient_def response_at_def split: sum.splits prod.splits)

lemma get_request_url [simp]: "rq_url (get_request u) = u"
  by (simp add: get_request_def)

text \<open>A charge succeeds exactly when its last exchange brought the status \<open>SUCCEEDED\<close>, with 200, 201 or 402.\<close>

definition charge_succeeded :: "env \<Rightarrow> resilient_client \<Rightarrow> charge_request \<Rightarrow> nat \<Rightarrow> bool" where
  "charge_succeeded E c cr n \<longleftrightarrow> (\<exists>st b result. e_net E n (charge_post c cr) = Inr (st, b) \<and> st \<in> {200, 201, 402}
     \<and> decode_body ''client'' ''ChargeResult'' result_fields zero_result b = Inr result \<and> result_Status result = ''SUCCEEDED'')"

lemma charge_post_url [simp]: "rq_url (charge_post c cr) = payment_url c"
  by (simp add: charge_post_def)

lemma Charge_last:
  assumes "Charge E c cr w = (Ret charged, w')"
  shows "(\<exists>result. charged = Inr result \<and> result_Status result = ''SUCCEEDED'')
    \<longleftrightarrow> e_new_request E (payment_url c) = None \<and> charge_succeeded E c cr (w_exchanges w' - 1)"
  using assms [unfolded client_calls]
proof (cases rule: downstream_call_last)
  case Answer
  define n where "n = w_exchanges w' - 1"
  from Answer(2) obtain st b where net: "e_net E n (charge_post c cr) = Inr (st, b)"
    and resp: "response_at E (charge_post c cr) n = \<lparr>rs_exchange = n, rs_status = st, rs_body = b\<rparr>"
    unfolding n_def by (rule transient_answer)
  show ?thesis
    using Answer(1,3) unfolding n_def [symmetric] resp
    by (auto simp: charge_succeeded_def read_charge_def net split: sum.splits)
next
  case (No_answer err)
  have "\<not> charge_succeeded E c cr (w_exchanges w' - 1)" if "e_new_request E (payment_url c) = None"
    using No_answer(2) that by (force simp: charge_succeeded_def gateway_failure_def)
  with No_answer(1) show ?thesis by auto
qed

text \<open>A charge that has a result has been sent.\<close>

lemma Charge_sent:
  assumes "Charge E c cr w = (Ret (Inr result), w')"
  shows "charges w' \<noteq> charges w"
  using assms [unfolded client_calls]
proof (cases rule: downstream_call_E)
  case (Response resp w1)
  from Response(1) have "requests_of (w_trace w1) \<noteq> requests_of (w_trace w)
      \<and> (\<exists>k. requests_of (w_trace w1) = requests_of (w_trace w) @ replicate k (charge_post c cr))"
  proof (cases rule: rc_Do_E)
    case (Run rq res)
    then have "rq = charge_post c cr" by (simp add: http_NewRequest_def split: option.splits)
    with retry_run_discipline [OF Run(4)] Run(2) show ?thesis by auto
  qed auto
  then show ?thesis using Response(4) by (auto simp: posts_of_def charge_post_def)
qed auto

text \<open>The answers to the reads, by their last exchange.\<close>

lemma GetProduct_last:
  assumes "GetProduct E c pid w = (Ret res, w')"
  obtains (Missing) b where "e_net E (w_exchanges w' - 1) (get_request (product_url c pid)) = Inr (404, b)"
      and "res = Inl (Sentinel Client_ErrProductNotFound)"
    | (Found) b product where "e_net E (w_exchanges w' - 1) (get_request (product_url c pid)) = Inr (200, b)"
      and "decode_body ''client'' ''ProductInfo'' product_fields zero_product b = Inr product" and "res = Inr product"
    | (Unusable) err where "res = Inl err" and "\<not> errors_is err Client_ErrProductNotFound"
      and "e_new_request E (product_url c pid) \<noteq> None
        \<or> (\<forall>st b. e_net E (w_exchanges w' - 1) (get_request (product_url c pid)) = Inr (st, b) \<longrightarrow> st \<noteq> 404 \<and>
            (st = 200 \<longrightarrow> (\<forall>product. decode_body ''client'' ''ProductInfo'' product_fields zero_product b \<noteq> Inr product)))"
  using assms [unfolded client_calls]
proof (cases rule: downstream_call_last)
  case Answer
  from Answer(2) obtain st b where net: "e_net E (w_exchanges w' - 1) (get_request (product_url c pid)) = Inr (st, b)"
    and resp: "response_at E (get_request (product_url c pid)) (w_exchanges w' - 1)
      = \<lparr>rs_exchange = w_exchanges w' - 1, rs_status = st, rs_body = b\<rparr>" by (rule transient_answer)
  show thesis
    using Answer(3) net Missing Found Unusable unfolding resp
    by (cases "st = 404"; cases "st = 200"; cases "decode_body ''client'' ''ProductInfo'' product_fields zero_product b")
      (auto simp: read_product_def)
next
  case (No_answer err)
  then show thesis
    by (intro Unusable [of err]) (force simp: gateway_failure_def)+
qed

lemma VerifyUserExists_last:
  assumes "VerifyUserExists E c u w = (Ret res, w')"
  obtains (Missing) b where "e_net E (w_exchanges w' - 1) (get_request (user_url c u)) = Inr (404, b)"
      and "res = Some (Sentinel Client_ErrUserNotFound)"
    | (Found) b where "e_net E (w_exchanges w' - 1) (get_request (user_url c u)) = Inr (200, b)" and "res = None"
    | (Unusable) err where "res = Some err" and "\<not> errors_is err Client_ErrUserNotFound"
      and "e_new_request E (user_url c u) \<noteq> None
        \<or> (\<forall>st b. e_net E (w_exchanges w' - 1) (get_request (user_url c u)) = Inr (st, b) \<longrightarrow> st \<noteq> 404 \<and> st \<noteq> 200)"
  using assms [unfolded client_calls]
proof (cases rule: downstream_call_last)
  case Answer
  from Answer(2) obtain st b where net: "e_net E (w_exchanges w' - 1) (get_request (user_url c u)) = Inr (st, b)"
    and resp: "response_at E (get_request (user_url c u)) (w_exchanges w' - 1)
      = \<lparr>rs_exchange = w_exchanges w' - 1, rs_status = st, rs_body = b\<rparr>" by (rule transient_answer)
  show thesis
    using Answer(3) net Missing Found Unusable unfolding resp
    by (cases "st = 404"; cases "st = 200") (auto simp: verify_status_def)
next
  case (No_answer err)
  then show thesis
    by (intro Unusable [of err]) (force simp: gateway_failure_def)+
qed

lemma GetProduct_answer:
  assumes "GetProduct E c pid w = (Ret (Inr info), w')"
  shows "\<exists>n b. w_exchanges w \<le> n \<and> n < w_exchanges w' \<and> e_net E n (get_request (product_url c pid)) = Inr (200, b)
    \<and> decode_body ''client'' ''ProductInfo'' product_fields zero_product b = Inr info"
  using assms [unfolded client_calls]
proof (cases rule: downstream_call_E)
  case (Response resp w1)
  from downstream_call_exchange [OF Response(1)] Response(2,4) show ?thesis
    by (intro exI [of _ "rs_exchange resp"] exI [of _ "rs_body resp"])
      (auto simp: read_product_def split: if_splits sum.splits)
qed auto

lemma VerifyUserExists_answer:
  assumes "VerifyUserExists E c u w = (Ret None, w')"
  shows "\<exists>n b. w_exchanges w \<le> n \<and> n < w_exchanges w' \<and> e_net E n (get_request (user_url c u)) = Inr (200, b)"
  using assms [unfolded client_calls]
proof (cases rule: downstream_call_E)
  case (Response resp w1)
  from downstream_call_exchange [OF Response(1)] Response(2,4) show ?thesis
    by (auto simp: verify_status_def split: if_splits)
qed auto

text \<open>A user is accepted only when user-service answered 200, during this call, to the GET of that user; and it is reported
  as not found only when user-service answered 404 to it. No failure of the network is taken for either.\<close>

lemma VerifyUserExists_sound:
  assumes "VerifyUserExists E c u w = (Ret res, w')"
  shows "(res = None \<longrightarrow> (\<exists>n b. w_exchanges w \<le> n \<and> n < w_exchanges w'
            \<and> e_net E n (get_request (user_url c u)) = Inr (200, b)))
    \<and> (\<forall>e. res = Some e \<longrightarrow> errors_is e Client_ErrUserNotFound \<longrightarrow> (\<exists>n b. w_exchanges w \<le> n \<and> n < w_exchanges w'
            \<and> e_net E n (get_request (user_url c u)) = Inr (404, b)))"
  using assms [unfolded client_calls]
proof (cases rule: downstream_call_E)
  case (Response resp w1)
  from downstream_call_exchange [OF Response(1)] Response(2,4) show ?thesis
    by (auto simp: verify_status_def split: if_splits)
next
  case (Error err)
  then show ?thesis by fastforce
qed auto

text \<open>The check of a user looks at the status code alone: any body that comes with a 200, such as the record of an account
  that is suspended, makes the user acceptable.\<close>

lemma VerifyUserExists_ignores_body:
  assumes "0 \<le> sint (rc_retryAttempts c)" and "e_new_request E (user_url c u) = None"
    and "e_net E (w_exchanges w) (get_request (user_url c u)) = Inr (200, b)"
  shows "fst (VerifyUserExists E c u w) = Ret None"
  using assms
  by (simp add: VerifyUserExists_def bindIO_def rc_Do_def http_NewRequest_def get_request_def do_loop_Inr
      transient_def response_at_def gateway_failure_def handle_response_def verify_status_def close_body_def
      emit_def)

lemma downstream_call_negative:
  "sint (rc_retryAttempts c) < 0 \<Longrightarrow> downstream_call E c m p rq f g w = (Panic nil_dereference, gave_up c m p None w)"
  by (cases "http_NewRequest E rq")
    (simp_all add: downstream_call_def bindIO_def rc_Do_def do_loop.simps [of _ _ _ _ _ 0] handle_response_def gave_up_def)

text \<open>With a negative retry count every call of a sibling service dereferences a nil response: the request that needs it ends in
  a panic instead of an error.\<close>

lemma clients_panic_on_negative_attempts:
  assumes "sint (rc_retryAttempts c) < 0"
  shows "fst (VerifyUserExists E c u w) = Panic nil_dereference \<and> fst (GetProduct E c pid w) = Panic nil_dereference
    \<and> fst (Charge E c cr w) = Panic nil_dereference"
  by (simp add: client_calls downstream_call_negative [OF assms])

text \<open>C28. At most \<open>retryAttempts + 1\<close> POSTs go out for a charge, and every one of them is the same request: it carries the order id as its
  \<open>Idempotency-Key\<close>, and the amount, the currency and the ids of the charge in its body.\<close>

theorem Charge_idempotency_key:
  assumes "Charge E c cr w = (r, w')"
  shows "\<exists>sent. charges w' = charges w @ sent \<and> int (length sent) \<le> max 0 (sint (rc_retryAttempts c) + 1) \<and>
    (\<forall>rq\<in>set sent. map_of (rq_headers rq) ''Idempotency-Key'' = Some (charge_OrderID cr)
       \<and> rq_url rq = rc_baseURL c @ ''/api/v1/payments'' \<and> rq_body rq = Some (JObject
          [(''orderId'', JString (charge_OrderID cr)), (''userId'', JString (charge_UserID cr)),
           (''amountCents'', JNumber (show_int (sint (charge_AmountCents cr)))),
           (''currency'', JString (charge_Currency cr))]))"
  using downstream_call_posts(1) [OF assms [unfolded client_calls]]
  by (auto simp: charge_post_def charge_json_def json_int_def payment_url_def max_sends_def)

text \<open>No client leaks a response body, whichever way its call ends, a panic included.\<close>

lemma clients_close_bodies:
  assumes "open_bodies w = {}"
  shows "open_bodies (snd (VerifyUserExists E c u w)) = {} \<and> open_bodies (snd (GetProduct E c pid w)) = {}
    \<and> open_bodies (snd (Charge E c cr w)) = {}"
  unfolding client_calls by (intro conjI downstream_call_closed [OF prod.collapse [symmetric] assms])

subsection \<open>Decoding a product\<close>

text \<open>
  The object product-service answers with (\<open>ProductResponse\<close> in \<open>app/schemas/product.py\<close>), which has members the order
  service does not ask for.
\<close>

definition product_response_json :: "product_info \<Rightarrow> json \<Rightarrow> json \<Rightarrow> json \<Rightarrow> json \<Rightarrow> json \<Rightarrow> json" where
  "product_response_json info description category currency created_at updated_at = JObject
     [(''id'', JString (product_ID info)), (''sku'', JString (product_SKU info)), (''name'', JString (product_Name info)),
      (''description'', description), (''category'', category), (''price_cents'', json_int (product_PriceCents info)),
      (''currency'', currency), (''stock_quantity'', json_int (product_StockQuantity info)),
      (''is_active'', JBool (product_IsActive info)), (''created_at'', created_at), (''updated_at'', updated_at)]"

lemma fold_names [simp]:
  "fold_name ''id'' = ''ID''" "fold_name ''sku'' = ''SKU''" "fold_name ''name'' = ''NAME''"
  "fold_name ''price_cents'' = ''PRICE_CENTS''" "fold_name ''stock_quantity'' = ''STOCK_QUANTITY''"
  "fold_name ''is_active'' = ''IS_ACTIVE''" "fold_name ''description'' = ''DESCRIPTION''"
  "fold_name ''category'' = ''CATEGORY''" "fold_name ''currency'' = ''CURRENCY''"
  "fold_name ''created_at'' = ''CREATED_AT''" "fold_name ''updated_at'' = ''UPDATED_AT''"
  "fold_name ''transactionId'' = ''TRANSACTIONID''" "fold_name ''status'' = ''STATUS''" "fold_name ''reason'' = ''REASON''"
  by code_simp+

lemma decode_product_response:
  "decode_body ''client'' ''ProductInfo'' product_fields zero_product
     (JsonBody (product_response_json info description category currency created_at updated_at)) = Inr info"
  by (simp add: product_response_json_def find_field_def product_fields_def zero_product_def json_int_def)

lemma decode_charge_result:
  "decode_body ''client'' ''ChargeResult'' result_fields zero_result
     (JsonBody (JObject [(''transactionId'', JString t), (''status'', JString s)]))
     = Inr \<lparr>result_TransactionID = t, result_Status = s, result_Reason = []\<rparr>"
  by (simp add: find_field_def result_fields_def zero_result_def)

text \<open>Round trip: what product-service sends for a product decodes to that product, whatever the members the service does not
  use contain.\<close>

lemma product_roundtrip:
  "decode_body ''client'' ''ProductInfo'' product_fields zero_product
     (JsonBody (product_response_json info description category currency created_at updated_at)) = Inr info"
  by (rule decode_product_response)

lemma inactive_kept:
  assumes "\<forall>(k, j)\<in>set kvs. fold_name k \<noteq> ''IS_ACTIVE''" and "decode_members sname product_fields kvs r err = (r', err')"
  shows "product_IsActive r' = product_IsActive r"
  using assms
proof (induction kvs arbitrary: r err)
  case (Cons kv kvs)
  obtain k j where kv: "kv = (k, j)" by fastforce
  have step: "product_IsActive r1 = product_IsActive r"
    if "find_field product_fields k = Some fd" "store fd j r = Inr r1" for fd r1
    using that Cons.prems(1) kv
    by (cases j) (auto simp: find_field_def product_fields_def split: if_splits option.splits)
  from Cons show ?case
    by (auto simp: kv split: option.splits sum.splits dest: step)
qed simp

text \<open>A product is active only if the response says so: when no member of the body is named \<open>is_active\<close>, in any letter case, the
  decoded product is not active.\<close>

lemma product_inactive_by_default:
  assumes "\<forall>(k, j)\<in>set kvs. fold_name k \<noteq> ''IS_ACTIVE''"
    and "decode_body ''client'' ''ProductInfo'' product_fields zero_product (JsonBody (JObject kvs)) = Inr info"
  shows "\<not> product_IsActive info"
  using inactive_kept [OF assms(1)] assms(2)
  by (auto simp: zero_product_def split: prod.splits option.splits)

subsection \<open>Concrete calls\<close>

definition example_charge :: charge_request where
  "example_charge = \<lparr>charge_OrderID = ''7'', charge_UserID = ''1'', charge_AmountCents = 3998, charge_Currency = ''USD''\<rparr>"

lemmas concrete_client_simps = concrete_call_simps bindIO_def http_NewRequest_def handle_response_def close_body_def emit_def
  VerifyUserExists_def verify_status_def Charge_def read_charge_def get_request_def

lemma example_verify:
  "VerifyUserExists calm_env example_client u (start_world db) =
     (Ret None, snd (VerifyUserExists calm_env example_client u (start_world db)))"
  by (simp add: concrete_client_simps)

lemma example_charged:
  "Charge calm_env example_client example_charge (start_world db) =
     (Ret (Inr zero_result), snd (Charge calm_env example_client example_charge (start_world db)))"
  by (simp add: concrete_client_simps)

theorem Charge_idempotency_key_witness:
  "\<exists>sent. charges (snd (Charge calm_env example_client example_charge (start_world empty_db))) = sent
    \<and> sent \<noteq> [] \<and> (\<forall>rq\<in>set sent. map_of (rq_headers rq) ''Idempotency-Key'' = Some ''7'')"
proof -
  have "charges (snd (Charge calm_env example_client example_charge (start_world empty_db))) \<noteq> []"
    by (simp add: concrete_client_simps charge_post_def)
  then show ?thesis
    using Charge_idempotency_key [OF example_charged, of empty_db]
    by (auto simp: example_charge_def start_world_def)
qed

end
