(* ===== verification/Order_Repository.thy ===== *)
theory Order_Repository
  imports Service_Interfaces
begin

section \<open>The PostgreSQL repository (\<open>internal/repository/order_repository.go\<close>)\<close>

text \<open>
  \<open>PostgresOrderRepository\<close> on the tables of \<open>Order_Schema\<close>. Any statement can fail, with or without having taken
  effect, and a query can break off in the middle of its rows. A transaction works on its own copy of the tables, which
  \<open>Commit\<close> installs; every other way out of \<open>Create\<close> drops it. The last sections prove atomicity, the round trip of an
  order through the tables and the laws of the repository interface, which they interpret.
\<close>

subsection \<open>Statements and queries\<close>

definition pool_Begin :: "env \<Rightarrow> (world, go_error option) io" where
  "pool_Begin E w =
     (Ret (case e_exec E (w_execs w) of ExecOk \<Rightarrow> None | ExecErr f \<Rightarrow> Some (Foreign f) | ExecLost f \<Rightarrow> Some (Foreign f)),
      w\<lparr>w_execs := Suc (w_execs w), w_trace := w_trace w @ [EvDb DbBegin]\<rparr>)"

definition tx_snapshot :: "(world, database) io" where
  "tx_snapshot w = (Ret (w_db w), w)"

definition tx_Exec ::
  "env \<Rightarrow> db_event \<Rightarrow> (database \<Rightarrow> database option) \<Rightarrow> database \<Rightarrow> (world, go_error + database) io" where
  "tx_Exec E ev stmt db w =
     (Ret (case e_exec E (w_execs w) of
             ExecOk \<Rightarrow> (case stmt db of
                 Some db' \<Rightarrow> Inr db' | None \<Rightarrow> Inl (Foreign (e_violation E (w_execs w))))
           | ExecErr f \<Rightarrow> Inl (Foreign f)
           | ExecLost f \<Rightarrow> Inl (Foreign f)),
      w\<lparr>w_execs := Suc (w_execs w), w_trace := w_trace w @ [EvDb ev]\<rparr>)"

definition tx_Commit :: "env \<Rightarrow> database \<Rightarrow> (world, go_error option) io" where
  "tx_Commit E db w =
     (let w1 = w\<lparr>w_execs := Suc (w_execs w), w_trace := w_trace w @ [EvDb DbCommit]\<rparr>
      in case e_exec E (w_execs w) of
           ExecOk \<Rightarrow> (Ret None, w1\<lparr>w_db := db\<rparr>)
         | ExecErr f \<Rightarrow> (Ret (Some (Foreign f)), w1)
         | ExecLost f \<Rightarrow> (Ret (Some (Foreign f)), w1\<lparr>w_db := db\<rparr>))"

text \<open>The deferred \<open>tx.Rollback\<close>: the copy is dropped, which after a \<open>Commit\<close> has no effect.\<close>

definition tx_Rollback :: "(world, unit) io" where
  "tx_Rollback = emit (EvDb DbRollback)"

definition run_query ::
  "env \<Rightarrow> db_event \<Rightarrow> ((uuid \<Rightarrow> nat) \<Rightarrow> database \<Rightarrow> 'rows) \<Rightarrow> (world, query_outcome \<times> 'rows) io" where
  "run_query E ev sel w =
     (Ret (e_query E (w_queries w), sel (e_rank E (w_queries w)) (w_db w)),
      w\<lparr>w_queries := Suc (w_queries w), w_trace := w_trace w @ [EvDb ev]\<rparr>)"

text \<open>\<open>QueryRow(\<dots>).Scan(\<dots>)\<close>: the error of the query, or \<open>pgx.ErrNoRows\<close>, or the row.\<close>

fun scan_row :: "query_outcome \<times> 'r option \<Rightarrow> go_error + 'r" where
  "scan_row (QueryOk, None) = Inl (Sentinel Pgx_ErrNoRows)"
| "scan_row (QueryOk, Some r) = Inr r"
| "scan_row (QueryErr f, _) = Inl (Foreign f)"
| "scan_row (RowsErr k f, _) = Inl (Foreign f)"
| "scan_row (ScanErr k f, _) = Inl (Foreign f)"

text \<open>The loop \<open>for rows.Next() { \<dots> Scan \<dots> append }\<close>, then \<open>rows.Err()\<close>.\<close>

fun scan_rows :: "('r \<Rightarrow> 'a) \<Rightarrow> query_outcome \<times> 'r list \<Rightarrow> 'a list \<times> go_error option" where
  "scan_rows f (QueryOk, rows) = (map f rows, None)"
| "scan_rows f (QueryErr e, rows) = ([], Some (Foreign e))"
| "scan_rows f (RowsErr k e, rows) = (map f (take k rows), Some (Foreign e))"
| "scan_rows f (ScanErr k e, rows) = (if k < length rows then ([], Some (Foreign e)) else (map f rows, None))"

subsection \<open>Operations\<close>

text \<open>An item without an id gets a new one, in the caller's order too (line 57).\<close>

definition fill_item_id :: "env \<Rightarrow> order_item \<Rightarrow> (world, order_item) io" where
  "fill_item_id E it =
     (if item_ID it = 0 then bindIO (uuid_New E) (\<lambda>u. ret (it\<lparr>item_ID := u\<rparr>)) else ret it)"

fun insert_items ::
  "env \<Rightarrow> uuid \<Rightarrow> order_item list \<Rightarrow> database \<Rightarrow> (world, order_item list \<times> (go_error + database)) io" where
  "insert_items E oid [] db = ret ([], Inr db)"
| "insert_items E oid (it # its) db =
     bindIO (fill_item_id E it) (\<lambda>it'.
     bindIO (tx_Exec E (DbInsertItem oid (item_ID it'))
         (\<lambda>db. Option.bind (encode_item oid it') (\<lambda>row. insert_item row db)) db) (\<lambda>res.
     case res of
       Inl e \<Rightarrow> ret (it' # its, Inl e)
     | Inr db' \<Rightarrow> bindIO (insert_items E oid its db') (\<lambda>(its', r). ret (it' # its', r))))"

text \<open>The transaction of \<open>Create\<close> once it has begun (lines 46 to 70), on the order with its timestamps.\<close>

definition create_tx :: "env \<Rightarrow> order_t \<Rightarrow> database \<Rightarrow> (world, order_t \<times> go_error option) io" where
  "create_tx E od db =
     bindIO (tx_Exec E (DbInsertOrder (order_ID od))
         (\<lambda>db. Option.bind (encode_order (e_timestamptz E) od) (\<lambda>row. insert_order row db)) db) (\<lambda>res.
     case res of
       Inl e \<Rightarrow> bindIO tx_Rollback (\<lambda>_. ret (od, Some e))
     | Inr db1 \<Rightarrow>
         bindIO (insert_items E (order_ID od) (order_Items od) db1) (\<lambda>(its, res2).
         case res2 of
           Inl e \<Rightarrow> bindIO tx_Rollback (\<lambda>_. ret (od\<lparr>order_Items := its\<rparr>, Some e))
         | Inr db2 \<Rightarrow> bindIO (tx_Commit E db2) (\<lambda>err.
             bindIO tx_Rollback (\<lambda>_. ret (od\<lparr>order_Items := its\<rparr>, err)))))"

definition Create :: "env \<Rightarrow> order_t \<Rightarrow> (world, order_t \<times> go_error option) io" where
  "Create E od =
     bindIO (pool_Begin E) (\<lambda>err. case err of
       Some e \<Rightarrow> ret (od, Some e)
     | None \<Rightarrow>
         bindIO tx_snapshot (\<lambda>db.
         bindIO (time_Now E) (\<lambda>now.
         create_tx E (od\<lparr>order_CreatedAt := now, order_UpdatedAt := now\<rparr>) db)))"

definition getItems :: "env \<Rightarrow> uuid \<Rightarrow> (world, order_item list \<times> go_error option) io" where
  "getItems E orderID =
     bindIO (run_query E (DbSelectItems orderID) (\<lambda>rank. select_items rank orderID)) (\<lambda>q. ret (scan_rows item_of_row q))"

definition GetByID :: "env \<Rightarrow> uuid \<Rightarrow> (world, go_error + order_t) io" where
  "GetByID E i =
     bindIO (run_query E (DbSelectOrder i) (\<lambda>rank. select_order i)) (\<lambda>q. case scan_row q of
       Inl e \<Rightarrow> if errors_is e Pgx_ErrNoRows then ret (Inl (Sentinel Repository_ErrOrderNotFound)) else ret (Inl e)
     | Inr row \<Rightarrow> bindIO (getItems E i) (\<lambda>(items, err). case err of
           Some e \<Rightarrow> ret (Inl e)
         | None \<Rightarrow> ret (Inr (order_of_row row items))))"

definition ListByUser :: "env \<Rightarrow> uuid \<Rightarrow> (world, order_t list \<times> go_error option) io" where
  "ListByUser E userID =
     bindIO (run_query E (DbSelectByUser userID) (\<lambda>rank. select_by_user rank userID))
       (\<lambda>q. ret (scan_rows (\<lambda>row. order_of_row row []) q))"

text \<open>The single \<open>UPDATE\<close> runs outside a transaction: it commits by itself.\<close>

definition exec_update_status ::
  "env \<Rightarrow> uuid \<Rightarrow> order_status \<Rightarrow> time \<Rightarrow> (world, go_error + nat) io" where
  "exec_update_status E i st t w =
     (let n = w_execs w;
          w1 = w\<lparr>w_execs := Suc n, w_trace := w_trace w @ [EvDb (DbUpdateStatus i st)]\<rparr>
      in case pg_varchar 20 st of
           None \<Rightarrow> (Ret (Inl (Foreign (e_violation E n))), w1)
         | Some s \<Rightarrow>
             let (db', affected) = update_status_rows i s (e_timestamptz E t) (w_db w)
             in case e_exec E n of
                  ExecOk \<Rightarrow> (Ret (Inr affected), w1\<lparr>w_db := db'\<rparr>)
                | ExecErr f \<Rightarrow> (Ret (Inl (Foreign f)), w1)
                | ExecLost f \<Rightarrow> (Ret (Inl (Foreign f)), w1\<lparr>w_db := db'\<rparr>))"

definition UpdateStatus :: "env \<Rightarrow> uuid \<Rightarrow> order_status \<Rightarrow> (world, go_error option) io" where
  "UpdateStatus E i st =
     bindIO (time_Now E) (\<lambda>now.
     bindIO (exec_update_status E i st now) (\<lambda>res. case res of
       Inl e \<Rightarrow> ret (Some e)
     | Inr affected \<Rightarrow>
         if affected = 0 then ret (Some (Sentinel Repository_ErrOrderNotFound)) else ret None))"

definition postgres_repository :: "env \<Rightarrow> world order_repository" where
  "postgres_repository E = \<lparr>repo_Create = Create E, repo_GetByID = GetByID E, repo_ListByUser = ListByUser E,
     repo_UpdateStatus = UpdateStatus E\<rparr>"

subsection \<open>What the operations touch\<close>

text \<open>The repository sends nothing, waits for nothing and opens no body: it adds database events to the trace.\<close>

definition repo_only :: "world \<Rightarrow> world \<Rightarrow> bool" where
  "repo_only w w' \<longleftrightarrow> w_exchanges w' = w_exchanges w \<and> w_waits w' = w_waits w
     \<and> (\<exists>ds. w_trace w' = w_trace w @ map EvDb ds)"

lemma repo_only_reflp: "reflp repo_only"
  by (auto simp: reflp_def repo_only_def intro: exI [of _ "[]"])

lemma repo_only_transp: "transp repo_only"
  unfolding transp_def repo_only_def by (metis append.assoc map_append)

lemma db_events_proj [simp]:
  "requests_of (map EvDb ds) = []" "waits_of (map EvDb ds) = []" "open_after S (map EvDb ds) = S"
  by (induction ds) auto

lemma repo_only_observations:
  "repo_only w w' \<Longrightarrow> charges w' = charges w \<and> open_bodies w' = open_bodies w"
  by (auto simp: repo_only_def posts_of_def)

lemma repo_only_primitives:
  "preserves repo_only (pool_Begin E)" "preserves repo_only tx_snapshot" "preserves repo_only (tx_Exec E ev st db)"
  "preserves repo_only (tx_Commit E db)" "preserves repo_only tx_Rollback" "preserves repo_only (run_query E ev sel)"
  "preserves repo_only (time_Now E)" "preserves repo_only (uuid_New E)" "preserves repo_only (exec_update_status E i s t)"
  by (auto simp: preserves_def repo_only_def pool_Begin_def tx_snapshot_def tx_Exec_def tx_Commit_def tx_Rollback_def
      run_query_def exec_update_status_def Let_def effect_defs
      intro: exI [of _ "[_]"] exI [of _ "[]"] split: exec_outcome.splits option.splits prod.splits)

lemmas repo_only_intros = repo_only_primitives preserves_ret [OF repo_only_reflp] preserves_bindIO [OF repo_only_transp]

lemma repo_only_insert_items: "preserves repo_only (insert_items E oid its db)"
  by (induction its arbitrary: db)
    (auto simp: fill_item_id_def intro!: repo_only_intros split: sum.splits prod.splits)

lemma repo_only_operations:
  "preserves repo_only (Create E od)" "preserves repo_only (GetByID E i)"
  "preserves repo_only (ListByUser E u)" "preserves repo_only (UpdateStatus E i s)"
  by (auto simp: Create_def create_tx_def GetByID_def ListByUser_def UpdateStatus_def getItems_def Let_def
      intro!: repo_only_intros repo_only_insert_items split: sum.splits prod.splits option.splits)

subsection \<open>The item loop\<close>

definition clear_ids :: "order_item list \<Rightarrow> order_item list" where
  "clear_ids its = map (\<lambda>it. it\<lparr>item_ID := 0\<rparr>) its"

lemma clear_ids_simps [simp]:
  "clear_ids [] = []" "clear_ids (it # its) = it\<lparr>item_ID := 0\<rparr> # clear_ids its"
  by (simp_all add: clear_ids_def)

lemma fill_item_id_E:
  assumes "fill_item_id E it w = (r, w')"
  obtains it' where "r = Ret it'" and "it'\<lparr>item_ID := 0\<rparr> = it\<lparr>item_ID := 0\<rparr>" and "w_db w' = w_db w"
  using assms by (auto simp: fill_item_id_def bindIO_def uuid_New_def split: if_splits)

lemma tx_Exec_E:
  assumes "tx_Exec E ev stmt db w = (r, w')"
  obtains (Done) db' where "r = Ret (Inr db')" and "stmt db = Some db'" and "w_db w' = w_db w"
    | (Failed) e where "r = Ret (Inl e)" and "w_db w' = w_db w"
  using assms by (auto simp: tx_Exec_def split: exec_outcome.splits option.splits)

lemma insert_items_spec:
  assumes "insert_items E oid its db w = (r, w')"
  shows "\<exists>its' res. r = Ret (its', res) \<and> w_db w' = w_db w \<and> clear_ids its' = clear_ids its
    \<and> (\<forall>db' row rs. res = Inr db' \<longrightarrow> db_wf db \<longrightarrow> stored_of db oid = Some (row, rs) \<longrightarrow>
        db_wf db' \<and> (\<exists>irows. those (map (encode_item oid) its') = Some irows
          \<and> stored_of db' = (stored_of db)(oid \<mapsto> (row, rs + mset irows))))"
  using assms
proof (induction its arbitrary: db w r w')
  case Nil
  then show ?case by (auto simp: fun_eq_iff)
next
  case (Cons it its)
  obtain r1 w1 where fill: "fill_item_id E it w = (r1, w1)" by fastforce
  from fill_item_id_E [OF fill] obtain it' where r1: "r1 = Ret it'" "it'\<lparr>item_ID := 0\<rparr> = it\<lparr>item_ID := 0\<rparr>"
    and db1: "w_db w1 = w_db w" by blast
  let ?stmt = "\<lambda>db. Option.bind (encode_item oid it') (\<lambda>row. insert_item row db)"
  obtain r2 w2 where ins: "tx_Exec E (DbInsertItem oid (item_ID it')) ?stmt db w1 = (r2, w2)" by fastforce
  from ins show ?case
  proof (cases rule: tx_Exec_E)
    case (Failed e)
    with Cons.prems r1 fill ins db1 show ?thesis by (auto simp: bindIO_def)
  next
    case (Done db')
    from Done(2) obtain irow where irow: "encode_item oid it' = Some irow" "insert_item irow db = Some db'"
      by (auto simp: bind_eq_Some_conv)
    then have oid: "irow_order_id irow = oid" by (auto simp: encode_item_def split: option.splits)
    obtain r3 w3 where rest: "insert_items E oid its db' w2 = (r3, w3)" by fastforce
    from Cons.IH [OF rest] obtain its' res where IH: "r3 = Ret (its', res)" "w_db w3 = w_db w2"
      "clear_ids its' = clear_ids its"
      "\<forall>db'' row rs. res = Inr db'' \<longrightarrow> db_wf db' \<longrightarrow> stored_of db' oid = Some (row, rs) \<longrightarrow>
        db_wf db'' \<and> (\<exists>irows. those (map (encode_item oid) its') = Some irows
          \<and> stored_of db'' = (stored_of db')(oid \<mapsto> (row, rs + mset irows)))" by blast
    have r: "r = Ret (it' # its', res)" and w': "w' = w3"
      using Cons.prems fill r1(1) ins Done(1) rest IH(1) by (auto simp: bindIO_def)
    have key: "db_wf db'' \<and> (\<exists>irows. those (map (encode_item oid) (it' # its')) = Some irows
          \<and> stored_of db'' = (stored_of db)(oid \<mapsto> (row, rs + mset irows)))"
      if "res = Inr db''" "db_wf db" "stored_of db oid = Some (row, rs)" for db'' row rs
    proof -
      from insert_item_stored [OF irow(2)] that(3) oid
      have st: "stored_of db' = (stored_of db)(oid \<mapsto> (row, add_mset irow rs))" by fastforce
      with IH(4) that(1) insert_item_wf [OF that(2) irow(2)] obtain irows
        where "db_wf db''" "those (map (encode_item oid) its') = Some irows"
          "stored_of db'' = (stored_of db')(oid \<mapsto> (row, add_mset irow rs + mset irows))" by fastforce
      then show ?thesis using irow(1) st by (auto intro!: exI [of _ "irow # irows"])
    qed
    have "w_db w' = w_db w" "clear_ids (it' # its') = clear_ids (it # its)"
      using r1(2) IH(2,3) Done(3) db1 w' by simp_all
    with r key show ?thesis by blast
  qed
qed

subsection \<open>\<open>Create\<close>\<close>

lemma encode_order_id: "encode_order ts od = Some row \<Longrightarrow> row_id row = order_ID od"
  by (auto simp: encode_order_def split: option.splits)

lemma encode_order_items [simp]: "encode_order ts (od\<lparr>order_Items := its\<rparr>) = encode_order ts od"
  by (cases "pg_varchar 20 (order_Status od)"; cases "pg_int4 (order_TotalCents od)";
      cases "pg_varchar 3 (order_Currency od)"; simp add: encode_order_def)

text \<open>
  \<open>Create\<close> returns, changes of the order only its timestamps and missing item ids, and either installs all rows of
  the order or none: none after an error before the commit, all after success, one or the other when the commit reports
  an error.
\<close>

lemma create_tx_spec:
  assumes "db_wf (w_db w)" and "create_tx E od (w_db w) w = (r, w')"
  shows "\<exists>od' err. r = Ret (od', err) \<and> same_order od od' \<and> db_wf (w_db w')
    \<and> (w_db w' = w_db w \<and> err \<noteq> None \<or> added (e_timestamptz E) od' (stored w) (stored w'))"
proof -
  let ?ts = "e_timestamptz E"
  let ?stmt = "\<lambda>db. Option.bind (encode_order ?ts od) (\<lambda>row. insert_order row db)"
  obtain r1 w1 where ins: "tx_Exec E (DbInsertOrder (order_ID od)) ?stmt (w_db w) w = (r1, w1)" by fastforce
  from ins show ?thesis
  proof (cases rule: tx_Exec_E)
    case (Failed e)
    with assms ins show ?thesis
      by (auto simp: create_tx_def bindIO_Ret tx_Rollback_def emit_def bindIO_def same_order_def)
  next
    case (Done d1)
    from Done(2) obtain row where row: "encode_order ?ts od = Some row" "insert_order row (w_db w) = Some d1"
      by (auto simp: bind_eq_Some_conv)
    then have id: "row_id row = order_ID od" by (auto dest: encode_order_id)
    from insert_order_stored [OF assms(1) row(2)] insert_order_wf [OF assms(1) row(2)] id
    have st: "stored w (order_ID od) = None"
      "stored_of d1 = (stored w)(order_ID od \<mapsto> (row, {#}))" and wf1: "db_wf d1" by simp_all
    obtain r2 w2 where items: "insert_items E (order_ID od) (order_Items od) d1 w1 = (r2, w2)" by fastforce
    from insert_items_spec [OF items] wf1 st(2) obtain its' res where
      r2: "r2 = Ret (its', res)" and db2: "w_db w2 = w_db w" and its': "clear_ids its' = clear_ids (order_Items od)"
      and ok2: "\<forall>d2. res = Inr d2 \<longrightarrow> db_wf d2 \<and> (\<exists>irows. those (map (encode_item (order_ID od)) its') = Some irows
        \<and> stored_of d2 = (stored_of d1)(order_ID od \<mapsto> (row, mset irows)))"
      using Done(3) by fastforce
    have same: "same_order od (od\<lparr>order_Items := its'\<rparr>)" using its' by (simp add: same_order_def clear_ids_def)
    have run: "create_tx E od (w_db w) w = (case res of
         Inl e \<Rightarrow> bindIO tx_Rollback (\<lambda>_. ret (od\<lparr>order_Items := its'\<rparr>, Some e))
       | Inr d2 \<Rightarrow> bindIO (tx_Commit E d2) (\<lambda>err.
           bindIO tx_Rollback (\<lambda>_. ret (od\<lparr>order_Items := its'\<rparr>, err)))) w2"
      using ins items Done(1) r2 by (simp add: create_tx_def bindIO_Ret)
    show ?thesis
    proof (cases res)
      case (Inl e)
      with run assms same db2 show ?thesis by (auto simp: bindIO_def tx_Rollback_def emit_def)
    next
      case (Inr d2)
      have "added ?ts (od\<lparr>order_Items := its'\<rparr>) (stored w) (stored_of d2)" and "db_wf d2"
        using ok2 Inr row(1) st by (auto simp: added_def order_rows_def)
      with Inr run assms same db2 show ?thesis
        by (auto simp: bindIO_def tx_Rollback_def emit_def tx_Commit_def Let_def split: exec_outcome.splits)
    qed
  qed
qed

lemma same_order_stamped:
  "same_order (od\<lparr>order_CreatedAt := t, order_UpdatedAt := t\<rparr>) od' \<longleftrightarrow> same_order od od'"
  by (simp add: same_order_def)

lemma Create_spec:
  assumes "db_wf (w_db w)" and "Create E od w = (r, w')"
  shows "\<exists>od' err. r = Ret (od', err) \<and> same_order od od' \<and> db_wf (w_db w')
    \<and> (w_db w' = w_db w \<and> err \<noteq> None \<or> added (e_timestamptz E) od' (stored w) (stored w'))"
proof -
  obtain b w1 where started: "pool_Begin E w = (Ret b, w1)" by (simp add: pool_Begin_def)
  then have db1: "w_db w1 = w_db w" by (auto simp: pool_Begin_def)
  show ?thesis
  proof (cases b)
    case (Some e)
    with started assms db1 show ?thesis by (auto simp: Create_def bindIO_Ret same_order_def)
  next
    case None
    obtain now w2 where now: "time_Now E w1 = (Ret now, w2)" and db2: "w_db w2 = w_db w"
      using db1 by (auto simp: time_Now_def)
    let ?od = "od\<lparr>order_CreatedAt := now, order_UpdatedAt := now\<rparr>"
    from assms(2) started None now db1 db2
    have "create_tx E ?od (w_db w2) w2 = (r, w')"
      by (simp add: Create_def bindIO_Ret tx_snapshot_def)
    from create_tx_spec [OF _ this] assms(1) db2 show ?thesis by (simp add: same_order_stamped)
  qed
qed

subsection \<open>The other operations\<close>

lemma UpdateStatus_spec:
  assumes "UpdateStatus E i st w = (r, w')" and "db_wf (w_db w)" and "utf8_length st \<le> 20"
  shows "\<exists>err. r = Ret err \<and> db_wf (w_db w')
    \<and> (case err of None \<Rightarrow> status_set i st (stored w) (stored w')
        | Some e \<Rightarrow> stored w' = stored w \<or> status_set i st (stored w) (stored w'))"
proof -
  define now where "now = e_timestamptz E (e_now E (w_nows w))"
  define upd where "upd = update_status_rows i st now (w_db w)"
  have wf: "db_wf (fst upd)" unfolding upd_def by (rule update_status_rows_wf [OF assms(2,3)])
  have eff: "stored_of (fst upd) = stored w \<and> stored w i = None \<or> status_set i st (stored w) (stored_of (fst upd))"
    unfolding upd_def update_status_rows_stored status_set_def
    by (cases "stored w i") (auto split: prod.splits)
  have zero: "snd upd = 0 \<longleftrightarrow> stored w i = None" unfolding upd_def by (rule update_status_rows_affected)
  have nonzero: "stored w i \<noteq> None \<Longrightarrow> status_set i st (stored w) (stored_of (fst upd))" using eff by auto
  show ?thesis
  proof (cases "pg_varchar 20 st")
    case None
    with assms(1,2) show ?thesis
      by (auto simp: UpdateStatus_def bindIO_def time_Now_def exec_update_status_def Let_def)
  next
    case (Some s)
    then have "s = st" using assms(3) by (rule pg_varchar_short)
    with Some assms(1,2) wf eff zero nonzero show ?thesis
      by (cases "e_exec E (w_execs w)")
        (auto simp: UpdateStatus_def bindIO_def time_Now_def exec_update_status_def Let_def now_def upd_def
          split: prod.splits if_splits)
  qed
qed

text \<open>On a stored order, \<open>UpdateStatus\<close> is one statement, and its number decides what happens: only a failure without effect leaves the row.\<close>

lemma UpdateStatus_exact:
  assumes "UpdateStatus E i st w = (r, w')" and "pg_varchar 20 st = Some st" and "stored w i = Some (row, its)"
  shows "w_execs w' = Suc (w_execs w) \<and> w_nows w' = Suc (w_nows w) \<and> w_exchanges w' = w_exchanges w
    \<and> stored w' = (case e_exec E (w_execs w) of
         ExecErr f \<Rightarrow> stored w
       | _ \<Rightarrow> (stored w)(i \<mapsto> (set_status st (e_timestamptz E (e_now E (w_nows w))) row, its)))
    \<and> r = Ret (case e_exec E (w_execs w) of ExecOk \<Rightarrow> None | ExecErr f \<Rightarrow> Some (Foreign f) | ExecLost f \<Rightarrow> Some (Foreign f))"
proof -
  obtain db n where upd: "update_status_rows i st (e_timestamptz E (e_now E (w_nows w))) (w_db w) = (db, n)" by fastforce
  with update_status_rows_stored [of i st "e_timestamptz E (e_now E (w_nows w))" "w_db w"] assms(3)
  have "stored_of db = (stored w)(i \<mapsto> (set_status st (e_timestamptz E (e_now E (w_nows w))) row, its))" by simp
  moreover have "0 < n" using update_status_rows_affected [of i st "e_timestamptz E (e_now E (w_nows w))" "w_db w"] upd assms(3) by auto
  ultimately show ?thesis using assms(1,2) upd
    by (cases "e_exec E (w_execs w)")
      (auto simp: UpdateStatus_def bindIO_def time_Now_def exec_update_status_def Let_def split: if_splits)
qed

lemma GetByID_E:
  assumes "GetByID E i w = (r, w')"
  obtains (Found) row irows where "r = Ret (Inr (order_of_row row (map item_of_row irows)))"
      and "stored w i = Some (row, mset irows)" and "w_db w' = w_db w"
    | (Missing) "r = Ret (Inl (Sentinel Repository_ErrOrderNotFound))" and "stored w i = None" and "w_db w' = w_db w"
    | (Broken) f where "r = Ret (Inl (Foreign f))" and "w_db w' = w_db w"
proof -
  let ?q = "e_query E (w_queries w)" and ?q' = "e_query E (Suc (w_queries w))"
  let ?irows = "select_items (e_rank E (Suc (w_queries w))) i (w_db w)"
  note defs = GetByID_def getItems_def bindIO_def run_query_def
  show thesis
  proof (cases ?q)
    case QueryOk
    show thesis
    proof (cases "select_order i (w_db w)")
      case None
      with QueryOk assms Missing show thesis by (auto simp: defs stored_of_def)
    next
      case (Some row)
      then have st: "stored w i = Some (row, mset ?irows)" by (simp add: stored_of_def mset_select_items)
      show thesis
        using QueryOk Some assms Found [OF _ st] Broken
        by (cases ?q') (auto simp: defs split: if_splits)
    qed
  qed (use assms Broken in \<open>auto simp: defs split: option.splits\<close>)
qed

lemma ListByUser_E:
  assumes "ListByUser E u w = (r, w')"
  obtains (Rows) rank where "r = Ret (map (\<lambda>row. order_of_row row []) (select_by_user rank u (w_db w)), None)"
      and "w_db w' = w_db w"
    | (Broken) ods f where "r = Ret (ods, Some (Foreign f))" and "w_db w' = w_db w"
  using assms by (cases "e_query E (w_queries w)")
    (auto simp: ListByUser_def bindIO_def run_query_def split: if_splits)

subsection \<open>The repository keeps its contract\<close>

lemma repo_untouched:
  assumes "preserves repo_only m" and "\<And>w r w'. m w = (r, w') \<Longrightarrow> w_db w' = w_db w"
  shows "preserves (observed_state.untouched (\<lambda>w. stored w) (\<lambda>w. charges w) ok_world) m"
  using assms repo_only_observations
  by (fastforce simp: preserves_def observed_state.untouched_def ok_world_def)

lemma repo_frame:
  assumes "preserves repo_only m" and "m w = (r, w')" and "ok_world w" and "db_wf (w_db w')"
  shows "ok_world w'" and "charges w' = charges w"
  using assms repo_only_observations by (fastforce simp: ok_world_def dest: preservesD)+

lemma postgres_repository_simps [simp]:
  "repo_Create (postgres_repository E) = Create E"
  "repo_GetByID (postgres_repository E) = GetByID E"
  "repo_ListByUser (postgres_repository E) = ListByUser E"
  "repo_UpdateStatus (postgres_repository E) = UpdateStatus E"
  by (simp_all add: postgres_repository_def)

lemma Create_returns: "ok_world w \<Longrightarrow> \<exists>od' err w'. Create E od w = (Ret (od', err), w')"
  using Create_spec [OF _ prod.collapse [symmetric], of w E od]
  by (metis ok_world_def prod.collapse)

lemma Create_law:
  assumes "ok_world w" and "Create E od w = (Ret (od', err), w')"
  shows "ok_world w' \<and> charges w' = charges w \<and> same_order od od'
    \<and> (case err of None \<Rightarrow> added (e_timestamptz E) od' (stored w) (stored w')
        | Some e \<Rightarrow> stored w' = stored w \<or> added (e_timestamptz E) od' (stored w) (stored w'))"
  using Create_spec [OF _ assms(2)] repo_frame [OF repo_only_operations(1) assms(2,1)] assms(1)
  by (auto simp: ok_world_def split: option.splits)

lemma UpdateStatus_law:
  assumes "ok_world w" and "utf8_length s \<le> 20" and "UpdateStatus E i s w = (r, w')"
  shows "ok_world w' \<and> charges w' = charges w \<and> (\<exists>err. r = Ret err
    \<and> (case err of None \<Rightarrow> status_set i s (stored w) (stored w')
        | Some e \<Rightarrow> stored w' = stored w \<or> status_set i s (stored w) (stored w')))"
  using UpdateStatus_spec [OF assms(3) _ assms(2)] repo_frame [OF repo_only_operations(4) assms(3,1)] assms(1)
  by (auto simp: ok_world_def)

lemma GetByID_untouched:
  "preserves (observed_state.untouched (\<lambda>w. stored w) (\<lambda>w. charges w) ok_world) (GetByID E i)"
  by (rule repo_untouched [OF repo_only_operations(2)]) (auto elim: GetByID_E)

lemma ListByUser_untouched:
  "preserves (observed_state.untouched (\<lambda>w. stored w) (\<lambda>w. charges w) ok_world) (ListByUser E u)"
  by (rule repo_untouched [OF repo_only_operations(3)]) (auto elim: ListByUser_E)

lemma select_by_user_stored:
  assumes "db_wf db" and "row \<in> set (select_by_user rank u db)"
  shows "\<exists>its. stored_of db (row_id row) = Some (row, its) \<and> row_user_id row = u"
  using assms by (auto simp: set_select_by_user stored_of_def select_order_member)

lemma insert_items_foreign:
  "insert_items E oid its db w = (Ret (its', Inl e), w') \<Longrightarrow> \<exists>f. e = Foreign f"
proof (induction its arbitrary: db w its')
  case Nil
  then show ?case by simp
next
  case (Cons it its)
  obtain it1 w1 where fill: "fill_item_id E it w = (Ret it1, w1)" by (cases "item_ID it = 0") (auto simp: fill_item_id_def bindIO_def uuid_New_def)
  let ?stmt = "\<lambda>db. Option.bind (encode_item oid it1) (\<lambda>row. insert_item row db)"
  obtain res w2 where exec: "tx_Exec E (DbInsertItem oid (item_ID it1)) ?stmt db w1 = (Ret res, w2)"
    by (simp add: tx_Exec_def)
  show ?case
  proof (cases res)
    case (Inl e1)
    with exec have "\<exists>f. e1 = Foreign f" by (auto simp: tx_Exec_def split: exec_outcome.splits option.splits)
    with Inl Cons.prems fill exec show ?thesis by (auto simp: bindIO_Ret)
  next
    case (Inr db')
    with Cons.prems fill exec Cons.IH show ?thesis by (auto simp: bindIO_Ret elim!: bindIO_RetE)
  qed
qed

lemma Create_foreign:
  assumes "Create E od w = (Ret (od', Some e), w')"
  shows "\<exists>f. e = Foreign f"
proof -
  have exec: "\<exists>f. e = Foreign f" if "tx_Exec E ev st db w = (Ret (Inl e), w1)" for ev st db w w1 e
    using that by (auto simp: tx_Exec_def split: exec_outcome.splits option.splits)
  have commit: "\<exists>f. e = Foreign f" if "tx_Commit E db w = (Ret (Some e), w1)" for db w w1 e
    using that by (auto simp: tx_Commit_def Let_def split: exec_outcome.splits)
  have tx: "\<exists>f. e = Foreign f" if "create_tx E o1 db w = (Ret (od', Some e), w')" for o1 db w
    using that unfolding create_tx_def
    by (auto elim!: bindIO_RetE split: sum.splits prod.splits) (blast dest: exec commit insert_items_foreign)+
  show ?thesis
    using assms unfolding Create_def
    by (auto elim!: bindIO_RetE split: option.splits exec_outcome.splits simp: pool_Begin_def) (blast dest: tx)+
qed

interpretation store: order_store "\<lambda>w. stored w" "\<lambda>w. charges w" ok_world "postgres_repository E" "e_timestamptz E" for E
proof (unfold_locales, goal_cases)
  case (1 w od)
  then show ?case by (simp add: Create_returns)
next
  case (2 w od od' err w')
  then show ?case using Create_law by simp
next
  case (3 od w od' e w')
  then show ?case by (simp add: Create_foreign)
next
  case (4 w s i)
  then show ?case using UpdateStatus_law [OF 4 prod.collapse [symmetric]] by (metis postgres_repository_simps(4) prod.collapse)
next
  case (5 w s i err w')
  then show ?case using UpdateStatus_law by fastforce
next
  case (6 i)
  show ?case using GetByID_untouched by simp
next
  case (7 w i od w')
  then show ?case by (fastforce elim: GetByID_E)
next
  case (8 w i e w')
  then show ?case by (fastforce elim: GetByID_E)
next
  case (9 i w e w')
  then show ?case by (fastforce elim: GetByID_E)
next
  case (10 u)
  show ?case using ListByUser_untouched by simp
next
  case (12 u w ods e w')
  then show ?case by (fastforce elim: ListByUser_E)
next
  case (11 w u ods w' od)
  from 11(2) have "ListByUser E u w = (Ret (ods, None), w')" by simp
  then show ?case
  proof (cases rule: ListByUser_E)
    case (Rows rank)
    with 11(1,3) select_by_user_stored show ?thesis
      by (fastforce simp: ok_world_def order_of_row_def)
  next
    case (Broken ods' f)
    then show ?thesis by simp
  qed
qed

subsection \<open>Properties of the repository\<close>

text \<open>C24. \<open>Create\<close> is atomic: whatever fails, and at whatever statement, the tables afterwards either are the tables before, and
  then an error is returned, or hold the order, which was new, with all its items and differ in nothing else. An error
  can come with either: the commit may have been carried out although its answer was lost.\<close>

theorem Create_atomic:
  assumes "db_wf (w_db w)" and "Create E od w = (r, w')"
  shows "\<exists>od' err. r = Ret (od', err) \<and> db_wf (w_db w')
    \<and> (w_db w' = w_db w \<and> err \<noteq> None
       \<or> stored w (order_ID od) = None
         \<and> (\<exists>row irows. encode_order (e_timestamptz E) od' = Some row
              \<and> those (map (encode_item (order_ID od)) (order_Items od')) = Some irows
              \<and> stored w' = (stored w)(order_ID od \<mapsto> (row, mset irows))))"
proof -
  from Create_spec [OF assms] obtain od' err where "r = Ret (od', err)" "same_order od od'" "db_wf (w_db w')"
    "w_db w' = w_db w \<and> err \<noteq> None \<or> added (e_timestamptz E) od' (stored w) (stored w')" by blast
  then show ?thesis
    by (fastforce simp: added_def order_rows_def same_order_def split: option.splits)
qed

text \<open>The tables keep their keys, foreign key and checks under every operation of the repository, successful or not.\<close>

lemma repository_keeps_constraints:
  assumes "db_wf (w_db w)" and "utf8_length s \<le> 20"
  shows "db_wf (w_db (snd (Create E od w))) \<and> db_wf (w_db (snd (UpdateStatus E i s w)))
    \<and> w_db (snd (GetByID E i w)) = w_db w \<and> w_db (snd (ListByUser E u w)) = w_db w"
  using Create_spec [OF assms(1) prod.collapse [symmetric]]
    UpdateStatus_spec [OF prod.collapse [symmetric] assms]
    GetByID_E [OF prod.collapse [symmetric]] ListByUser_E [OF prod.collapse [symmetric]]
  by metis

text \<open>\<open>GetByID\<close> invents nothing and hides nothing: an order it returns is the stored row with exactly its items, and it
  answers "not found" only for an id the tables do not hold.\<close>

lemma GetByID_faithful:
  assumes "GetByID E i w = (Ret res, w')"
  shows "case res of
      Inr od \<Rightarrow> \<exists>row irows. stored w i = Some (row, mset irows) \<and> od = order_of_row row (map item_of_row irows)
    | Inl e \<Rightarrow> errors_is e Repository_ErrOrderNotFound \<longrightarrow> stored w i = None"
  using assms by (cases rule: GetByID_E) auto

lemma encode_item_of_row:
  "encode_item oid it = Some row \<Longrightarrow> utf8_length (item_SKU it) \<le> 64 \<Longrightarrow> item_of_row row = it"
  by (cases "pg_varchar 64 (item_SKU it)"; cases "pg_int4 (item_Quantity it)"; cases "pg_int4 (item_UnitPriceCents it)")
    (auto simp: encode_item_def item_of_row_def pg_int4_Some dest: pg_varchar_short)

lemma encode_items_of_rows:
  "those (map (encode_item oid) its) = Some rows \<Longrightarrow> \<forall>it\<in>set its. utf8_length (item_SKU it) \<le> 64
    \<Longrightarrow> map item_of_row rows = its"
  by (induction its arbitrary: rows) (auto split: option.splits dest: encode_item_of_row)

lemma encode_order_of_row:
  assumes "encode_order ts od = Some row" and "utf8_length (order_Status od) \<le> 20" and "utf8_length (order_Currency od) \<le> 3"
  shows "order_of_row row its = od\<lparr>order_Items := its, order_CreatedAt := ts (order_CreatedAt od), order_UpdatedAt := ts (order_UpdatedAt od)\<rparr>"
  using assms
  by (cases "pg_varchar 20 (order_Status od)"; cases "pg_int4 (order_TotalCents od)"; cases "pg_varchar 3 (order_Currency od)")
    (auto simp: encode_order_def order_of_row_def pg_int4_Some dest!: pg_varchar_short)

text \<open>Round trip: an order whose texts fit their columns and that \<open>Create\<close> stored without an error is read back by \<open>GetByID\<close> as
  it was, up to the order of its items and the resolution of its timestamps.\<close>

lemma Create_GetByID_roundtrip:
  assumes "db_wf (w_db w)" and "Create E od w = (Ret (od', None), w1)"
    and "GetByID E (order_ID od) w1 = (Ret (Inr got), w2)"
    and "utf8_length (order_Status od) \<le> 20" and "utf8_length (order_Currency od) \<le> 3"
    and "\<forall>it\<in>set (order_Items od'). utf8_length (item_SKU it) \<le> 64"
  shows "mset (order_Items got) = mset (order_Items od')
    \<and> got = od'\<lparr>order_Items := order_Items got, order_CreatedAt := e_timestamptz E (order_CreatedAt od'),
        order_UpdatedAt := e_timestamptz E (order_UpdatedAt od')\<rparr>"
proof -
  from Create_spec [OF assms(1,2)] have same: "same_order od od'"
    and "added (e_timestamptz E) od' (stored w) (stored w1)" by auto
  then obtain row irows where row: "encode_order (e_timestamptz E) od' = Some row"
    and irows: "those (map (encode_item (order_ID od')) (order_Items od')) = Some irows"
    and st: "stored w1 (order_ID od) = Some (row, mset irows)"
    by (auto simp: added_def order_rows_def same_order_def split: option.splits)
  from assms(3) st obtain irows' where "mset irows' = mset irows"
    and got: "got = order_of_row row (map item_of_row irows')" by (auto elim: GetByID_E)
  then have "mset (map item_of_row irows') = mset (order_Items od')"
    using encode_items_of_rows [OF irows assms(6)] by (metis mset_map)
  moreover have "order_Items got = map item_of_row irows'" by (simp add: got order_of_row_def)
  ultimately show ?thesis
    using encode_order_of_row [OF row] same assms(4,5) got by (simp add: same_order_def)
qed

text \<open>\<open>ListByUser\<close>, when it succeeds, returns the user's orders and no others, newest first, each with the data of its row; the
  items are left out, even though the orders are stored with items.\<close>

lemma ListByUser_faithful:
  assumes "ListByUser E u w = (Ret (ods, None), w')"
  shows "mset (map order_ID ods) = mset (map row_id (filter (\<lambda>r. row_user_id r = u) (db_orders (w_db w))))
    \<and> sorted_wrt (\<lambda>a b. order_CreatedAt b \<le> order_CreatedAt a) ods
    \<and> (\<forall>od\<in>set ods. order_UserID od = u \<and> order_Items od = []
        \<and> (\<exists>row\<in>set (db_orders (w_db w)). od = order_of_row row []))"
  using assms
proof (cases rule: ListByUser_E)
  case (Rows rank)
  let ?rows = "select_by_user rank u (w_db w)"
  have ods: "ods = map (\<lambda>row. order_of_row row []) ?rows" using Rows(1) by simp
  have "mset (map row_id ?rows) = mset (map row_id (filter (\<lambda>r. row_user_id r = u) (db_orders (w_db w))))"
    by (simp only: mset_map mset_select_by_user)
  then show ?thesis
    using select_by_user_sorted [of rank u "w_db w"]
    by (auto simp: set_select_by_user ods order_of_row_def sorted_wrt_map comp_def)
qed simp

text \<open>\<open>UpdateStatus\<close> reports success only after it set the status, and the update time, of the one order it was given; every other
  order, and every item, is as it was, whatever it reports.\<close>

lemma UpdateStatus_local:
  assumes "UpdateStatus E i s w = (Ret err, w')" and "db_wf (w_db w)" and "utf8_length s \<le> 20"
  shows "(err = None \<longrightarrow> (\<exists>t row its. stored w i = Some (row, its) \<and> stored w' i = Some (set_status s t row, its)))
    \<and> (\<forall>j. j \<noteq> i \<longrightarrow> stored w' j = stored w j)
    \<and> map_option snd (stored w' i) = map_option snd (stored w i)"
  using UpdateStatus_spec [OF assms] by (auto simp: status_set_def split: option.splits)

subsection \<open>Concrete operations\<close>

definition example_order :: order_t where
  "example_order = \<lparr>order_ID = 5, order_UserID = 1, order_Status = OrderStatusPending, order_TotalCents = 3998,
     order_Currency = ''USD'', order_Items = [\<lparr>item_ID = 0, item_ProductID = 2, item_SKU = ''SKU-MOUSE'', item_Quantity = 2,
       item_UnitPriceCents = 1999\<rparr>], order_CreatedAt = 0, order_UpdatedAt = 0\<rparr>"

lemmas concrete_repo_simps = Create_def create_tx_def bindIO_def pool_Begin_def tx_snapshot_def tx_Exec_def tx_Commit_def
  tx_Rollback_def fill_item_id_def GetByID_def getItems_def run_query_def ListByUser_def UpdateStatus_def
  exec_update_status_def effect_defs calm_env_def start_world_def empty_db_def example_order_def status_defs
  encode_order_def encode_item_def pg_varchar_def utf8_length_def utf8_continuation_def pg_int4_def in_int4_def
  insert_order_def insert_item_def order_row_ok_def item_row_ok_def select_order_def select_items_def select_by_user_def
  update_status_rows_def set_status_def order_of_row_def item_of_row_def

definition example_stored :: order_t where
  "example_stored = example_order\<lparr>order_Items := [\<lparr>item_ID = 1, item_ProductID = 2, item_SKU = ''SKU-MOUSE'', item_Quantity = 2,
       item_UnitPriceCents = 1999\<rparr>]\<rparr>"

definition example_world :: world where
  "example_world = snd (Create calm_env example_order (start_world empty_db))"

lemma example_create: "Create calm_env example_order (start_world empty_db) = (Ret (example_stored, None), example_world)"
  unfolding example_world_def example_stored_def by (simp add: concrete_repo_simps)

lemma example_world_db: "w_db example_world =
    \<lparr>db_orders = [\<lparr>row_id = 5, row_user_id = 1, row_status = ''PENDING'', row_total_cents = 3998, row_currency = ''USD'',
       row_created_at = 0, row_updated_at = 0\<rparr>],
     db_items = [\<lparr>irow_id = 1, irow_order_id = 5, irow_product_id = 2, irow_sku = ''SKU-MOUSE'', irow_quantity = 2,
       irow_unit_price_cents = 1999\<rparr>]\<rparr>"
  unfolding example_world_def by (simp add: concrete_repo_simps)

lemma start_world_wf: "db_wf (w_db (start_world empty_db))"
  by (simp add: start_world_def empty_db_wf)

lemma example_world_wf: "db_wf (w_db example_world)"
  using Create_spec [OF start_world_wf example_create] by simp

lemma example_get: "GetByID calm_env 5 example_world = (Ret (Inr example_stored), snd (GetByID calm_env 5 example_world))"
  by (simp add: GetByID_def getItems_def bindIO_def run_query_def calm_env_def example_world_db select_order_def
      select_items_def order_of_row_def item_of_row_def example_stored_def example_order_def status_defs)

lemma example_update: "UpdateStatus calm_env 5 OrderStatusConfirmed example_world =
    (Ret None, snd (UpdateStatus calm_env 5 OrderStatusConfirmed example_world))"
  by (simp add: UpdateStatus_def bindIO_def time_Now_def exec_update_status_def Let_def calm_env_def example_world_db
      status_defs pg_varchar_def utf8_length_def utf8_continuation_def update_status_rows_def)

theorem Create_atomic_witness:
  "\<exists>row irows. stored example_world = (stored (start_world empty_db))(5 \<mapsto> (row, mset irows))"
proof -
  have "order_ID example_order = 5" by (simp add: example_order_def)
  then show ?thesis using Create_atomic [OF start_world_wf example_create] by auto
qed

end
