(* ===== verification/Order_App.thy ===== *)
theory Order_App
  imports Service_Clients Order_Repository Order_Service
begin

section \<open>The order service on its real providers\<close>

text \<open>
  \<open>main\<close> builds the order service from the PostgreSQL repository and the three HTTP clients. This theory is that
  composition: the contract of \<open>Order_Service\<close> interpreted on it, and the properties of \<open>CreateOrder\<close>, \<open>GetOrder\<close> and
  \<open>ListOrdersByUser\<close> in terms of the network, the tables and the charges that go out.
\<close>

definition uuid_functions :: "env \<Rightarrow> world uuid_package" where
  "uuid_functions E = \<lparr>uuid_New_op = uuid_New E, uuid_Parse = e_uuid_parse E, uuid_String = e_uuid_string E\<rparr>"

text \<open>The resilient clients of the three downstream services.\<close>

record downstream =
  ds_users :: resilient_client
  ds_products :: resilient_client
  ds_payments :: resilient_client

definition order_app :: "env \<Rightarrow> downstream \<Rightarrow> world order_service" where
  "order_app E d = NewOrderService (postgres_repository E) (NewUserClient E (ds_users d)) (NewProductClient E (ds_products d))
     (NewPaymentClient E (ds_payments d)) log_at (uuid_functions E)"

lemma uuid_functions_simps [simp]:
  "uuid_New_op (uuid_functions E) = uuid_New E"
  "uuid_Parse (uuid_functions E) = e_uuid_parse E"
  "uuid_String (uuid_functions E) = e_uuid_string E"
  by (simp_all add: uuid_functions_def)

lemma order_app_simps [simp]:
  "svc_repo (order_app E d) = postgres_repository E"
  "svc_users (order_app E d) = VerifyUserExists E (ds_users d)"
  "svc_products (order_app E d) = GetProduct E (ds_products d)"
  "svc_payments (order_app E d) = Charge E (ds_payments d)"
  "svc_logger (order_app E d) = log_at"
  "svc_uuid (order_app E d) = uuid_functions E"
  by (simp_all add: order_app_def NewOrderService_def NewUserClient_def NewProductClient_def NewPaymentClient_def)

interpretation app: order_service_contract "\<lambda>w. stored w" "\<lambda>w. charges w" ok_world "order_app E d"
  "charge_post (ds_payments d)" "max_sends (ds_payments d)" "e_timestamptz E" for E d
  by (intro order_service_contract.intro order_service_contract_axioms.intro; simp only: order_app_simps uuid_functions_simps)
    (rule users.user_verifier_axioms products.product_fetcher_axioms payments.payment_charger_axioms
      store.order_store_axioms
     | simp add: preserves_def observed_state.untouched_def ok_world_def effect_defs; fail)+

subsection \<open>Placing an order\<close>

text \<open>C16. A refused order leaves no trace: when no order is returned, no charge went out; and when the reason is a missing user, a
  missing, inactive or short product, an unreachable dependency or a malformed request, the tables are as before. The only
  other reason is that storing the order failed.\<close>

theorem CreateOrder_refused:
  assumes "ok_world w" and "CreateOrder (order_app E d) req w = (Ret (None, Some e), w')"
  shows "charges w' = charges w \<and> (rejection e \<and> stored w' = stored w
    \<or> (\<exists>f. e = Wrapped (''persisting order: '' @ foreign_text f) (Foreign f)))"
  using assms by (cases rule: app.CreateOrder_E) auto

text \<open>No charge without an order: if a charge went out, the order it is for is new and stored, and every POST that went out carries
  that order's id as its idempotency key and the stored total as its amount; at most \<open>retryAttempts + 1\<close> of them.\<close>

lemma CreateOrder_charges_stored_order:
  assumes "ok_world w" and "CreateOrder (order_app E d) req w = (r, w')"
  shows "charges w' = charges w \<or> (\<exists>i row its cr k. stored w i = None \<and> stored w' i = Some (row, its)
    \<and> charges w' = charges w @ replicate k (charge_post (ds_payments d) cr)
    \<and> int k \<le> max 0 (sint (rc_retryAttempts (ds_payments d)) + 1)
    \<and> charge_OrderID cr = e_uuid_string E i \<and> charge_UserID cr = e_uuid_string E (row_user_id row)
    \<and> sint (charge_AmountCents cr) = row_total_cents row \<and> charge_Currency cr = ''USD'')"
  using assms
proof (cases rule: app.CreateOrder_effect)
  case (Placed od k)
  then obtain row its row' where rows: "order_rows (e_timestamptz E) od = Some (row, its)" and "settled_row row row'"
    and "stored w (order_ID od) = None" and "stored w' (order_ID od) = Some (row', mset its)"
    by (auto simp: placed_def)
  moreover from this have "row_user_id row' = order_UserID od" "row_total_cents row' = sint (order_TotalCents od)"
    by (auto simp: order_rows_def encode_order_def settled_row_def set_status_def pg_int4_Some split: option.splits)
  moreover have "order_Currency od = ''USD''" using Placed(2) by (simp add: order_for_def)
  ultimately show ?thesis using Placed(4,5)
    by (intro disjI2 exI [of _ "order_ID od"] exI [of _ row'] exI [of _ "mset its"] exI [of _ "charge_of (order_app E d) od"]
        exI [of _ k]) (simp add: charge_of_def max_sends_def)
qed simp

text \<open>Placing an order touches no other order: whatever happens, every order stored before is stored as it was, items and status
  included, and at most one order is new.\<close>

lemma CreateOrder_keeps_orders:
  assumes "ok_world w" and "CreateOrder (order_app E d) req w = (r, w')"
  shows "stored w \<subseteq>\<^sub>m stored w' \<and> (\<exists>i. dom (stored w') \<subseteq> insert i (dom (stored w)))"
  using assms by (cases rule: app.CreateOrder_effect) (auto simp: placed_def map_le_def)

lemma app_final_status:
  assumes "Charge E c cr w = (Ret charged, w')"
  shows "final_status charged = OrderStatusConfirmed \<longleftrightarrow> (\<exists>result. charged = Inr result \<and> result_Status result = ''SUCCEEDED'')"
    and "final_status charged \<noteq> OrderStatusConfirmed \<longleftrightarrow> final_status charged = OrderStatusFailed"
  by (auto simp: final_status_def status_defs split: sum.splits)

lemma placed_outcome:
  assumes "ok_world w" and "CreateOrder (order_app E d) req w = (Ret (Some od, err), w')"
  shows "order_Status od = OrderStatusFailed \<and> err = Some (Sentinel Service_ErrPaymentDeclined)
    \<or> order_Status od = OrderStatusConfirmed \<and> err = None \<and> (\<exists>n st b result.
        e_net E n (charge_post (ds_payments d) (charge_of (order_app E d) od)) = Inr (st, b) \<and> st \<in> {200, 201, 402}
        \<and> decode_body ''client'' ''ChargeResult'' result_fields zero_result b = Inr result
        \<and> result_Status result = ''SUCCEEDED'')"
  using assms
proof (cases rule: app.CreateOrder_E)
  case (Settled od' st charged wa wb wc wd upd k)
  have same: "charge_of (order_app E d) od = charge_of (order_app E d) od'" using Settled(4) by (simp add: charge_of_def)
  from Settled(3) have charge: "Charge E (ds_payments d) (charge_of (order_app E d) od') wa = (Ret charged, wb)" by simp
  show ?thesis
  proof (cases "final_status charged = OrderStatusConfirmed")
    case True
    then obtain result where "charged = Inr result" and ok: "result_Status result = ''SUCCEEDED''"
      using app_final_status(1) [OF charge] by blast
    with charge have "Charge E (ds_payments d) (charge_of (order_app E d) od) wa = (Ret (Inr result), wb)" by (simp add: same)
    from Charge_answer [OF this] ok True Settled(4) show ?thesis by (auto simp: status_defs)
  next
    case False
    with app_final_status(2) [OF charge] Settled(4) show ?thesis by (simp add: status_defs)
  qed
qed auto

lemma final_status_column: "pg_varchar 20 (final_status charged) = Some (final_status charged)"
  using final_status_cases [of charged] by (auto simp: pg_varchar_def status_defs utf8_length_def utf8_continuation_def)

text \<open>The row of a placed order in the end, by the last statement of the run, which is the one that records the status.\<close>

definition recorded :: "env \<Rightarrow> world \<Rightarrow> order_status \<Rightarrow> order_row \<Rightarrow> order_row" where
  "recorded E w' st row = (case e_exec E (w_execs w' - 1) of
       ExecErr f \<Rightarrow> row
     | _ \<Rightarrow> set_status st (e_timestamptz E (e_now E (w_nows w' - 1))) row)"

lemma recorded_fields [simp]:
  "row_id (recorded E w st row) = row_id row" "row_user_id (recorded E w st row) = row_user_id row"
  "row_total_cents (recorded E w st row) = row_total_cents row" "row_currency (recorded E w st row) = row_currency row"
  "row_created_at (recorded E w st row) = row_created_at row"
  "row_status (recorded E w st row) = (case e_exec E (w_execs w - 1) of ExecErr f \<Rightarrow> row_status row | _ \<Rightarrow> st)"
  "row_updated_at (recorded E w st row) = (case e_exec E (w_execs w - 1) of
     ExecErr f \<Rightarrow> row_updated_at row | _ \<Rightarrow> e_timestamptz E (e_now E (w_nows w - 1)))"
  by (simp_all add: recorded_def set_status_def split: exec_outcome.split)

lemma log_frame:
  assumes "log_charge (order_app E d) od charged w = (r, w')" 
  shows "w_db w' = w_db w" "w_execs w' = w_execs w" "w_nows w' = w_nows w" "w_exchanges w' = w_exchanges w"
  using assms by (auto simp: log_charge_def log_at_def emit_def split: sum.splits if_splits)

lemma log_update_frame:
  assumes "log_update (order_app E d) od upd w = (r, w')" 
  shows "w_db w' = w_db w" "w_execs w' = w_execs w" "w_nows w' = w_nows w" "w_exchanges w' = w_exchanges w"
  using assms by (auto simp: log_update_def log_at_def emit_def split: option.splits)

text \<open>A run from the charge on, and a whole run that returned an order.\<close>

lemma settle_run:
  assumes "settle (order_app E d) od w = (Ret (Some od', err), w')" and "stored w (order_ID od) = Some (row, its)"
  obtains charged w1 where "Charge E (ds_payments d) (charge_of (order_app E d) od) w = (Ret charged, w1)"
    and "od' = od\<lparr>order_Status := final_status charged\<rparr>"
    and "err = (if final_status charged = OrderStatusFailed then Some (Sentinel Service_ErrPaymentDeclined) else None)"
    and "w_exchanges w' = w_exchanges w1" and "stored w' = (stored w)(order_ID od \<mapsto> (recorded E w' (order_Status od') row, its))"
proof -
  let ?S = "order_app E d"
  from assms(1) obtain charged w1 where charge: "Charge E (ds_payments d) (charge_of ?S od) w = (Ret charged, w1)"
    and rest: "bindIO (log_charge ?S od charged) (\<lambda>_.
     bindIO (UpdateStatus E (order_ID od) (final_status charged)) (\<lambda>updateErr.
     bindIO (log_update ?S od updateErr) (\<lambda>_.
     ret (Some (od\<lparr>order_Status := final_status charged\<rparr>),
          if final_status charged = OrderStatusFailed then Some (Sentinel Service_ErrPaymentDeclined) else None)))) w1
       = (Ret (Some od', err), w')"
    unfolding settle_def order_app_simps postgres_repository_simps by (erule_tac bindIO_RetE) blast
  from rest obtain w2 upd w3 w4 where log1: "log_charge ?S od charged w1 = (Ret (), w2)"
    and update: "UpdateStatus E (order_ID od) (final_status charged) w2 = (Ret upd, w3)"
    and log2: "log_update ?S od upd w3 = (Ret (), w4)"
    and res: "w' = w4" "od' = od\<lparr>order_Status := final_status charged\<rparr>"
      "err = (if final_status charged = OrderStatusFailed then Some (Sentinel Service_ErrPaymentDeclined) else None)"
    by (elim bindIO_RetE) auto
  have "w_db w1 = w_db w" using downstream_call_frame(1) charge by (metis client_calls(3) downstream_only_frame(1))
  then have "stored w2 (order_ID od) = Some (row, its)" "stored w2 = stored w"
    using log_frame [OF log1] assms(2) by simp_all
  with UpdateStatus_exact [OF update final_status_column this(1)] log_update_frame [OF log2] log_frame [OF log1] res charge
  show thesis by (intro that [of charged w1]) (auto simp: recorded_def fun_upd_idem split: exec_outcome.splits)
qed

lemma placed_run:
  assumes "ok_world w" and "CreateOrder (order_app E d) req w = (Ret (Some od, err), w')"
  obtains od' charged w1 w2 row its where "order_for (order_app E d) req od'" and "od = od'\<lparr>order_Status := final_status charged\<rparr>"
    and "err = (if final_status charged = OrderStatusFailed then Some (Sentinel Service_ErrPaymentDeclined) else None)"
    and "order_rows (e_timestamptz E) od' = Some (row, its)" and "stored w (order_ID od) = None"
    and "Charge E (ds_payments d) (charge_of (order_app E d) od) w1 = (Ret charged, w2)" and "w_exchanges w' = w_exchanges w2"
    and "stored w' = (stored w)(order_ID od \<mapsto> (recorded E w' (order_Status od) row, mset its))"
  using assms
proof (cases rule: app.CreateOrder_prefix)
  case (Goes_on od0 w0)
  note w0 = observed_state.untouchedD [OF Goes_on(2) assms(1)]
  from Goes_on(3) obtain od1 err1 w1 where create: "Create E od0 w0 = (Ret (od1, err1), w1)"
    and rest: "(case err1 of Some e \<Rightarrow> ret (None, Some (Wrapped (''persisting order: '' @ error_text e) e))
     | None \<Rightarrow> settle (order_app E d) od1) w1 = (Ret (Some od, err), w')"
    by (auto simp: persist_and_settle_def elim!: bindIO_RetE)
  note law = Create_law [OF w0(1) create]
  from rest have "err1 = None" and settle: "settle (order_app E d) od1 w1 = (Ret (Some od, err), w')"
    by (auto split: option.splits)
  with law w0 have od1: "order_for (order_app E d) req od1" and "added (e_timestamptz E) od1 (stored w) (stored w1)"
    using order_for_same [OF Goes_on(1)] by auto
  then obtain row its where rows: "order_rows (e_timestamptz E) od1 = Some (row, its)" and new: "stored w (order_ID od1) = None"
    and w1: "stored w1 = (stored w)(order_ID od1 \<mapsto> (row, mset its))" by (auto simp: added_def)
  then have "stored w1 (order_ID od1) = Some (row, mset its)" by simp
  from settle_run [OF settle this] obtain charged w2 where
    charge: "Charge E (ds_payments d) (charge_of (order_app E d) od1) w1 = (Ret charged, w2)"
    and od: "od = od1\<lparr>order_Status := final_status charged\<rparr>"
    and err: "err = (if final_status charged = OrderStatusFailed then Some (Sentinel Service_ErrPaymentDeclined) else None)"
    and ex: "w_exchanges w' = w_exchanges w2"
    and st: "stored w' = (stored w1)(order_ID od1 \<mapsto> (recorded E w' (order_Status od) row, mset its))" by blast
  have "charge_of (order_app E d) od = charge_of (order_app E d) od1" by (simp add: od charge_of_def)
  with charge have charge': "Charge E (ds_payments d) (charge_of (order_app E d) od) w1 = (Ret charged, w2)" by simp
  show thesis
    by (rule that [OF od1 od err rows _ charge' ex]) (simp_all add: od new, simp add: st w1 od)
qed auto

text \<open>C17. The result of a placed order: it is confirmed without an error, or failed with the error "payment declined". It is confirmed
  if and only if the charge could be sent and the last exchange of the call, which is the last attempt to charge this order,
  was answered with 200, 201 or 402 and a body whose status is \<open>SUCCEEDED\<close>.\<close>

theorem CreateOrder_outcome:
  assumes "ok_world w" and "CreateOrder (order_app E d) req w = (Ret (Some od, err), w')"
  shows "(order_Status od = OrderStatusConfirmed \<and> err = None
      \<or> order_Status od = OrderStatusFailed \<and> err = Some (Sentinel Service_ErrPaymentDeclined))
    \<and> (order_Status od = OrderStatusConfirmed \<longleftrightarrow> e_new_request E (rc_baseURL (ds_payments d) @ ''/api/v1/payments'') = None
      \<and> (\<exists>st b result. e_net E (w_exchanges w' - 1) (charge_post (ds_payments d) (charge_of (order_app E d) od)) = Inr (st, b)
          \<and> st \<in> {200, 201, 402} \<and> decode_body ''client'' ''ChargeResult'' result_fields zero_result b = Inr result
          \<and> result_Status result = ''SUCCEEDED''))"
  using assms
proof (rule placed_run)
  fix od' charged w1 w2
  assume "od = od'\<lparr>order_Status := final_status charged\<rparr>"
    and "err = (if final_status charged = OrderStatusFailed then Some (Sentinel Service_ErrPaymentDeclined) else None)"
    and charge: "Charge E (ds_payments d) (charge_of (order_app E d) od) w1 = (Ret charged, w2)" and "w_exchanges w' = w_exchanges w2"
  with Charge_last [OF charge] app_final_status [OF charge] show ?thesis
    by (auto simp: charge_succeeded_def status_defs payment_url_def)
qed

lemma order_for_row:
  assumes "order_for S req od" and "order_rows ts od = Some (row, its)"
  shows "row_user_id row = order_UserID od" "row_total_cents row = sint (order_TotalCents od)" "row_currency row = ''USD''"
    "row_status row = OrderStatusPending" "row_created_at row = ts (order_CreatedAt od)" "row_updated_at row = ts (order_UpdatedAt od)"
    "those (map (encode_item (order_ID od)) (order_Items od)) = Some its"
  using assms
  by (auto simp: order_rows_def encode_order_def order_for_def pg_int4_Some status_defs pg_varchar_def utf8_length_def
      utf8_continuation_def split: option.splits if_splits)

lemma stored_after:
  assumes "ok_world w" and "CreateOrder (order_app E d) req w = (Ret (Some od, err), w')"
  shows "stored w (order_ID od) = None \<and> (\<exists>row its. stored w' = (stored w)(order_ID od \<mapsto> (row, mset its))
    \<and> those (map (encode_item (order_ID od)) (order_Items od)) = Some its
    \<and> row_user_id row = order_UserID od \<and> row_total_cents row = sint (order_TotalCents od) \<and> row_currency row = ''USD''
    \<and> row_created_at row = e_timestamptz E (order_CreatedAt od)
    \<and> (case e_exec E (w_execs w' - 1) of
         ExecErr f \<Rightarrow> row_status row = OrderStatusPending \<and> row_updated_at row = e_timestamptz E (order_UpdatedAt od)
       | _ \<Rightarrow> row_status row = order_Status od \<and> row_updated_at row = e_timestamptz E (e_now E (w_nows w' - 1))))"
  using assms
proof (rule placed_run)
  fix od' charged row its
  assume od: "order_for (order_app E d) req od'" "od = od'\<lparr>order_Status := final_status charged\<rparr>"
    and rows: "order_rows (e_timestamptz E) od' = Some (row, its)" and new: "stored w (order_ID od) = None"
    and st: "stored w' = (stored w)(order_ID od \<mapsto> (recorded E w' (order_Status od) row, mset its))"
  from order_for_row [OF od(1) rows] od(2) new st show ?thesis
    by (intro conjI exI [of _ "recorded E w' (order_Status od) row"] exI [of _ its]) (auto split: exec_outcome.split)
qed

text \<open>C20. What is stored of a placed order, to the last field: it was new; its row has the total, the user and the currency of the order and its
  creation time; its items are stored as they were priced; and no other order is different. The last statement of the run is
  the one that records the status: unless exactly this statement failed without effect, the stored status is the one returned,
  with the time of the update; if it failed, the order is stored as pending although the caller was told otherwise.\<close>

theorem CreateOrder_stored:
  assumes "ok_world w" and "CreateOrder (order_app E d) req w = (Ret (Some od, err), w')"
  shows "stored w (order_ID od) = None \<and> (\<exists>row its. stored w' = (stored w)(order_ID od \<mapsto> (row, mset its))
    \<and> those (map (encode_item (order_ID od)) (order_Items od)) = Some its
    \<and> row_user_id row = order_UserID od \<and> row_total_cents row = sint (order_TotalCents od) \<and> row_currency row = ''USD''
    \<and> row_created_at row = e_timestamptz E (order_CreatedAt od)
    \<and> (case e_exec E (w_execs w' - 1) of
         ExecErr f \<Rightarrow> row_status row = OrderStatusPending \<and> row_updated_at row = e_timestamptz E (order_UpdatedAt od)
       | _ \<Rightarrow> row_status row = order_Status od \<and> row_updated_at row = e_timestamptz E (e_now E (w_nows w' - 1))))"
  by (rule stored_after [OF assms])

text \<open>C18. The items of a placed order are the lines of the request, in order and with the requested quantities, each priced by an answer
  of product-service for that product, which was active and had the quantity in stock; the user is the one of the request.\<close>

theorem CreateOrder_items:
  assumes "ok_world w" and "CreateOrder (order_app E d) req w = (Ret (Some od, err), w')"
  shows "e_uuid_parse E (req_UserID req) = Some (order_UserID od)
    \<and> list_all2 (\<lambda>line it. item_Quantity it = itemreq_Quantity line \<and> (\<exists>n b product.
        e_net E n (get_request (product_url (ds_products d) (itemreq_ProductID line))) = Inr (200, b)
        \<and> decode_body ''client'' ''ProductInfo'' product_fields zero_product b = Inr product
        \<and> product_IsActive product \<and> sint (itemreq_Quantity line) \<le> sint (product_StockQuantity product)
        \<and> item_UnitPriceCents it = product_PriceCents product \<and> item_SKU it = product_SKU product
        \<and> e_uuid_parse E (product_ID product) = Some (item_ProductID it))) (req_Items req) (order_Items od)"
  using assms
proof (cases rule: app.CreateOrder_E)
  case (Settled od' st charged wa wb wc wd upd k)
  then have "order_for (order_app E d) req od'" and "order_Items od = order_Items od'" "order_UserID od = order_UserID od'"
    by simp_all
  then show ?thesis
    by (fastforce simp: order_for_def fetched_line_def priced_as_def elim!: list.rel_mono_strong dest!: GetProduct_answer)
qed auto

text \<open>C21. The total of a placed order is the sum of price times quantity over its items, if that sum fits 64 bits; in general it is
  that sum modulo 2^64. It is never negative and fits the 32 bits of its column.\<close>

theorem CreateOrder_total:
  assumes "ok_world w" and "CreateOrder (order_app E d) req w = (Ret (Some od, err), w')"
  shows "order_TotalCents od = word_of_int (lines_cents (order_Items od))
    \<and> (in_int64 (lines_cents (order_Items od)) \<longrightarrow> sint (order_TotalCents od) = lines_cents (order_Items od))
    \<and> 0 \<le> sint (order_TotalCents od) \<and> sint (order_TotalCents od) < 2147483648"
  using assms
proof (cases rule: app.CreateOrder_E)
  case (Settled od' st charged wa wb wc wd upd k)
  then have total: "order_TotalCents od = word_total (order_Items od)" by (auto simp: order_for_def)
  obtain row its where row: "stored w' (order_ID od) = Some (row, its)" "row_total_cents row = sint (order_TotalCents od)"
    using stored_after [OF assms] by (auto simp del: exec_outcome.case)
  have "db_wf (w_db w')" using Settled(5) by (simp add: ok_world_def)
  from stored_row_ok [OF this row(1)] have "0 \<le> sint (order_TotalCents od)" "sint (order_TotalCents od) < 2147483648"
    by (simp_all add: order_row_ok_def in_int4_def row(2))
  with total Settled(4) sint_word_total [of "order_Items od"] word_total_eq [of "order_Items od"]
  show ?thesis by simp
qed auto

subsection \<open>Reading orders\<close>

lemma GetOrder_E:
  assumes "GetOrder (order_app E d) i w = (r, w')"
  obtains (Found) row irows where "r = Ret (Inr (order_of_row row (map item_of_row irows)))"
      and "stored w i = Some (row, mset irows)" and "w_db w' = w_db w"
    | (Missing) "r = Ret (Inl (Sentinel Service_ErrOrderNotFound))" and "stored w i = None" and "w_db w' = w_db w"
    | (Broken) f where "r = Ret (Inl (Foreign f))" and "w_db w' = w_db w"
proof -
  obtain r1 w1 where get: "GetByID E i w = (r1, w1)" by fastforce
  from get show thesis
  proof (cases rule: GetByID_E)
    case (Found row irows)
    with get assms that(1) show thesis by (auto simp: GetOrder_def bindIO_Ret)
  next
    case Missing
    with get assms that(2) show thesis by (auto simp: GetOrder_def bindIO_Ret)
  next
    case (Broken f)
    with get assms that(3) show thesis by (auto simp: GetOrder_def bindIO_Ret)
  qed
qed

text \<open>Reading one order changes nothing, always returns, and tells the truth: the order it returns is the stored row with exactly its
  items, and "order not found" comes only for an id that is not stored. Any other error is the database's, never a
  sentinel of the service.\<close>

lemma GetOrder_correct:
  assumes "GetOrder (order_app E d) i w = (r, w')"
  shows "w_db w' = w_db w \<and> (\<exists>res. r = Ret res \<and> (case res of
      Inr od \<Rightarrow> \<exists>row irows. stored w i = Some (row, mset irows) \<and> od = order_of_row row (map item_of_row irows)
    | Inl e \<Rightarrow> e = Sentinel Service_ErrOrderNotFound \<and> stored w i = None \<or> (\<exists>f. e = Foreign f)))"
  using assms by (cases rule: GetOrder_E) auto

text \<open>C25. Round trip through the service: what \<open>GetOrder\<close> reads afterwards is, field by field, the order \<open>CreateOrder\<close> returned, with its items in any
  order, its creation time in the resolution of the column, and its update time that of the recording of the status. Only when the
  last statement of \<open>CreateOrder\<close>, which records the status, failed without effect, is the order read as pending, with the update time
  it was created with.\<close>

theorem CreateOrder_GetOrder_roundtrip:
  assumes "ok_world w" and "CreateOrder (order_app E d) req w = (Ret (Some od, err), w1)"
    and "GetOrder (order_app E d) (order_ID od) w1 = (Ret (Inr got), w2)"
    and "\<forall>it\<in>set (order_Items od). utf8_length (item_SKU it) \<le> 64"
  shows "mset (order_Items got) = mset (order_Items od)
    \<and> got = (case e_exec E (w_execs w1 - 1) of
        ExecErr f \<Rightarrow> od\<lparr>order_Status := OrderStatusPending, order_Items := order_Items got,
          order_CreatedAt := e_timestamptz E (order_CreatedAt od), order_UpdatedAt := e_timestamptz E (order_UpdatedAt od)\<rparr>
      | _ \<Rightarrow> od\<lparr>order_Items := order_Items got, order_CreatedAt := e_timestamptz E (order_CreatedAt od),
          order_UpdatedAt := e_timestamptz E (e_now E (w_nows w1 - 1))\<rparr>)"
proof -
  from stored_after [OF assms(1,2)] obtain row its where st: "stored w1 (order_ID od) = Some (row, mset its)"
    and its: "those (map (encode_item (order_ID od)) (order_Items od)) = Some its"
    and row: "row_user_id row = order_UserID od" "row_total_cents row = sint (order_TotalCents od)" "row_currency row = ''USD''"
      "row_created_at row = e_timestamptz E (order_CreatedAt od)"
      "case e_exec E (w_execs w1 - 1) of
         ExecErr f \<Rightarrow> row_status row = OrderStatusPending \<and> row_updated_at row = e_timestamptz E (order_UpdatedAt od)
       | _ \<Rightarrow> row_status row = order_Status od \<and> row_updated_at row = e_timestamptz E (e_now E (w_nows w1 - 1))"
    by (auto simp del: exec_outcome.case)
  have usd: "order_Currency od = ''USD''"
    by (rule placed_run [OF assms(1,2)]) (auto simp: order_for_def)
  from assms(3) obtain irows where "mset irows = mset its" and got: "got = order_of_row row (map item_of_row irows)"
    using st by (cases rule: GetOrder_E) auto
  then have "mset (map item_of_row irows) = mset (order_Items od)"
    using encode_items_of_rows [OF its assms(4)] by (metis mset_map)
  with row usd stored_id [OF st] show ?thesis
    by (cases od) (auto simp: got order_of_row_def split: exec_outcome.splits)
qed

subsection \<open>Concrete orders\<close>

text \<open>A shop with one user and one product, whose payments succeed.\<close>

definition shop_net :: "nat \<Rightarrow> http_request \<Rightarrow> foreign + (goint \<times> body)" where
  "shop_net n rq = Inr (
     if rq_method rq = ''POST''
     then (201, JsonBody (JObject [(''transactionId'', JString ''tx-1''), (''status'', JString ''SUCCEEDED'')]))
     else if rq_url rq = ''http://users/api/v1/users/1'' then (200, JsonBody JNull)
     else if rq_url rq = ''http://products/api/v1/products/2''
     then (200, JsonBody (product_response_json \<lparr>product_ID = ''2'', product_SKU = ''SKU-MOUSE'', product_Name = ''Mouse'',
       product_PriceCents = 1999, product_StockQuantity = 10, product_IsActive = True\<rparr> JNull JNull JNull JNull JNull))
     else (404, JsonBody JNull))"

definition shop_env :: env where
  "shop_env = calm_env\<lparr>e_net := shop_net\<rparr>"

definition shop_clients :: downstream where
  "shop_clients = \<lparr>ds_users = NewResilientClient ''http://users'' ''user-service'' 3000000000 3 200000000,
     ds_products = NewResilientClient ''http://products'' ''product-service'' 3000000000 3 200000000,
     ds_payments = NewResilientClient ''http://payments'' ''payment-service'' 3000000000 3 200000000\<rparr>"

definition shop_request :: create_order_request where
  "shop_request = \<lparr>req_UserID = ''1'', req_Items = [\<lparr>itemreq_ProductID = ''2'', itemreq_Quantity = 2\<rparr>]\<rparr>"

definition shop_order :: order_t where
  "shop_order = \<lparr>order_ID = 1, order_UserID = 1, order_Status = ''CONFIRMED'', order_TotalCents = 3998, order_Currency = ''USD'',
     order_Items = [\<lparr>item_ID = 2, item_ProductID = 2, item_SKU = ''SKU-MOUSE'', item_Quantity = 2, item_UnitPriceCents = 1999\<rparr>],
     order_CreatedAt = 0, order_UpdatedAt = 0\<rparr>"

lemmas concrete_app_simps = shop_net_def shop_env_def shop_clients_def shop_request_def shop_order_def
  CreateOrder_def place_order_def persist_and_settle_def settle_def log_charge_def log_update_def final_status_def
  new_order_def new_item_def charge_of_def zero_time_def decimal_uuid_parse_def decimal_uuid_string_def is_digit_def
  digits_value_def digit_value_def GetProduct_def read_product_def user_url_def product_url_def payment_url_def charge_post_def
  decode_product_response decode_charge_result concrete_client_simps concrete_repo_simps

lemma shop_created: "fst (CreateOrder (order_app shop_env shop_clients) shop_request (start_world empty_db))
    = Ret (Some shop_order, None)"
  by (simp add: concrete_app_simps del: decode_body.simps)

definition shop_world :: world where
  "shop_world = snd (CreateOrder (order_app shop_env shop_clients) shop_request (start_world empty_db))"

lemma shop_run: "CreateOrder (order_app shop_env shop_clients) shop_request (start_world empty_db)
    = (Ret (Some shop_order, None), shop_world)"
  using shop_created by (simp add: shop_world_def prod_eq_iff)

lemma shop_db: "w_db shop_world =
    \<lparr>db_orders = [\<lparr>row_id = 1, row_user_id = 1, row_status = ''CONFIRMED'', row_total_cents = 3998, row_currency = ''USD'',
       row_created_at = 0, row_updated_at = 1\<rparr>],
     db_items = [\<lparr>irow_id = 2, irow_order_id = 1, irow_product_id = 2, irow_sku = ''SKU-MOUSE'', irow_quantity = 2,
       irow_unit_price_cents = 1999\<rparr>]\<rparr>"
  unfolding shop_world_def by (simp add: concrete_app_simps del: decode_body.simps)

lemma start_world_ok: "ok_world (start_world empty_db)"
  by (simp add: ok_world_def start_world_def empty_db_wf)

text \<open>Two lines of one order for the same product, each for all that is in stock.\<close>

definition bulk_request :: create_order_request where
  "bulk_request = \<lparr>req_UserID = ''1'', req_Items = [\<lparr>itemreq_ProductID = ''2'', itemreq_Quantity = 10\<rparr>,
     \<lparr>itemreq_ProductID = ''2'', itemreq_Quantity = 10\<rparr>]\<rparr>"

theorem CreateOrder_refused_witness:
  "fst (CreateOrder (order_app shop_env shop_clients) (shop_request\<lparr>req_UserID := ''nobody''\<rparr>) (start_world empty_db))
      = Ret (None, Some (errorf_w (Sentinel Service_ErrValidation) '': invalid userId''))
    \<and> charges (snd (CreateOrder (order_app shop_env shop_clients) (shop_request\<lparr>req_UserID := ''nobody''\<rparr>)
        (start_world empty_db))) = []"
proof -
  have run: "CreateOrder (order_app shop_env shop_clients) (shop_request\<lparr>req_UserID := ''nobody''\<rparr>) (start_world empty_db)
      = (Ret (None, Some (errorf_w (Sentinel Service_ErrValidation) '': invalid userId'')), start_world empty_db)"
    by (simp add: CreateOrder_def shop_env_def calm_env_def shop_request_def decimal_uuid_parse_def is_digit_def)
  with CreateOrder_refused [OF start_world_ok run] show ?thesis by (simp add: start_world_def)
qed

theorem CreateOrder_outcome_witness:
  "\<exists>n st b. e_net shop_env n (charge_post (ds_payments shop_clients) (charge_of (order_app shop_env shop_clients) shop_order))
      = Inr (st, b) \<and> st \<in> {200, 201, 402}"
  using CreateOrder_outcome [OF start_world_ok shop_run] by (auto simp: shop_order_def status_defs)

theorem CreateOrder_stored_witness:
  "\<exists>row its. stored shop_world 1 = Some (row, mset its) \<and> row_total_cents row = 3998"
  using CreateOrder_stored [OF start_world_ok shop_run] by (auto simp: shop_order_def)

theorem CreateOrder_items_witness:
  "list_all2 (\<lambda>line it. item_Quantity it = itemreq_Quantity line) (req_Items shop_request) (order_Items shop_order)"
  using CreateOrder_items [OF start_world_ok shop_run] by (auto elim: list.rel_mono_strong)

theorem CreateOrder_total_witness:
  "sint (order_TotalCents shop_order) = lines_cents (order_Items shop_order) \<and> lines_cents (order_Items shop_order) = 3998"
proof -
  have "lines_cents (order_Items shop_order) = 3998" by (simp add: shop_order_def line_cents_def)
  with CreateOrder_total [OF start_world_ok shop_run] show ?thesis by (simp add: in_int64_def)
qed

lemma shop_get: "GetOrder (order_app shop_env shop_clients) 1 shop_world =
    (Ret (Inr (shop_order\<lparr>order_UpdatedAt := 1\<rparr>)), snd (GetOrder (order_app shop_env shop_clients) 1 shop_world))"
  by (simp add: GetOrder_def GetByID_def getItems_def bindIO_def run_query_def shop_env_def calm_env_def shop_db
      select_order_def select_items_def order_of_row_def item_of_row_def shop_order_def)

theorem CreateOrder_GetOrder_roundtrip_witness:
  "mset (order_Items (shop_order\<lparr>order_UpdatedAt := 1\<rparr>)) = mset (order_Items shop_order)"
proof -
  have "order_ID shop_order = 1" and short: "\<forall>it\<in>set (order_Items shop_order). utf8_length (item_SKU it) \<le> 64"
    by (simp_all add: shop_order_def utf8_length_def utf8_continuation_def)
  then have "GetOrder (order_app shop_env shop_clients) (order_ID shop_order) shop_world =
      (Ret (Inr (shop_order\<lparr>order_UpdatedAt := 1\<rparr>)), snd (GetOrder (order_app shop_env shop_clients) 1 shop_world))"
    by (simp only: shop_get [symmetric])
  from CreateOrder_GetOrder_roundtrip [OF start_world_ok shop_run this short] show ?thesis by (rule conjunct1)
qed

end
