(* ===== verification/Order_Progress.thy ===== *)
theory Order_Progress
  imports Order_App
begin

section \<open>Orders are answered and placed\<close>

text \<open>
  The other direction of the theorems of \<open>Order_App\<close>: placing an order always returns when no retry count is negative, and it
  ends with a confirmed order whenever the downstream services answer well within the retries and the database works. The hypotheses of
  the second are executable descriptions of answers and requests.
\<close>

subsection \<open>No panic\<close>

lemma downstream_call_returns:
  assumes "0 \<le> sint (rc_retryAttempts c)"
  shows "returns (downstream_call E c m p rq f g)"
  unfolding returns_def
proof
  fix w
  obtain r w' where "downstream_call E c m p rq f g w = (r, w')" by fastforce
  moreover from this have "\<exists>x. r = Ret x" by (cases rule: downstream_call_E) (use assms in auto)
  ultimately show "\<exists>x w'. downstream_call E c m p rq f g w = (Ret x, w')" by blast
qed

lemma primitives_return:
  "returns (pool_Begin E)" "returns tx_snapshot" "returns (tx_Exec E ev st db)" "returns (tx_Commit E db)"
  "returns tx_Rollback" "returns (run_query E ev sel)" "returns (time_Now E)" "returns (uuid_New E)"
  "returns (exec_update_status E i s t)" "returns (log_at lvl msg attrs)"
  by (auto simp: returns_def pool_Begin_def tx_snapshot_def tx_Exec_def tx_Commit_def tx_Rollback_def
      run_query_def exec_update_status_def Let_def effect_defs split: exec_outcome.splits option.splits prod.splits)

lemma insert_items_returns: "returns (insert_items E oid its db)"
  by (induction its arbitrary: db)
    (auto simp: fill_item_id_def intro!: primitives_return returns_bindIO returns_ret split: sum.splits prod.splits)

lemma repository_returns:
  "returns (Create E od)" "returns (GetByID E i)" "returns (ListByUser E u)" "returns (UpdateStatus E i s)"
  by (auto simp: Create_def create_tx_def GetByID_def ListByUser_def UpdateStatus_def getItems_def Let_def
      intro!: primitives_return insert_items_returns returns_bindIO returns_ret split: sum.splits prod.splits option.splits)

text \<open>No client has a negative retry count.\<close>

definition patient :: "downstream \<Rightarrow> bool" where
  "patient d \<longleftrightarrow> 0 \<le> sint (rc_retryAttempts (ds_users d)) \<and> 0 \<le> sint (rc_retryAttempts (ds_products d))
     \<and> 0 \<le> sint (rc_retryAttempts (ds_payments d))"

lemma clients_return:
  assumes "patient d"
  shows "returns (VerifyUserExists E (ds_users d) u)" "returns (GetProduct E (ds_products d) pid)"
    "returns (Charge E (ds_payments d) cr)"
  using assms by (simp_all add: patient_def client_calls downstream_call_returns)

lemma price_items_returns: "patient d \<Longrightarrow> returns (price_items (order_app E d) reqs cents items)"
  by (induction reqs arbitrary: cents items)
    (auto intro!: returns_bindIO returns_ret clients_return primitives_return split: sum.splits option.splits)

lemma CreateOrder_returns_from_any:
  assumes "patient d"
  shows "returns (CreateOrder (order_app E d) req)"
  using assms
  by (auto simp: CreateOrder_def place_order_def persist_and_settle_def settle_def log_charge_def log_update_def
      intro!: returns_bindIO returns_ret clients_return primitives_return repository_returns price_items_returns
      split: sum.splits option.splits prod.splits)

text \<open>C23. Placing an order never panics and always returns, in every environment and for every request, when no client has a
  negative retry count; and so does reading orders, with any configuration.\<close>

theorem CreateOrder_returns:
  assumes "patient d"
  shows "(\<exists>res w'. CreateOrder (order_app E d) req w = (Ret res, w'))
    \<and> (\<exists>res w'. GetOrder (order_app E d') i w = (Ret res, w')) \<and> (\<exists>res w'. ListOrdersByUser (order_app E d') u w = (Ret res, w'))"
proof -
  have "returns (GetOrder (order_app E d') i)" "returns (ListOrdersByUser (order_app E d') u)"
    by (auto simp: GetOrder_def ListOrdersByUser_def intro!: returns_bindIO repository_returns split: sum.splits)
  with CreateOrder_returns_from_any [OF assms] show ?thesis by (auto elim: returnsE simp: returns_def)
qed

subsection \<open>Good answers\<close>

text \<open>
  The answers of a downstream service that let an order through. Exchanges may fail transiently, with an error of the network or a 502,
  503 or 504, if among any \<open>retryAttempts + 1\<close> of them that follow each other one does not, and if the caller waits for
  the retries; an answer that is not transient is one that \<open>P\<close> accepts.
\<close>

definition answered :: "env \<Rightarrow> resilient_client \<Rightarrow> http_request \<Rightarrow> (http_response \<Rightarrow> bool) \<Rightarrow> bool" where
  "answered E c rq P \<longleftrightarrow> e_new_request E (rq_url rq) = None
     \<and> (\<forall>n. \<exists>k. int k \<le> sint (rc_retryAttempts c) \<and> transient E c rq (n + k) = None \<and> (k = 0 \<or> (\<forall>m. e_wait E m = None)))
     \<and> (\<forall>n. transient E c rq n = None \<longrightarrow> P (response_at E rq n))"

lemma do_loop_answered:
  assumes "a + int k \<le> sint (rc_retryAttempts c)" and "transient E c rq (w_exchanges w + k) = None"
    and "a = 0 \<and> k = 0 \<or> (\<forall>m. e_wait E m = None)"
  shows "\<exists>n w'. do_loop E c m p (Inr rq) a le w = (Ret (Some (response_at E rq n), None), w') \<and> transient E c rq n = None"
  using assms
proof (induction k arbitrary: a le w)
  case 0
  then show ?case by (auto simp: do_loop_Inr)
next
  case (Suc k)
  then have a: "a \<le> sint (rc_retryAttempts c)" and patience: "\<forall>m. e_wait E m = None" by auto
  show ?case
  proof (cases "transient E c rq (w_exchanges w)")
    case None
    with a patience show ?thesis by (auto simp: do_loop_Inr)
  next
    case (Some e)
    from Suc.IH [of "a + 1" "sent E c rq (after_wait c m p a w)" "Some e"] Suc.prems(1,2) patience
    have "\<exists>n w'. do_loop E c m p (Inr rq) (a + 1) (Some e) (sent E c rq (after_wait c m p a w))
        = (Ret (Some (response_at E rq n), None), w') \<and> transient E c rq n = None" by (simp add: sent_def)
    with a patience Some show ?thesis by (simp add: do_loop_Inr [of E c m p rq a])
  qed
qed

lemma call_answered:
  assumes "answered E c rq P"
  obtains resp w' where "downstream_call E c m p rq f g w = (Ret (f resp), w')" and "P resp" and "downstream_only w w'"
proof -
  from assms obtain k where "int k \<le> sint (rc_retryAttempts c)" "transient E c rq (w_exchanges w + k) = None"
    "k = 0 \<or> (\<forall>m. e_wait E m = None)" and built: "e_new_request E (rq_url rq) = None" unfolding answered_def by blast
  with do_loop_answered [of 0 k c E rq w m p None] obtain n w1 where
    "do_loop E c m p (Inr rq) 0 None w = (Ret (Some (response_at E rq n), None), w1)" and n: "transient E c rq n = None" by auto
  with built obtain w' where run: "downstream_call E c m p rq f g w = (Ret (f (response_at E rq n)), w')"
    by (simp add: downstream_call_def bindIO_def rc_Do_def http_NewRequest_def handle_response_def close_body_def emit_def)
  moreover have "P (response_at E rq n)" using assms n by (simp add: answered_def)
  ultimately show thesis using downstream_call_frame(1) [OF run] by (rule that)
qed

text \<open>A line of a request that can be ordered, when product-service answers \<open>info\<close>.\<close>

definition orderable :: "env \<Rightarrow> downstream \<Rightarrow> (string \<Rightarrow> product_info) \<Rightarrow> create_order_item_request \<Rightarrow> bool" where
  "orderable E d info line \<longleftrightarrow>
     (let product = info (itemreq_ProductID line) in
        answered E (ds_products d) (get_request (product_url (ds_products d) (itemreq_ProductID line)))
          (\<lambda>resp. read_product resp = Inr product)
      \<and> product_IsActive product \<and> sint (itemreq_Quantity line) \<le> sint (product_StockQuantity product)
      \<and> e_uuid_parse E (product_ID product) \<noteq> None
      \<and> 0 < sint (itemreq_Quantity line) \<and> in_int4 (sint (itemreq_Quantity line))
      \<and> 0 \<le> sint (product_PriceCents product) \<and> in_int4 (sint (product_PriceCents product))
      \<and> utf8_length (product_SKU product) \<le> 64 \<and> CHR 0x00 \<notin> set (product_SKU product))"

text \<open>The items such lines become, with ids drawn from the \<open>n\<close>-th on.\<close>

fun drawn_items :: "env \<Rightarrow> (string \<Rightarrow> product_info) \<Rightarrow> nat \<Rightarrow> create_order_item_request list \<Rightarrow> order_item list" where
  "drawn_items E info n [] = []"
| "drawn_items E info n (line # reqs) =
     (let product = info (itemreq_ProductID line) in
       new_item (e_uuid E n) (the (e_uuid_parse E (product_ID product))) product line # drawn_items E info (Suc n) reqs)"

lemma price_items_answered:
  assumes "\<forall>line\<in>set reqs. orderable E d info line"
  shows "\<exists>w'. price_items (order_app E d) reqs cents items w =
      (Ret (Inr (cents + word_total (drawn_items E info (w_uuids w) reqs), items @ drawn_items E info (w_uuids w) reqs)), w')
    \<and> w_db w' = w_db w \<and> w_execs w' = w_execs w"
  using assms
proof (induction reqs arbitrary: cents items w)
  case Nil
  then show ?case by simp
next
  case (Cons line reqs)
  let ?product = "info (itemreq_ProductID line)"
  from Cons.prems have line: "orderable E d info line" and reqs: "\<forall>line\<in>set reqs. orderable E d info line" by simp_all
  then obtain i where i: "e_uuid_parse E (product_ID ?product) = Some i" by (auto simp: orderable_def Let_def)
  have "answered E (ds_products d) (get_request (product_url (ds_products d) (itemreq_ProductID line)))
      (\<lambda>resp. read_product resp = Inr ?product)" using line by (simp add: orderable_def Let_def)
  from call_answered [OF this] obtain w1 where
    get: "GetProduct E (ds_products d) (itemreq_ProductID line) w = (Ret (Inr ?product), w1)" and "downstream_only w w1"
    unfolding client_calls by metis
  then have w1: "w_db w1 = w_db w" "w_uuids w1 = w_uuids w" "w_execs w1 = w_execs w" by (simp_all add: frame_simps)
  define w2 where "w2 = w1\<lparr>w_uuids := Suc (w_uuids w)\<rparr>"
  have w2: "uuid_New E w1 = (Ret (e_uuid E (w_uuids w)), w2)" by (simp add: uuid_New_def w1 w2_def)
  from Cons.IH [OF reqs, of "cents + product_PriceCents ?product * itemreq_Quantity line"
      "items @ [new_item (e_uuid E (w_uuids w)) i ?product line]" w2]
  show ?case using get w2 i line w1
    by (auto simp: bindIO_Ret w2_def orderable_def Let_def new_item_def ac_simps)
qed

subsection \<open>A working database\<close>

definition reliable_db :: "env \<Rightarrow> bool" where
  "reliable_db E \<longleftrightarrow> (\<forall>n. e_exec E n = ExecOk)"

text \<open>The statements from the \<open>n\<close>-th on: \<open>k\<close> of them work.\<close>

definition works :: "env \<Rightarrow> nat \<Rightarrow> nat \<Rightarrow> bool" where
  "works E n k \<longleftrightarrow> (\<forall>m\<in>{n..<n + k}. e_exec E m = ExecOk)"

lemma reliable_works: "reliable_db E \<Longrightarrow> works E n k"
  by (simp add: reliable_db_def works_def)

lemma worksD: "works E n k \<Longrightarrow> i < k \<Longrightarrow> e_exec E (n + i) = ExecOk"
  by (simp add: works_def)

text \<open>The ids drawn from the \<open>n\<close>-th on: \<open>k\<close> of them are not nil, pairwise different, and not in the tables.\<close>

definition fresh_ids :: "env \<Rightarrow> database \<Rightarrow> nat \<Rightarrow> nat \<Rightarrow> bool" where
  "fresh_ids E db n k \<longleftrightarrow> distinct (map (e_uuid E) [n..<n + k])
     \<and> (\<forall>i\<in>{n..<n + k}. e_uuid E i \<noteq> 0 \<and> e_uuid E i \<notin> row_id ` set (db_orders db) \<and> e_uuid E i \<notin> irow_id ` set (db_items db))"

lemma insert_items_succeeds:
  assumes "works E (w_execs w) (length its)" and "\<forall>it\<in>set its. item_ID it \<noteq> 0 \<and> (\<exists>row. encode_item oid it = Some row \<and> item_row_ok row)"
    and "distinct (map item_ID its)" and "set (map item_ID its) \<inter> irow_id ` set (db_items db) = {}"
    and "oid \<in> row_id ` set (db_orders db)"
  shows "\<exists>db' w'. insert_items E oid its db w = (Ret (its, Inr db'), w') \<and> w_execs w' = w_execs w + length its"
  using assms
proof (induction its arbitrary: db w)
  case Nil
  then show ?case by simp
next
  case (Cons it its)
  then obtain row where row: "encode_item oid it = Some row" "item_row_ok row" and nz: "item_ID it \<noteq> 0" by auto
  from row(1) have ids: "irow_id row = item_ID it" "irow_order_id row = oid"
    by (auto simp: encode_item_def split: option.splits)
  define db1 where "db1 = db\<lparr>db_items := db_items db @ [row]\<rparr>"
  have ins: "insert_item row db = Some db1"
    using Cons.prems(4,5) row(2) ids by (auto simp: insert_item_def db1_def)
  define w1 where "w1 = w\<lparr>w_execs := Suc (w_execs w), w_trace := w_trace w @ [EvDb (DbInsertItem oid (item_ID it))]\<rparr>"
  have "tx_Exec E (DbInsertItem oid (item_ID it)) (\<lambda>db. Option.bind (encode_item oid it) (\<lambda>row. insert_item row db)) db w
      = (Ret (Inr db1), w1)"
    using worksD [OF Cons.prems(1), of 0] row(1) ins by (simp add: tx_Exec_def w1_def)
  moreover have "\<exists>db' w'. insert_items E oid its db1 w1 = (Ret (its, Inr db'), w') \<and> w_execs w' = w_execs w1 + length its"
    using Cons.prems ids by (intro Cons.IH) (auto simp: db1_def w1_def works_def)
  ultimately show ?case using nz by (auto simp: bindIO_Ret fill_item_id_def w1_def)
qed

lemma Create_succeeds:
  assumes "works E (w_execs w) (length (order_Items od) + 3)" and "db_wf (w_db w)" and "order_ID od \<notin> row_id ` set (db_orders (w_db w))"
    and "\<exists>row. encode_order (e_timestamptz E) (od\<lparr>order_CreatedAt := now, order_UpdatedAt := now\<rparr>) = Some row \<and> order_row_ok row"
    and "\<forall>it\<in>set (order_Items od). item_ID it \<noteq> 0 \<and> (\<exists>row. encode_item (order_ID od) it = Some row \<and> item_row_ok row)"
    and "distinct (map item_ID (order_Items od))"
    and "set (map item_ID (order_Items od)) \<inter> irow_id ` set (db_items (w_db w)) = {}"
    and "now = e_now E (w_nows w)"
  shows "\<exists>w'. Create E od w = (Ret (od\<lparr>order_CreatedAt := now, order_UpdatedAt := now\<rparr>, None), w')
    \<and> w_execs w' = w_execs w + length (order_Items od) + 3"
proof -
  let ?od = "od\<lparr>order_CreatedAt := now, order_UpdatedAt := now\<rparr>"
  obtain row where row: "encode_order (e_timestamptz E) ?od = Some row" "order_row_ok row" using assms(4) by blast
  then have id: "row_id row = order_ID od" using encode_order_id by fastforce
  define db1 where "db1 = (w_db w)\<lparr>db_orders := db_orders (w_db w) @ [row]\<rparr>"
  have ins: "insert_order row (w_db w) = Some db1"
    using assms(3) row(2) id by (simp add: insert_order_def db1_def)
  obtain wa where started: "pool_Begin E w = (Ret None, wa)" and wa: "w_db wa = w_db w" "w_nows wa = w_nows w"
      "w_execs wa = Suc (w_execs w)"
    using worksD [OF assms(1), of 0] by (simp add: pool_Begin_def)
  obtain wb where time: "time_Now E wa = (Ret now, wb)" and wb: "w_execs wb = Suc (w_execs w)"
    using assms(8) wa by (simp add: time_Now_def)
  obtain wc where order: "tx_Exec E (DbInsertOrder (order_ID ?od))
      (\<lambda>db. Option.bind (encode_order (e_timestamptz E) ?od) (\<lambda>row. insert_order row db)) (w_db w) wb = (Ret (Inr db1), wc)"
    and wc: "w_execs wc = w_execs w + 2"
    using worksD [OF assms(1), of 1] row(1) ins wb by (simp add: tx_Exec_def)
  have "works E (w_execs wc) (length (order_Items od))" using assms(1) by (simp add: works_def wc)
  then obtain db2 wd where items: "insert_items E (order_ID od) (order_Items od) db1 wc = (Ret (order_Items od, Inr db2), wd)"
    and wd: "w_execs wd = w_execs w + length (order_Items od) + 2"
    using insert_items_succeeds [where E = E and w = wc and db = db1, OF _ assms(5,6)] assms(7) id wc by (auto simp: db1_def)
  obtain we where "tx_Commit E db2 wd = (Ret None, we)" and "w_execs we = w_execs w + length (order_Items od) + 3"
    using worksD [OF assms(1), of "length (order_Items od) + 2"] by (simp add: tx_Commit_def Let_def wd add.assoc)
  with started time order items wa show ?thesis
    by (auto simp: Create_def create_tx_def bindIO_Ret tx_snapshot_def bindIO_def tx_Rollback_def emit_def)
qed

subsection \<open>A placed order\<close>

text \<open>Every charge is answered with a success.\<close>

definition payable :: "env \<Rightarrow> downstream \<Rightarrow> bool" where
  "payable E d \<longleftrightarrow> (\<forall>cr. answered E (ds_payments d) (charge_post (ds_payments d) cr)
     (\<lambda>resp. \<exists>result. read_charge resp = Inr result \<and> result_Status result = ''SUCCEEDED''))"

lemma drawn_items_ids: "map item_ID (drawn_items E info n reqs) = map (e_uuid E) [n..<n + length reqs]"
proof (induction reqs arbitrary: n)
  case (Cons line reqs)
  have "[n..<n + length (line # reqs)] = n # [Suc n..<Suc n + length reqs]" by (simp add: upt_conv_Cons del: upt_Suc)
  with Cons [of "Suc n"] show ?case by (simp add: Let_def new_item_def del: upt_Suc)
qed simp

lemma orderable_encoded:
  assumes "orderable E d info line"
  shows "\<exists>row. encode_item oid (new_item i j (info (itemreq_ProductID line)) line) = Some row \<and> item_row_ok row"
  using assms by (simp add: orderable_def Let_def new_item_def encode_item_def pg_int4_def pg_varchar_def item_row_ok_def)

lemma drawn_items_encoded:
  assumes "\<forall>line\<in>set reqs. orderable E d info line"
  shows "\<forall>it\<in>set (drawn_items E info n reqs). \<exists>row. encode_item oid it = Some row \<and> item_row_ok row"
  using assms
proof (induction reqs arbitrary: n)
  case (Cons line reqs)
  then show ?case using orderable_encoded [of E d info line] by (simp add: Let_def)
qed simp

lemma drawn_items_nonneg:
  "\<forall>line\<in>set reqs. orderable E d info line \<Longrightarrow> 0 \<le> lines_cents (drawn_items E info n reqs)"
  by (induction reqs arbitrary: n) (auto simp: Let_def new_item_def line_cents_def orderable_def)

lemma log_update_returns: "\<exists>w'. log_update (order_app E d) od upd w = (Ret (), w')"
  by (auto simp: log_update_def log_at_def emit_def split: option.split)

lemma log_update_posts: "log_update (order_app E d) od upd w = (r, w') \<Longrightarrow> charges w' = charges w"
  by (auto simp: log_update_def log_at_def emit_def split: option.splits)

text \<open>Persisting and settling, with the statements up to the commit working: the outcome of the statement after them, which records the status,
  does not change the reply.\<close>

lemma persist_succeeds:
  assumes "works E (w_execs w) (length (order_Items od) + 3)" and "payable E d" and "ok_world w" and "order_Status od = OrderStatusPending"
    and "order_Currency od = ''USD''" and "0 \<le> sint (order_TotalCents od)" and "in_int4 (sint (order_TotalCents od))"
    and "order_ID od \<notin> row_id ` set (db_orders (w_db w))"
    and "\<forall>it\<in>set (order_Items od). item_ID it \<noteq> 0 \<and> (\<exists>row. encode_item (order_ID od) it = Some row \<and> item_row_ok row)"
    and "distinct (map item_ID (order_Items od))"
    and "set (map item_ID (order_Items od)) \<inter> irow_id ` set (db_items (w_db w)) = {}"
  shows "\<exists>od' w'. persist_and_settle (order_app E d) od w = (Ret (Some od', None), w')
    \<and> order_Status od' = OrderStatusConfirmed \<and> order_ID od' = order_ID od \<and> order_Items od' = order_Items od
    \<and> w_execs w' = w_execs w + length (order_Items od) + 4 \<and> charges w' \<noteq> charges w"
proof -
  let ?now = "e_now E (w_nows w)"
  let ?od = "od\<lparr>order_CreatedAt := ?now, order_UpdatedAt := ?now\<rparr>"
  have "db_wf (w_db w)" using assms(3) by (simp add: ok_world_def)
  moreover have "\<exists>row. encode_order (e_timestamptz E) ?od = Some row \<and> order_row_ok row"
    using assms(4-7) by (auto simp: encode_order_def pg_varchar_def pg_int4_def order_row_ok_def status_defs utf8_length_def
        utf8_continuation_def)
  ultimately obtain w1 where create: "Create E od w = (Ret (?od, None), w1)" and n1: "w_execs w1 = w_execs w + length (order_Items od) + 3"
    using Create_succeeds [OF assms(1) _ assms(8) _ assms(9-11) refl] by blast
  from Create_law [OF assms(3) create] obtain row its where ok1: "ok_world w1" and posts1: "charges w1 = charges w"
    and st1: "stored w1 (order_ID od) = Some (row, its)" by (auto simp: added_def)
  let ?cr = "charge_of (order_app E d) ?od"
  have "answered E (ds_payments d) (charge_post (ds_payments d) ?cr)
     (\<lambda>resp. \<exists>result. read_charge resp = Inr result \<and> result_Status result = ''SUCCEEDED'')"
    using assms(2) by (simp add: payable_def)
  note charged = call_answered [OF this]
  obtain resp w2 where "Charge E (ds_payments d) ?cr w1 = (Ret (read_charge resp), w2)" and only: "downstream_only w1 w2"
    and "\<exists>result. read_charge resp = Inr result \<and> result_Status result = ''SUCCEEDED''"
    unfolding client_calls using charged by metis
  then obtain result where charge: "Charge E (ds_payments d) ?cr w1 = (Ret (Inr result), w2)"
    and "result_Status result = ''SUCCEEDED''" by auto
  with only have w2: "w_db w2 = w_db w1" "w_execs w2 = w_execs w1" and final: "final_status (Inr result) = OrderStatusConfirmed"
    and quiet: "log_charge (order_app E d) ?od (Inr result) = ret ()"
    by (simp_all add: frame_simps final_status_def log_charge_def)
  have ok2: "ok_world w2" using payments.charge_law [OF ok1 charge] by blast
  obtain upd w3 where update: "UpdateStatus E (order_ID od) OrderStatusConfirmed w2 = (Ret upd, w3)"
    using repository_returns(4) [of E "order_ID od" OrderStatusConfirmed] unfolding returns_def by blast
  obtain w4 where log: "log_update (order_app E d) ?od upd w3 = (Ret (), w4)" using log_update_returns by blast
  have fits: "utf8_length OrderStatusConfirmed \<le> 20" "pg_varchar 20 OrderStatusConfirmed = Some OrderStatusConfirmed"
    by (simp_all add: status_defs pg_varchar_def utf8_length_def utf8_continuation_def)
  have "stored w2 (order_ID od) = Some (row, its)" using st1 w2 by simp
  from UpdateStatus_exact [OF update fits(2) this] log_update_frame [OF log] n1 w2
  have "w_execs w4 = w_execs w + length (order_Items od) + 4" by simp
  moreover have "charges w4 = charges w2"
    using UpdateStatus_law [OF ok2 fits(1) update] log_update_posts [OF log] by simp
  with Charge_sent [OF charge] posts1 have "charges w4 \<noteq> charges w" by simp
  moreover have "settle (order_app E d) ?od w1 = (Ret (Some (?od\<lparr>order_Status := OrderStatusConfirmed\<rparr>), None), w4)"
    using charge update final quiet log
    by (simp add: settle_def bindIO_Ret) (simp add: bindIO_def status_defs)
  then have "persist_and_settle (order_app E d) od w = (Ret (Some (?od\<lparr>order_Status := OrderStatusConfirmed\<rparr>), None), w4)"
    using create by (simp add: persist_and_settle_def bindIO_Ret)
  ultimately show ?thesis by (intro exI [of _ "?od\<lparr>order_Status := OrderStatusConfirmed\<rparr>"] exI [of _ w4]) simp
qed

lemma drawn_items_fresh:
  assumes "fresh_ids E db n (Suc (length reqs))"
  shows "distinct (map item_ID (drawn_items E info (Suc n) reqs))"
    and "\<forall>it\<in>set (drawn_items E info (Suc n) reqs). item_ID it \<noteq> 0"
    and "set (map item_ID (drawn_items E info (Suc n) reqs)) \<inter> irow_id ` set (db_items db) = {}"
    and "e_uuid E n \<notin> row_id ` set (db_orders db)"
proof -
  have ids: "map item_ID (drawn_items E info (Suc n) reqs) = map (e_uuid E) [Suc n..<Suc n + length reqs]"
    by (rule drawn_items_ids)
  have range: "[n..<n + Suc (length reqs)] = n # [Suc n..<Suc n + length reqs]" by (simp add: upt_conv_Cons del: upt_Suc)
  from assms show "distinct (map item_ID (drawn_items E info (Suc n) reqs))"
    unfolding fresh_ids_def ids range by simp
  from assms have "\<forall>i\<in>set (map item_ID (drawn_items E info (Suc n) reqs)). i \<noteq> 0 \<and> i \<notin> irow_id ` set (db_items db)"
    unfolding fresh_ids_def ids by auto
  then show "\<forall>it\<in>set (drawn_items E info (Suc n) reqs). item_ID it \<noteq> 0"
    and "set (map item_ID (drawn_items E info (Suc n) reqs)) \<inter> irow_id ` set (db_items db) = {}" by auto
  from assms show "e_uuid E n \<notin> row_id ` set (db_orders db)" unfolding fresh_ids_def by auto
qed

lemma drawn_items_length [simp]: "length (drawn_items E info n reqs) = length reqs"
  by (induction reqs arbitrary: n) (simp_all add: Let_def)

text \<open>An order that can be placed is placed and charged when the statements up to its commit work: \<open>3\<close> and one for each line. The one that
  follows them records its status.\<close>

lemma orderable_placed:
  assumes "ok_world w" and "works E (w_execs w) (length (req_Items req) + 3)"
    and "e_uuid_parse E (req_UserID req) = Some u"
    and "answered E (ds_users d) (get_request (user_url (ds_users d) (req_UserID req))) (\<lambda>resp. rs_status resp = 200)"
    and "\<forall>line\<in>set (req_Items req). orderable E d info line" and "payable E d"
    and "fresh_ids E (w_db w) (w_uuids w) (Suc (length (req_Items req)))"
    and "in_int4 (lines_cents (drawn_items E info (Suc (w_uuids w)) (req_Items req)))"
  shows "\<exists>od w'. CreateOrder (order_app E d) req w = (Ret (Some od, None), w')
    \<and> order_Status od = OrderStatusConfirmed \<and> order_ID od = e_uuid E (w_uuids w)
    \<and> order_Items od = drawn_items E info (Suc (w_uuids w)) (req_Items req)
    \<and> w_execs w' = w_execs w + length (req_Items req) + 4 \<and> charges w' \<noteq> charges w"
proof -
  let ?i = "e_uuid E (w_uuids w)"
  let ?its = "drawn_items E info (Suc (w_uuids w)) (req_Items req)"
  from call_answered [OF assms(4)] obtain resp w1 where
    "VerifyUserExists E (ds_users d) (req_UserID req) w = (Ret (verify_status resp), w1)" "rs_status resp = 200"
    and only: "downstream_only w w1" unfolding client_calls by metis
  then have verified: "VerifyUserExists E (ds_users d) (req_UserID req) w = (Ret None, w1)" by (simp add: verify_status_def)
  note ok1 = users.untouchedD [OF preservesD [OF users.verify_untouched verified] assms(1)]
  from only have w1: "w_db w1 = w_db w" "w_uuids w1 = w_uuids w" "w_execs w1 = w_execs w" by (simp_all add: frame_simps)
  define w2 where "w2 = w1\<lparr>w_uuids := Suc (w_uuids w)\<rparr>"
  have new: "uuid_New E w1 = (Ret ?i, w2)" by (simp add: uuid_New_def w1 w2_def)
  obtain w3 where priced: "price_items (order_app E d) (req_Items req) 0 [] w2 = (Ret (Inr (word_total ?its, ?its)), w3)"
    and "w_db w3 = w_db w2" "w_execs w3 = w_execs w2"
    using price_items_answered [OF assms(5), of 0 "[]" w2] by (auto simp: w2_def)
  then have w3: "w_db w3 = w_db w" "w_execs w3 = w_execs w" by (simp_all add: w2_def w1)
  have ok2: "ok_world w2" using ok1(1) by (simp add: ok_world_def w2_def)
  note ok3 = users.untouchedD [OF preservesD [OF app.price_items_untouched priced] ok2]
  have posts: "charges w3 = charges w" using ok3(3) ok1(3) by (simp add: w2_def)
  have total: "sint (word_total ?its) = lines_cents ?its"
    using assms(8) by (intro sint_word_total) (simp add: in_int4_def in_int64_def)
  note fresh = drawn_items_fresh [OF assms(7)]
  have "\<exists>od' w'. persist_and_settle (order_app E d) (new_order ?i u (word_total ?its) ?its) w3
      = (Ret (Some od', None), w') \<and> order_Status od' = OrderStatusConfirmed \<and> order_ID od' = ?i \<and> order_Items od' = ?its
    \<and> w_execs w' = w_execs w + length (req_Items req) + 4 \<and> charges w' \<noteq> charges w"
    using persist_succeeds [OF _ assms(6) ok3(1), of "new_order ?i u (word_total ?its) ?its"]
      drawn_items_encoded [OF assms(5)] total assms(2,8) drawn_items_nonneg [OF assms(5)] fresh
    by (simp add: new_order_def w3 posts)
  then show ?thesis
    using verified new priced assms(3)
    by (fastforce simp: CreateOrder_def place_order_def bindIO_Ret)
qed

lemma orderable_confirmed:
  assumes "ok_world w" and "reliable_db E"
    and "e_uuid_parse E (req_UserID req) = Some u"
    and "answered E (ds_users d) (get_request (user_url (ds_users d) (req_UserID req))) (\<lambda>resp. rs_status resp = 200)"
    and "\<forall>line\<in>set (req_Items req). orderable E d info line" and "payable E d"
    and "fresh_ids E (w_db w) (w_uuids w) (Suc (length (req_Items req)))"
    and "in_int4 (lines_cents (drawn_items E info (Suc (w_uuids w)) (req_Items req)))"
  shows "\<exists>od row its w'. CreateOrder (order_app E d) req w = (Ret (Some od, None), w')
    \<and> order_Status od = OrderStatusConfirmed \<and> stored w' (order_ID od) = Some (row, its)
    \<and> row_status row = OrderStatusConfirmed \<and> order_ID od = e_uuid E (w_uuids w)"
proof -
  from orderable_placed [OF assms(1) reliable_works [OF assms(2)] assms(3-8)] obtain od w'
    where run: "CreateOrder (order_app E d) req w = (Ret (Some od, None), w')"
      and od: "order_Status od = OrderStatusConfirmed" "order_ID od = e_uuid E (w_uuids w)" by blast
  have "e_exec E (w_execs w' - 1) = ExecOk" using assms(2) by (simp add: reliable_db_def)
  with stored_after [OF assms(1) run] run od show ?thesis by fastforce
qed

text \<open>C22. An order that can be placed is placed: when the user exists, every line can be ordered, the total fits its column, the
  statements work, the drawn ids are fresh and the charge succeeds, the caller gets a confirmed order, and it is stored as
  confirmed. The network may fail in between, as often as the retries allow.\<close>

theorem CreateOrder_succeeds:
  assumes "ok_world w" and "reliable_db E"
    and "e_uuid_parse E (req_UserID req) = Some u"
    and "answered E (ds_users d) (get_request (user_url (ds_users d) (req_UserID req))) (\<lambda>resp. rs_status resp = 200)"
    and "\<forall>line\<in>set (req_Items req). orderable E d info line" and "payable E d"
    and "fresh_ids E (w_db w) (w_uuids w) (Suc (length (req_Items req)))"
    and "in_int4 (lines_cents (drawn_items E info (Suc (w_uuids w)) (req_Items req)))"
  shows "\<exists>od row its w'. CreateOrder (order_app E d) req w = (Ret (Some od, None), w')
    \<and> order_Status od = OrderStatusConfirmed \<and> stored w' (order_ID od) = Some (row, its)
    \<and> row_status row = OrderStatusConfirmed"
  using orderable_confirmed [OF assms] by blast

text \<open>C29. The status a caller is told need not be the status that is kept. For every order that can be placed, when the statements up to the
  commit of its transaction work: the caller is told that it is confirmed, without an error, and it is charged, whatever
  becomes of the next statement, which records the status. If that statement fails without effect, the order stays pending;
  otherwise it is stored as confirmed.\<close>

theorem CreateOrder_confirmed_yet_pending:
  assumes "ok_world w" and "\<forall>n\<in>{w_execs w..<w_execs w + (length (req_Items req) + 3)}. e_exec E n = ExecOk"
    and "e_uuid_parse E (req_UserID req) = Some u"
    and "answered E (ds_users d) (get_request (user_url (ds_users d) (req_UserID req))) (\<lambda>resp. rs_status resp = 200)"
    and "\<forall>line\<in>set (req_Items req). orderable E d info line" and "payable E d"
    and "fresh_ids E (w_db w) (w_uuids w) (Suc (length (req_Items req)))"
    and "in_int4 (lines_cents (drawn_items E info (Suc (w_uuids w)) (req_Items req)))"
  shows "\<exists>od row its w'. CreateOrder (order_app E d) req w = (Ret (Some od, None), w')
    \<and> order_Status od = OrderStatusConfirmed \<and> charges w' \<noteq> charges w \<and> stored w' (order_ID od) = Some (row, its)
    \<and> row_status row = (case e_exec E (w_execs w + length (req_Items req) + 3) of
         ExecErr f \<Rightarrow> OrderStatusPending | _ \<Rightarrow> OrderStatusConfirmed)"
proof -
  have "works E (w_execs w) (length (req_Items req) + 3)" using assms(2) by (simp add: works_def)
  from orderable_placed [OF assms(1) this assms(3-8)] obtain od w'
    where run: "CreateOrder (order_app E d) req w = (Ret (Some od, None), w')"
      and od: "order_Status od = OrderStatusConfirmed" "w_execs w' = w_execs w + length (req_Items req) + 4" "charges w' \<noteq> charges w"
    by blast
  then have "w_execs w' - 1 = w_execs w + length (req_Items req) + 3" by simp
  with stored_after [OF assms(1) run] od(1) obtain row its where "stored w' (order_ID od) = Some (row, its)"
    and "row_status row = (case e_exec E (w_execs w + length (req_Items req) + 3) of
         ExecErr f \<Rightarrow> OrderStatusPending | _ \<Rightarrow> OrderStatusConfirmed)"
    by (cases "e_exec E (w_execs w + length (req_Items req) + 3)") auto
  with run od show ?thesis by blast
qed

subsection \<open>The stock\<close>

text \<open>A line that can be ordered as far as everything but the stock is concerned.\<close>

definition offered :: "env \<Rightarrow> downstream \<Rightarrow> (string \<Rightarrow> product_info) \<Rightarrow> create_order_item_request \<Rightarrow> bool" where
  "offered E d info line \<longleftrightarrow>
     (let product = info (itemreq_ProductID line) in
        answered E (ds_products d) (get_request (product_url (ds_products d) (itemreq_ProductID line)))
          (\<lambda>resp. read_product resp = Inr product)
      \<and> product_IsActive product \<and> e_uuid_parse E (product_ID product) \<noteq> None
      \<and> 0 < sint (itemreq_Quantity line) \<and> in_int4 (sint (itemreq_Quantity line))
      \<and> 0 \<le> sint (product_PriceCents product) \<and> in_int4 (sint (product_PriceCents product))
      \<and> utf8_length (product_SKU product) \<le> 64 \<and> CHR 0x00 \<notin> set (product_SKU product))"

lemma orderable_offered:
  "orderable E d info line \<longleftrightarrow> offered E d info line
     \<and> sint (itemreq_Quantity line) \<le> sint (product_StockQuantity (info (itemreq_ProductID line)))"
  by (auto simp: orderable_def offered_def Let_def)

lemma price_items_short:
  assumes "\<forall>line\<in>set reqs. offered E d info line" and "\<exists>line\<in>set reqs. \<not> orderable E d info line"
  shows "\<exists>line\<in>set reqs. \<exists>w'. sint (product_StockQuantity (info (itemreq_ProductID line))) < sint (itemreq_Quantity line)
    \<and> price_items (order_app E d) reqs cents items w = (Ret (Inl (errorf_w (Sentinel Service_ErrProductUnavailable)
        ('': product '' @ itemreq_ProductID line))), w')"
  using assms
proof (induction reqs arbitrary: cents items w)
  case (Cons line reqs)
  let ?product = "info (itemreq_ProductID line)"
  have line: "offered E d info line" using Cons.prems by simp
  then obtain i where i: "e_uuid_parse E (product_ID ?product) = Some i" by (auto simp: offered_def Let_def)
  have "answered E (ds_products d) (get_request (product_url (ds_products d) (itemreq_ProductID line)))
      (\<lambda>resp. read_product resp = Inr ?product)" using line by (simp add: offered_def Let_def)
  from call_answered [OF this] obtain w1 where
    get: "GetProduct E (ds_products d) (itemreq_ProductID line) w = (Ret (Inr ?product), w1)"
    unfolding client_calls by metis
  show ?case
  proof (cases "orderable E d info line")
    case False
    with line get show ?thesis by (auto simp: orderable_offered bindIO_Ret)
  next
    case True
    obtain j w2 where new: "uuid_New E w1 = (Ret j, w2)" by (simp add: uuid_New_def)
    have "\<exists>line\<in>set reqs. \<not> orderable E d info line" using Cons.prems(2) True by auto
    with Cons.IH [of "cents + product_PriceCents ?product * itemreq_Quantity line" "items @ [new_item j i ?product line]" w2]
      Cons.prems(1) obtain line' w' where "line' \<in> set reqs"
        "sint (product_StockQuantity (info (itemreq_ProductID line'))) < sint (itemreq_Quantity line')"
      and rest: "price_items (order_app E d) reqs (cents + product_PriceCents ?product * itemreq_Quantity line)
          (items @ [new_item j i ?product line]) w2 = (Ret (Inl (errorf_w (Sentinel Service_ErrProductUnavailable)
        ('': product '' @ itemreq_ProductID line'))), w')" by auto
    moreover from True have "product_IsActive ?product" "\<not> sint (product_StockQuantity ?product) < sint (itemreq_Quantity line)"
      by (simp_all add: orderable_def Let_def)
    ultimately show ?thesis using get new i by (intro bexI [of _ line']) (auto simp: bindIO_Ret)
  qed
qed simp

lemma short_refused:
  assumes "ok_world w" and "e_uuid_parse E (req_UserID req) = Some u"
    and "answered E (ds_users d) (get_request (user_url (ds_users d) (req_UserID req))) (\<lambda>resp. rs_status resp = 200)"
    and "\<forall>line\<in>set (req_Items req). offered E d info line" and "\<exists>line\<in>set (req_Items req). \<not> orderable E d info line"
  shows "\<exists>line\<in>set (req_Items req). \<exists>w'. sint (product_StockQuantity (info (itemreq_ProductID line))) < sint (itemreq_Quantity line)
    \<and> CreateOrder (order_app E d) req w = (Ret (None, Some (errorf_w (Sentinel Service_ErrProductUnavailable)
        ('': product '' @ itemreq_ProductID line))), w') \<and> stored w' = stored w \<and> charges w' = charges w"
proof -
  from call_answered [OF assms(3)] obtain resp w1 where
    "VerifyUserExists E (ds_users d) (req_UserID req) w = (Ret (verify_status resp), w1)" "rs_status resp = 200"
    unfolding client_calls by metis
  then have verified: "VerifyUserExists E (ds_users d) (req_UserID req) w = (Ret None, w1)" by (simp add: verify_status_def)
  obtain i w2 where new: "uuid_New E w1 = (Ret i, w2)" by (simp add: uuid_New_def)
  from price_items_short [OF assms(4,5), of 0 "[]" w2] obtain line w' where line: "line \<in> set (req_Items req)"
      "sint (product_StockQuantity (info (itemreq_ProductID line))) < sint (itemreq_Quantity line)"
    and "price_items (order_app E d) (req_Items req) 0 [] w2 = (Ret (Inl (errorf_w (Sentinel Service_ErrProductUnavailable)
        ('': product '' @ itemreq_ProductID line))), w')" by blast
  with verified new assms(2) have run: "CreateOrder (order_app E d) req w = (Ret (None, Some (errorf_w
      (Sentinel Service_ErrProductUnavailable) ('': product '' @ itemreq_ProductID line))), w')"
    by (simp add: CreateOrder_def place_order_def bindIO_Ret)
  from assms(1) run have "stored w' = stored w \<and> charges w' = charges w"
    by (cases rule: app.CreateOrder_E) (auto simp: errorf_w_def)
  with line run show ?thesis by blast
qed

lemma drawn_items_quantities:
  "(\<Sum>it\<leftarrow>drawn_items E info n reqs. sint (item_Quantity it)) = (\<Sum>line\<leftarrow>reqs. sint (itemreq_Quantity line))"
  by (induction reqs arbitrary: n) (simp_all add: Let_def new_item_def)

lemma drawn_items_product:
  "\<forall>it\<in>set (drawn_items E (\<lambda>_. product) n reqs). item_ProductID it = the (e_uuid_parse E (product_ID product))"
  by (induction reqs arbitrary: n) (simp_all add: Let_def new_item_def)

text \<open>C30. The stock is checked line by line and not for the order. For an order of one product, with any number of lines, when nothing but
  the stock stands in its way: it is confirmed, for the sum of the quantities of all its lines, if each line on its own is in
  stock, however far beyond the stock that sum is; and it is refused as unavailable, without an effect, if a single line
  is beyond the stock.\<close>

theorem CreateOrder_oversells:
  assumes "ok_world w" and "reliable_db E" and "e_uuid_parse E (req_UserID req) = Some u"
    and "answered E (ds_users d) (get_request (user_url (ds_users d) (req_UserID req))) (\<lambda>resp. rs_status resp = 200)"
    and "\<forall>line\<in>set (req_Items req). offered E d (\<lambda>_. product) line" and "payable E d"
    and "fresh_ids E (w_db w) (w_uuids w) (Suc (length (req_Items req)))"
    and "in_int4 (lines_cents (drawn_items E (\<lambda>_. product) (Suc (w_uuids w)) (req_Items req)))"
    and "e_uuid_parse E (product_ID product) = Some pid"
  shows "if \<forall>line\<in>set (req_Items req). sint (itemreq_Quantity line) \<le> sint (product_StockQuantity product)
    then \<exists>od w'. CreateOrder (order_app E d) req w = (Ret (Some od, None), w') \<and> order_Status od = OrderStatusConfirmed
      \<and> (\<forall>it\<in>set (order_Items od). item_ProductID it = pid)
      \<and> (\<Sum>it\<leftarrow>order_Items od. sint (item_Quantity it)) = (\<Sum>line\<leftarrow>req_Items req. sint (itemreq_Quantity line))
    else \<exists>e w'. CreateOrder (order_app E d) req w = (Ret (None, Some e), w') \<and> errors_is e Service_ErrProductUnavailable
      \<and> stored w' = stored w \<and> charges w' = charges w"
proof (cases "\<forall>line\<in>set (req_Items req). sint (itemreq_Quantity line) \<le> sint (product_StockQuantity product)")
  case True
  with assms(5) have "\<forall>line\<in>set (req_Items req). orderable E d (\<lambda>_. product) line" by (simp add: orderable_offered)
  from orderable_placed [OF assms(1) reliable_works [OF assms(2)] assms(3,4) this assms(6-8)] obtain od w'
    where "CreateOrder (order_app E d) req w = (Ret (Some od, None), w')" "order_Status od = OrderStatusConfirmed"
      and "order_Items od = drawn_items E (\<lambda>_. product) (Suc (w_uuids w)) (req_Items req)" by blast
  with True drawn_items_product [of E product] drawn_items_quantities [of E "\<lambda>_. product"] assms(9) show ?thesis by simp
next
  case False
  then have "\<exists>line\<in>set (req_Items req). \<not> orderable E d (\<lambda>_. product) line" by (auto simp: orderable_offered)
  from short_refused [OF assms(1,3,4,5) this] show ?thesis
    unfolding if_not_P [OF False] by (elim bexE exE conjE) (intro exI conjI, assumption, simp_all)
qed

subsection \<open>Concrete orders\<close>

theorem CreateOrder_returns_witness:
  "\<exists>res w'. CreateOrder (order_app flaky_env shop_clients) shop_request (start_world empty_db) = (Ret res, w')"
  using CreateOrder_returns [of shop_clients] by (simp add: patient_def shop_clients_def NewResilientClient_def)

definition shop_product :: "string \<Rightarrow> product_info" where
  "shop_product pid = \<lparr>product_ID = ''2'', product_SKU = ''SKU-MOUSE'', product_Name = ''Mouse'', product_PriceCents = 1999,
     product_StockQuantity = 10, product_IsActive = True\<rparr>"

text \<open>The shop, when every other exchange fails with a 503.\<close>

definition stormy_env :: env where
  "stormy_env = shop_env\<lparr>e_net := \<lambda>n rq. if even n then Inr (503, JsonBody JNull) else shop_net n rq\<rparr>"

lemma stormy_answered:
  assumes "1 \<le> sint (rc_retryAttempts c)" and "\<And>n. transient shop_env c rq n = None \<and> P (response_at shop_env rq n)"
  shows "answered stormy_env c rq P"
proof -
  have odd: "transient stormy_env c rq n = transient shop_env c rq n" "response_at stormy_env rq n = response_at shop_env rq n" if "odd n" for n
    using that by (simp_all add: transient_def response_at_def stormy_env_def shop_env_def calm_env_def)
  have even: "transient stormy_env c rq n \<noteq> None" if "even n" for n
    using that by (simp add: transient_def stormy_env_def gateway_failure_def)
  have "\<exists>k. int k \<le> sint (rc_retryAttempts c) \<and> transient stormy_env c rq (n + k) = None" for n
    using assms odd(1) [of "n + (if even n then 1 else 0)"] by (intro exI [of _ "if even n then 1 else 0"]) auto
  moreover have "e_wait stormy_env m = None" "e_new_request stormy_env url = None" for m url
    by (simp_all add: stormy_env_def shop_env_def calm_env_def)
  moreover have "P (response_at stormy_env rq n)" if "transient stormy_env c rq n = None" for n
    using that even odd(2) assms(2) by metis
  ultimately show ?thesis by (simp add: answered_def)
qed

lemma shop_answers:
  "answered stormy_env (ds_users shop_clients) (get_request (user_url (ds_users shop_clients) ''1'')) (\<lambda>resp. rs_status resp = 200)"
  "answered stormy_env (ds_products shop_clients) (get_request (product_url (ds_products shop_clients) ''2''))
     (\<lambda>resp. read_product resp = Inr (shop_product pid))"
  "answered stormy_env (ds_payments shop_clients) (charge_post (ds_payments shop_clients) cr)
     (\<lambda>resp. \<exists>result. read_charge resp = Inr result \<and> result_Status result = ''SUCCEEDED'')"
  by (rule stormy_answered; simp add: transient_def response_at_def shop_env_def calm_env_def shop_net_def get_request_def user_url_def
      product_url_def charge_post_def shop_clients_def NewResilientClient_def gateway_failure_def read_product_def read_charge_def
      decode_product_response decode_charge_result shop_product_def del: decode_body.simps)+

lemma stormy_conditions:
  shows "reliable_db stormy_env" and "e_uuid_parse stormy_env (req_UserID shop_request) = Some 1"
    and "answered stormy_env (ds_users shop_clients) (get_request (user_url (ds_users shop_clients) (req_UserID shop_request))) (\<lambda>resp. rs_status resp = 200)"
    and "\<forall>line\<in>set (req_Items shop_request). orderable stormy_env shop_clients shop_product line"
    and "payable stormy_env shop_clients"
    and "fresh_ids stormy_env (w_db (start_world empty_db)) (w_uuids (start_world empty_db)) (Suc (length (req_Items shop_request)))"
    and "in_int4 (lines_cents (drawn_items stormy_env shop_product (Suc (w_uuids (start_world empty_db))) (req_Items shop_request)))"
proof -
  show "reliable_db stormy_env" by (simp add: reliable_db_def stormy_env_def shop_env_def calm_env_def)
  show "e_uuid_parse stormy_env (req_UserID shop_request) = Some 1"
    by (simp add: stormy_env_def shop_env_def calm_env_def shop_request_def decimal_uuid_parse_def is_digit_def digits_value_def digit_value_def)
  show "answered stormy_env (ds_users shop_clients) (get_request (user_url (ds_users shop_clients) (req_UserID shop_request))) (\<lambda>resp. rs_status resp = 200)"
    using shop_answers(1) by (simp add: shop_request_def)
  show "\<forall>line\<in>set (req_Items shop_request). orderable stormy_env shop_clients shop_product line"
    using shop_answers(2)
    by (simp add: orderable_def shop_request_def Let_def shop_product_def in_int4_def utf8_length_def utf8_continuation_def
        stormy_env_def shop_env_def calm_env_def decimal_uuid_parse_def is_digit_def)
  show "payable stormy_env shop_clients" using shop_answers(3) by (simp add: payable_def)
  show "fresh_ids stormy_env (w_db (start_world empty_db)) (w_uuids (start_world empty_db)) (Suc (length (req_Items shop_request)))"
    by (simp add: fresh_ids_def stormy_env_def shop_env_def calm_env_def start_world_def empty_db_def shop_request_def upt_rec atLeastLessThanSuc)
  show "in_int4 (lines_cents (drawn_items stormy_env shop_product (Suc (w_uuids (start_world empty_db))) (req_Items shop_request)))"
    by (simp add: shop_request_def Let_def new_item_def line_cents_def shop_product_def in_int4_def)
qed

theorem CreateOrder_succeeds_witness:
  "\<exists>od row its w'. CreateOrder (order_app stormy_env shop_clients) shop_request (start_world empty_db) = (Ret (Some od, None), w')
    \<and> order_Status od = OrderStatusConfirmed \<and> stored w' (order_ID od) = Some (row, its)
    \<and> row_status row = OrderStatusConfirmed"
  by (rule CreateOrder_succeeds [where u = 1 and info = shop_product]) (rule start_world_ok stormy_conditions)+

text \<open>The shop in the storm, when the last statement of an order of one line fails as well.\<close>

definition forgetful_env :: env where
  "forgetful_env = stormy_env\<lparr>e_exec := \<lambda>n. if n = 4 then ExecErr (ForeignError ''connection reset'' None) else ExecOk\<rparr>"

lemma answered_exec [simp]: "answered (E\<lparr>e_exec := f\<rparr>) c rq P = answered E c rq P"
  by (simp add: answered_def transient_def response_at_def)

lemma drawn_items_exec [simp]: "drawn_items (E\<lparr>e_exec := f\<rparr>) info n reqs = drawn_items E info n reqs"
  by (induction reqs arbitrary: n) (simp_all add: Let_def)

lemma orderable_exec [simp]: "orderable (E\<lparr>e_exec := f\<rparr>) d info line = orderable E d info line"
  by (simp add: orderable_def)

lemma conditions_exec [simp]:
  "payable (E\<lparr>e_exec := f\<rparr>) d = payable E d" "fresh_ids (E\<lparr>e_exec := f\<rparr>) db n k = fresh_ids E db n k"
  by (simp_all add: payable_def fresh_ids_def)

theorem CreateOrder_confirmed_yet_pending_witness:
  "\<exists>od row its w'. CreateOrder (order_app forgetful_env shop_clients) shop_request (start_world empty_db) = (Ret (Some od, None), w')
    \<and> order_Status od = OrderStatusConfirmed \<and> charges w' \<noteq> [] \<and> stored w' (order_ID od) = Some (row, its)
    \<and> row_status row = OrderStatusPending"
proof -
  have lines: "length (req_Items shop_request) = 1" by (simp add: shop_request_def)
  have "w_execs (start_world empty_db) = 0" "charges (start_world empty_db) = []" by (simp_all add: start_world_def)
  with CreateOrder_confirmed_yet_pending [where E = forgetful_env and d = shop_clients and req = shop_request
      and w = "start_world empty_db" and u = 1 and info = shop_product, OF start_world_ok] stormy_conditions lines
  show ?thesis by (simp add: forgetful_env_def)
qed

lemma bulk_conditions:
  shows "\<forall>line\<in>set (req_Items bulk_request). offered stormy_env shop_clients (\<lambda>_. shop_product ''2'') line"
    and "fresh_ids stormy_env (w_db (start_world empty_db)) (w_uuids (start_world empty_db)) (Suc (length (req_Items bulk_request)))"
    and "in_int4 (lines_cents (drawn_items stormy_env (\<lambda>_. shop_product ''2'') (Suc (w_uuids (start_world empty_db))) (req_Items bulk_request)))"
proof -
  show "\<forall>line\<in>set (req_Items bulk_request). offered stormy_env shop_clients (\<lambda>_. shop_product ''2'') line"
    using shop_answers(2)
    by (simp add: offered_def bulk_request_def Let_def shop_product_def in_int4_def utf8_length_def utf8_continuation_def
        stormy_env_def shop_env_def calm_env_def decimal_uuid_parse_def is_digit_def)
  show "fresh_ids stormy_env (w_db (start_world empty_db)) (w_uuids (start_world empty_db)) (Suc (length (req_Items bulk_request)))"
    by (simp add: fresh_ids_def stormy_env_def shop_env_def calm_env_def start_world_def empty_db_def bulk_request_def upt_rec
        atLeastLessThanSuc)
  show "in_int4 (lines_cents (drawn_items stormy_env (\<lambda>_. shop_product ''2'') (Suc (w_uuids (start_world empty_db))) (req_Items bulk_request)))"
    by (simp add: bulk_request_def Let_def new_item_def line_cents_def shop_product_def in_int4_def)
qed

text \<open>Ten pieces are in stock, and an order of two lines of ten each is confirmed for twenty.\<close>

theorem CreateOrder_oversells_witness:
  "sint (product_StockQuantity (shop_product ''2'')) = 10 \<and>
    (\<exists>od w'. CreateOrder (order_app stormy_env shop_clients) bulk_request (start_world empty_db) = (Ret (Some od, None), w')
      \<and> order_Status od = OrderStatusConfirmed \<and> (\<forall>it\<in>set (order_Items od). item_ProductID it = 2)
      \<and> (\<Sum>it\<leftarrow>order_Items od. sint (item_Quantity it)) = 20)"
proof -
  have user: "req_UserID bulk_request = req_UserID shop_request" by (simp add: bulk_request_def shop_request_def)
  have two: "e_uuid_parse stormy_env (product_ID (shop_product ''2'')) = Some 2"
    by (simp add: shop_product_def stormy_env_def shop_env_def calm_env_def decimal_uuid_parse_def is_digit_def digits_value_def
        digit_value_def)
  note run = CreateOrder_oversells [where req = bulk_request, OF start_world_ok stormy_conditions(1),
      unfolded user, OF stormy_conditions(2,3) bulk_conditions(1) stormy_conditions(5) bulk_conditions(2,3) two]
  have "\<forall>line\<in>set (req_Items bulk_request). sint (itemreq_Quantity line) \<le> sint (product_StockQuantity (shop_product ''2''))"
    and "(\<Sum>line\<leftarrow>req_Items bulk_request. sint (itemreq_Quantity line)) = 20"
    and "sint (product_StockQuantity (shop_product ''2'')) = 10"
    by (simp_all add: bulk_request_def shop_product_def)
  with run show ?thesis by simp
qed

end
