(* ===== verification/Order_Handlers.thy ===== *)
theory Order_Handlers
  imports Order_Progress
begin

section \<open>The HTTP handlers (\<open>internal/handlers\<close>)\<close>

text \<open>
  \<open>OrderHandler\<close> and \<open>HealthHandler\<close>. A handler runs on the state of the service together with the \<open>gin.Context\<close> of its
  request: what the request brought, the keys set on it, and the response written so far. \<open>lift\<close> runs an operation of the
  service beside the context.
\<close>

subsection \<open>The context\<close>

record gin_context =
  ctx_method :: string
  ctx_path :: string
  ctx_header_request_id :: string      \<comment> \<open>the inbound \<open>X-Request-Id\<close>, empty if there is none\<close>
  ctx_param_id :: string
  ctx_query_userId :: string
  ctx_body :: body
  ctx_keys :: "(string \<times> string) list"
  ctx_status :: goint
  ctx_headers :: "(string \<times> string) list"
  ctx_json :: "json option"

type_synonym 'w server = "'w \<times> gin_context"

definition lift :: "('w, 'a) io \<Rightarrow> ('w server, 'a) io" where
  "lift m = (\<lambda>(w, c). case m w of (r, w') \<Rightarrow> (r, (w', c)))"

definition gin_ctx :: "('w server, gin_context) io" where
  "gin_ctx = (\<lambda>(w, c). (Ret c, (w, c)))"

definition c_JSON :: "goint \<Rightarrow> json \<Rightarrow> ('w server, unit) io" where
  "c_JSON st j = (\<lambda>(w, c). (Ret (), (w, c\<lparr>ctx_status := st, ctx_json := Some j\<rparr>)))"

subsection \<open>JSON of an order\<close>

text \<open>The struct tags of \<open>models.Order\<close> and \<open>models.OrderItem\<close>.\<close>

definition item_json :: "env \<Rightarrow> order_item \<Rightarrow> json" where
  "item_json E it = JObject
     [(''id'', JString (e_uuid_string E (item_ID it))), (''productId'', JString (e_uuid_string E (item_ProductID it))),
      (''sku'', JString (item_SKU it)), (''quantity'', json_int (item_Quantity it)),
      (''unitPriceCents'', json_int (item_UnitPriceCents it))]"

definition order_json :: "env \<Rightarrow> order_t \<Rightarrow> json" where
  "order_json E od = JObject
     [(''id'', JString (e_uuid_string E (order_ID od))), (''userId'', JString (e_uuid_string E (order_UserID od))),
      (''status'', JString (order_Status od)), (''totalCents'', json_int (order_TotalCents od)),
      (''currency'', JString (order_Currency od)), (''items'', json_slice (item_json E) (order_Items od)),
      (''createdAt'', JString (e_time_text E (order_CreatedAt od))),
      (''updatedAt'', JString (e_time_text E (order_UpdatedAt od)))]"

definition order_json_ptr :: "env \<Rightarrow> order_t option \<Rightarrow> json" where
  "order_json_ptr E od = (case od of None \<Rightarrow> JNull | Some x \<Rightarrow> order_json E x)"

subsection \<open>\<open>order_handler.go\<close>\<close>

text \<open>A \<open>gin.H\<close> is a map: its members are written in the order of their names.\<close>

definition error_body :: "env \<Rightarrow> string \<Rightarrow> string \<Rightarrow> order_t option \<Rightarrow> json" where
  "error_body E code message od = JObject
     ([(''error'', JString code), (''message'', JString message)]
      @ (case od of None \<Rightarrow> [] | Some x \<Rightarrow> [(''order'', order_json E x)]))"

definition writeServiceError :: "env \<Rightarrow> go_error \<Rightarrow> order_t option \<Rightarrow> ('w server, unit) io" where
  "writeServiceError E err od =
     (let body = (\<lambda>code. error_body E code (error_text err) od) in
      if errors_is err Service_ErrValidation then c_JSON 400 (body ''validation_error'')
      else if errors_is err Service_ErrUserNotFound then c_JSON 404 (body ''user_not_found'')
      else if errors_is err Service_ErrProductNotFound then c_JSON 404 (body ''product_not_found'')
      else if errors_is err Service_ErrProductUnavailable then c_JSON 409 (body ''product_unavailable'')
      else if errors_is err Service_ErrOrderNotFound then c_JSON 404 (body ''order_not_found'')
      else if errors_is err Service_ErrPaymentDeclined then c_JSON 402 (body ''payment_declined'')
      else if errors_is err Service_ErrUpstreamUnavailable then c_JSON 502 (body ''upstream_unavailable'')
      else c_JSON 500 (body ''internal_error''))"

definition handle_CreateOrder :: "env \<Rightarrow> 'w order_service \<Rightarrow> ('w server, unit) io" where
  "handle_CreateOrder E S =
     bindIO gin_ctx (\<lambda>c. case e_bind E (ctx_body c) of
       Inl err \<Rightarrow> c_JSON 400 (error_body E ''validation_error'' (foreign_text err) None)
     | Inr req \<Rightarrow> bindIO (lift (CreateOrder S req)) (\<lambda>(od, err). case err of
           Some e \<Rightarrow> writeServiceError E e od
         | None \<Rightarrow> c_JSON 201 (order_json_ptr E od)))"

definition handle_GetOrder :: "env \<Rightarrow> 'w order_service \<Rightarrow> ('w server, unit) io" where
  "handle_GetOrder E S =
     bindIO gin_ctx (\<lambda>c. case uuid_Parse (svc_uuid S) (ctx_param_id c) of
       None \<Rightarrow> c_JSON 400 (error_body E ''invalid_id'' ''order id must be a UUID'' None)
     | Some i \<Rightarrow> bindIO (lift (GetOrder S i)) (\<lambda>res. case res of
           Inl err \<Rightarrow> writeServiceError E err None
         | Inr od \<Rightarrow> c_JSON 200 (order_json E od)))"

definition handle_ListOrders :: "env \<Rightarrow> 'w order_service \<Rightarrow> ('w server, unit) io" where
  "handle_ListOrders E S =
     bindIO gin_ctx (\<lambda>c. case uuid_Parse (svc_uuid S) (ctx_query_userId c) of
       None \<Rightarrow> c_JSON 400 (error_body E ''invalid_user_id'' ''userId query param must be a UUID'' None)
     | Some userID \<Rightarrow> bindIO (lift (ListOrdersByUser S userID)) (\<lambda>(orders, err). case err of
           Some e \<Rightarrow> writeServiceError E e None
         | None \<Rightarrow> c_JSON 200 (JObject [(''items'', json_slice (order_json E) orders),
             (''total'', JNumber (show_nat (length orders)))])))"

text \<open>The constructors: a handler is a struct with one field, whose methods are the handlers of the routes.\<close>

record 'w order_handler =
  oh_CreateOrder :: "('w server, unit) io"
  oh_GetOrder :: "('w server, unit) io"
  oh_ListOrders :: "('w server, unit) io"

definition NewOrderHandler :: "env \<Rightarrow> 'w order_service \<Rightarrow> 'w order_handler" where
  "NewOrderHandler E S = \<lparr>oh_CreateOrder = handle_CreateOrder E S, oh_GetOrder = handle_GetOrder E S,
     oh_ListOrders = handle_ListOrders E S\<rparr>"

lemma NewOrderHandler_simps [simp]:
  "oh_CreateOrder (NewOrderHandler E S) = handle_CreateOrder E S"
  "oh_GetOrder (NewOrderHandler E S) = handle_GetOrder E S"
  "oh_ListOrders (NewOrderHandler E S) = handle_ListOrders E S"
  by (simp_all add: NewOrderHandler_def)

subsection \<open>\<open>health_handler.go\<close>\<close>

definition pool_Ping :: "env \<Rightarrow> (world, foreign option) io" where
  "pool_Ping E w = (Ret (e_ping E (w_queries w)),
     w\<lparr>w_queries := Suc (w_queries w), w_trace := w_trace w @ [EvDb DbPing]\<rparr>)"

definition handle_Health :: "env \<Rightarrow> (world server, unit) io" where
  "handle_Health E = bindIO (lift (time_Now E)) (\<lambda>now. c_JSON 200 (JObject
     [(''service'', JString ''order-service''), (''status'', JString ''UP''), (''timestamp'', JString (e_time_text E now))]))"

definition handle_Ready :: "env \<Rightarrow> (world server, unit) io" where
  "handle_Ready E = bindIO (lift (pool_Ping E)) (\<lambda>err. case err of
     Some e \<Rightarrow> c_JSON 503 (JObject [(''dependencies'', JObject [(''database'', JString ''DOWN'')]),
       (''status'', JString ''DEGRADED'')])
   | None \<Rightarrow> c_JSON 200 (JObject [(''dependencies'', JObject [(''database'', JString ''UP'')]), (''status'', JString ''UP'')]))"

record health_handler =
  hh_Health :: "(world server, unit) io"
  hh_Ready :: "(world server, unit) io"

definition NewHealthHandler :: "env \<Rightarrow> health_handler" where
  "NewHealthHandler E = \<lparr>hh_Health = handle_Health E, hh_Ready = handle_Ready E\<rparr>"

lemma NewHealthHandler_simps [simp]:
  "hh_Health (NewHealthHandler E) = handle_Health E" "hh_Ready (NewHealthHandler E) = handle_Ready E"
  by (simp_all add: NewHealthHandler_def)

subsection \<open>Running a handler\<close>

lemma handler_simps [io_simps]:
  "lift m (w, c) = (case m w of (r, w') \<Rightarrow> (r, (w', c)))"
  "gin_ctx (w, c) = (Ret c, (w, c))"
  "c_JSON st j (w, c) = (Ret (), (w, c\<lparr>ctx_status := st, ctx_json := Some j\<rparr>))"
  by (simp_all add: lift_def gin_ctx_def c_JSON_def)

lemma io_bind_lift [io_simps]:
  "bindIO gin_ctx f (w, c) = f c (w, c)"
  "bindIO (lift m) g (w, c) = (case m w of (Ret x, w') \<Rightarrow> g x (w', c) | (Panic p, w') \<Rightarrow> (Panic p, (w', c)))"
  by (simp_all add: bindIO_def handler_simps split: prod.splits outcome.splits)

text \<open>The status and the code of every sentinel that has one.\<close>

definition service_replies :: "(sentinel \<times> goint \<times> string) list" where
  "service_replies =
     [(Service_ErrValidation, 400, ''validation_error''), (Service_ErrUserNotFound, 404, ''user_not_found''),
      (Service_ErrProductNotFound, 404, ''product_not_found''), (Service_ErrProductUnavailable, 409, ''product_unavailable''),
      (Service_ErrOrderNotFound, 404, ''order_not_found''), (Service_ErrPaymentDeclined, 402, ''payment_declined''),
      (Service_ErrUpstreamUnavailable, 502, ''upstream_unavailable'')]"

definition error_reply :: "env \<Rightarrow> go_error \<Rightarrow> order_t option \<Rightarrow> goint \<Rightarrow> string \<Rightarrow> gin_context \<Rightarrow> gin_context" where
  "error_reply E err od st code c = c\<lparr>ctx_status := st, ctx_json := Some (error_body E code (error_text err) od)\<rparr>"

lemma writeServiceError_reply:
  "(s, st, code) \<in> set service_replies \<Longrightarrow> errors_is err s \<Longrightarrow>
     writeServiceError E err od (w, c) = (Ret (), (w, error_reply E err od st code c))"
  by (auto simp: service_replies_def writeServiceError_def Let_def handler_simps error_reply_def dest: errors_is_unique)

lemma writeServiceError_internal:
  "\<forall>(s, st, code)\<in>set service_replies. \<not> errors_is err s \<Longrightarrow>
     writeServiceError E err od (w, c) = (Ret (), (w, error_reply E err od 500 ''internal_error'' c))"
  by (auto simp: service_replies_def writeServiceError_def Let_def handler_simps error_reply_def)

text \<open>Every sentinel of the service has one HTTP status and one error code, however deep it is wrapped and in whatever order they
  are checked; any other error is a 500 with the code \<open>internal_error\<close>. The reply changes nothing but the response, whose body
  carries the whole text of the error and, if there is one, the order.\<close>

lemma writeServiceError_mapping:
  "(\<forall>(s, st, code)\<in>set service_replies. errors_is err s \<longrightarrow>
      writeServiceError E err od (w, c) = (Ret (), (w, c\<lparr>ctx_status := st, ctx_json := Some (JObject
        ([(''error'', JString code), (''message'', JString (error_text err))]
          @ (case od of None \<Rightarrow> [] | Some x \<Rightarrow> [(''order'', order_json E x)])))\<rparr>)))
   \<and> ((\<forall>(s, st, code)\<in>set service_replies. \<not> errors_is err s) \<longrightarrow>
      ctx_status (snd (snd (writeServiceError E err od (w, c)))) = 500)"
proof (intro conjI impI ballI)
  fix row assume row: "row \<in> set service_replies"
  obtain s st code where "row = (s, st, code)" by (cases row)
  with row writeServiceError_reply [of s st code err E od w c]
  show "case row of (s, st, code) \<Rightarrow> errors_is err s \<longrightarrow>
      writeServiceError E err od (w, c) = (Ret (), (w, c\<lparr>ctx_status := st, ctx_json := Some (JObject
        ([(''error'', JString code), (''message'', JString (error_text err))]
          @ (case od of None \<Rightarrow> [] | Some x \<Rightarrow> [(''order'', order_json E x)])))\<rparr>))"
    by (simp add: error_reply_def error_body_def)
qed (simp add: writeServiceError_internal error_reply_def)

subsection \<open>The replies to an order\<close>

lemma handle_CreateOrder_E:
  assumes "handle_CreateOrder E S (w, c) = (r, (w', c'))"
  obtains (Unbound) err where "e_bind E (ctx_body c) = Inl err" and "r = Ret ()" and "w' = w"
      and "ctx_status c' = 400"
    | (Panicked) req p where "e_bind E (ctx_body c) = Inr req" and "CreateOrder S req w = (Panic p, w')" and "r = Panic p"
      and "c' = c"
    | (Error) req od e where "e_bind E (ctx_body c) = Inr req" and "CreateOrder S req w = (Ret (od, Some e), w')"
      and "writeServiceError E e od (w', c) = (r, (w', c'))"
    | (Created) req od where "e_bind E (ctx_body c) = Inr req" and "CreateOrder S req w = (Ret (od, None), w')"
      and "r = Ret ()" and "c' = c\<lparr>ctx_status := 201, ctx_json := Some (order_json_ptr E od)\<rparr>"
proof (cases "e_bind E (ctx_body c)")
  case (Inl err)
  with assms Unbound show thesis by (auto simp: handle_CreateOrder_def io_bind_lift handler_simps)
next
  case (Inr req)
  obtain r1 w1 where run: "CreateOrder S req w = (r1, w1)" by fastforce
  show thesis
  proof (cases r1)
    case (Panic p)
    with assms Inr run have "r = Panic p" "w1 = w'" "c' = c" by (auto simp: handle_CreateOrder_def io_bind_lift)
    with Panicked [OF Inr] run Panic show thesis by simp
  next
    case (Ret res)
    obtain od err where res: "res = (od, err)" by fastforce
    show thesis
    proof (cases err)
      case None
      with assms Inr run Ret res have "r = Ret ()" "w1 = w'"
        "c' = c\<lparr>ctx_status := 201, ctx_json := Some (order_json_ptr E od)\<rparr>"
        by (auto simp: handle_CreateOrder_def io_bind_lift handler_simps)
      with Created [OF Inr] run Ret res None show thesis by simp
    next
      case (Some e)
      then have "writeServiceError E e od (w1, c) = (r, (w', c'))"
        using assms Inr run Ret res by (simp add: handle_CreateOrder_def io_bind_lift)
      moreover from this have "w1 = w'"
        by (auto simp: writeServiceError_def Let_def handler_simps split: if_splits)
      ultimately show thesis using Error [OF Inr] run Ret res Some by simp
    qed
  qed
qed

text \<open>
  Why an order is refused, and how that is told: the error, the status and the code of the reply, by what the \<open>n\<close>-th exchange brought for the
  request. A user or a product is missing when the exchange answered 404, a product is unavailable when the exchange answered 200 with
  a product that is inactive or has less in stock than the line asks for, and a dependency is unavailable when the exchange brought nothing
  the service can use.
\<close>

inductive refusal :: "env \<Rightarrow> downstream \<Rightarrow> create_order_request \<Rightarrow> nat \<Rightarrow> go_error \<Rightarrow> goint \<Rightarrow> string \<Rightarrow> bool" for E d req n where
  malformed_user: "e_uuid_parse E (req_UserID req) = None \<Longrightarrow>
     refusal E d req n (errorf_w (Sentinel Service_ErrValidation) '': invalid userId'') 400 ''validation_error''"
| no_user: "e_net E n (get_request (user_url (ds_users d) (req_UserID req))) = Inr (404, b) \<Longrightarrow>
     refusal E d req n (Sentinel Service_ErrUserNotFound) 404 ''user_not_found''"
| unverified: "e_new_request E (user_url (ds_users d) (req_UserID req)) \<noteq> None
     \<or> (\<forall>st b. e_net E n (get_request (user_url (ds_users d) (req_UserID req))) = Inr (st, b) \<longrightarrow> st \<noteq> 404 \<and> st \<noteq> 200) \<Longrightarrow>
     refusal E d req n (errorf_w (Sentinel Service_ErrUpstreamUnavailable) ('': '' @ t)) 502 ''upstream_unavailable''"
| no_product: "line \<in> set (req_Items req) \<Longrightarrow>
     e_net E n (get_request (product_url (ds_products d) (itemreq_ProductID line))) = Inr (404, b) \<Longrightarrow>
     refusal E d req n (errorf_w (Sentinel Service_ErrProductNotFound) ('': product '' @ itemreq_ProductID line)) 404 ''product_not_found''"
| unavailable: "line \<in> set (req_Items req) \<Longrightarrow>
     e_net E n (get_request (product_url (ds_products d) (itemreq_ProductID line))) = Inr (200, b) \<Longrightarrow>
     decode_body ''client'' ''ProductInfo'' product_fields zero_product b = Inr product \<Longrightarrow>
     \<not> product_IsActive product \<or> sint (product_StockQuantity product) < sint (itemreq_Quantity line) \<Longrightarrow>
     refusal E d req n (errorf_w (Sentinel Service_ErrProductUnavailable) ('': product '' @ itemreq_ProductID line)) 409 ''product_unavailable''"
| unpriced: "line \<in> set (req_Items req) \<Longrightarrow>
     e_new_request E (product_url (ds_products d) (itemreq_ProductID line)) \<noteq> None
     \<or> (\<forall>st b. e_net E n (get_request (product_url (ds_products d) (itemreq_ProductID line))) = Inr (st, b) \<longrightarrow> st \<noteq> 404 \<and> (st = 200 \<longrightarrow>
          (\<forall>product. decode_body ''client'' ''ProductInfo'' product_fields zero_product b = Inr product \<longrightarrow> e_uuid_parse E (product_ID product) = None))) \<Longrightarrow>
     refusal E d req n (errorf_w (Sentinel Service_ErrUpstreamUnavailable) ('': '' @ t)) 502 ''upstream_unavailable''"

lemma refusal_reply:
  "refusal E d req n e st code \<Longrightarrow> writeServiceError E e od (w, c) = (Ret (), (w, error_reply E e od st code c))"
  by (induction rule: refusal.induct) (simp_all add: writeServiceError_def Let_def handler_simps error_reply_def)

text \<open>The first line that stands in the way ends the pricing, and the last exchange is the one that says why.\<close>

lemma price_items_refusal:
  assumes "price_items (order_app E d) reqs cents items w = (Ret (Inl e), w')" and "set reqs \<subseteq> set (req_Items req)"
  shows "\<exists>st code. refusal E d req (w_exchanges w' - 1) e st code"
  using assms
proof (induction reqs arbitrary: cents items w)
  case (Cons line reqs)
  then have line: "line \<in> set (req_Items req)" and reqs: "set reqs \<subseteq> set (req_Items req)" by simp_all
  from Cons.prems(1) obtain res w1 where get: "GetProduct E (ds_products d) (itemreq_ProductID line) w = (Ret res, w1)"
    by (auto elim: bindIO_RetE)
  from get show ?case
  proof (cases rule: GetProduct_last)
    case (Missing b)
    with Cons.prems(1) get have e: "e = errorf_w (Sentinel Service_ErrProductNotFound) ('': product '' @ itemreq_ProductID line)"
      and "w' = w1" by (simp_all add: bindIO_Ret)
    with no_product [OF line Missing(1)] show ?thesis unfolding e by blast
  next
    case (Unusable err)
    with Cons.prems(1) get have e: "e = errorf_w (Sentinel Service_ErrUpstreamUnavailable) ('': '' @ error_text err)"
      and w': "w' = w1" by (simp_all add: bindIO_Ret)
    from unpriced [OF line, of E d "w_exchanges w' - 1" "error_text err"] Unusable(3) show ?thesis unfolding e w' by blast
  next
    case (Found b product)
    consider (Short) "\<not> product_IsActive product \<or> sint (product_StockQuantity product) < sint (itemreq_Quantity line)"
      | (Invalid) "\<not> (\<not> product_IsActive product \<or> sint (product_StockQuantity product) < sint (itemreq_Quantity line))"
          "e_uuid_parse E (product_ID product) = None"
      | (Goes_on) i where "\<not> (\<not> product_IsActive product \<or> sint (product_StockQuantity product) < sint (itemreq_Quantity line))"
          "e_uuid_parse E (product_ID product) = Some i" by blast
    then show ?thesis
    proof cases
      case Short
      with Cons.prems(1) get Found(3) have e: "e = errorf_w (Sentinel Service_ErrProductUnavailable) ('': product '' @ itemreq_ProductID line)"
        and "w' = w1" by (simp_all add: bindIO_Ret)
      with unavailable [OF line Found(1,2) Short] show ?thesis unfolding e by blast
    next
      case Invalid
      with Cons.prems(1) get Found(3) have e: "e = errorf_w (Sentinel Service_ErrUpstreamUnavailable)
          ('': '' @ ''product-service returned an invalid product id'')" and w': "w' = w1" by (simp_all add: bindIO_Ret)
      from unpriced [OF line, of E d "w_exchanges w' - 1" "''product-service returned an invalid product id''"] Found(1,2) Invalid(2)
      show ?thesis unfolding e w' by auto
    next
      case Goes_on
      with Cons.prems(1) get Found(3) Cons.IH [OF _ reqs] show ?thesis by (auto simp: bindIO_Ret elim!: bindIO_RetE)
    qed
  qed
qed simp

lemma refusal_rejection: "refusal E d req n e st code \<Longrightarrow> rejection e"
  by (induction rule: refusal.induct) (simp_all add: rejection_def pricing_error_def)

text \<open>Every error that comes without an order is in the table, or the order could not be persisted.\<close>

lemma persist_refusal:
  assumes "persist_and_settle (order_app E d) od w = (Ret (None, Some e), w')"
  shows "\<exists>f. e = Wrapped (''persisting order: '' @ foreign_text f) (Foreign f)"
proof -
  from assms obtain od' err w1 where create: "Create E od w = (Ret (od', err), w1)"
    and rest: "(case err of Some e \<Rightarrow> ret (None, Some (Wrapped (''persisting order: '' @ error_text e) e))
      | None \<Rightarrow> settle (order_app E d) od') w1 = (Ret (None, Some e), w')"
    by (auto simp: persist_and_settle_def elim!: bindIO_RetE split: prod.splits)
  show ?thesis
  proof (cases err)
    case None
    with rest show ?thesis by (auto simp: settle_def elim!: bindIO_RetE)
  next
    case (Some e')
    with create obtain f where "e' = Foreign f" using Create_foreign by blast
    with Some rest have "e = Wrapped (''persisting order: '' @ foreign_text f) (Foreign f)" by simp
    then show ?thesis by (rule exI)
  qed
qed

lemma place_order_refusal:
  assumes "place_order (order_app E d) req u w = (Ret (None, Some e), w')"
  shows "(\<exists>st code. refusal E d req (w_exchanges w' - 1) e st code)
    \<or> (\<exists>f. e = Wrapped (''persisting order: '' @ foreign_text f) (Foreign f))"
proof -
  from assms obtain i w2 priced w3 where price: "price_items (order_app E d) (req_Items req) 0 [] w2 = (Ret priced, w3)"
    and rest: "(case priced of Inl err \<Rightarrow> ret (None, Some err)
      | Inr (cents, items) \<Rightarrow> persist_and_settle (order_app E d) (new_order i u cents items)) w3 = (Ret (None, Some e), w')"
    unfolding place_order_def by (elim bindIO_RetE) blast
  show ?thesis
  proof (cases priced)
    case (Inl err)
    with rest price_items_refusal [OF price [unfolded Inl] subset_refl] show ?thesis by simp
  next
    case (Inr ci)
    with rest persist_refusal show ?thesis by (cases ci) simp
  qed
qed

lemma CreateOrder_refusal:
  assumes "CreateOrder (order_app E d) req w = (Ret (None, Some e), w')"
  shows "(\<exists>st code. refusal E d req (w_exchanges w' - 1) e st code)
    \<or> (\<exists>f. e = Wrapped (''persisting order: '' @ foreign_text f) (Foreign f))"
proof (cases "e_uuid_parse E (req_UserID req)")
  case None
  with assms have "e = errorf_w (Sentinel Service_ErrValidation) '': invalid userId''" by (simp add: CreateOrder_def)
  with None show ?thesis by (auto intro: malformed_user)
next
  case (Some u)
  with assms obtain verified w1 where verify: "VerifyUserExists E (ds_users d) (req_UserID req) w = (Ret verified, w1)"
    by (auto simp: CreateOrder_def elim: bindIO_RetE)
  note run = assms [unfolded CreateOrder_def] Some verify
  from verify show ?thesis
  proof (cases rule: VerifyUserExists_last)
    case (Missing b)
    with run have "e = Sentinel Service_ErrUserNotFound" and "w' = w1" by (simp_all add: bindIO_Ret)
    with no_user [OF Missing(1)] show ?thesis by blast
  next
    case (Found b)
    with run have "place_order (order_app E d) req u w1 = (Ret (None, Some e), w')" by (simp add: bindIO_Ret)
    then show ?thesis by (rule place_order_refusal)
  next
    case (Unusable err)
    with run have e: "e = errorf_w (Sentinel Service_ErrUpstreamUnavailable) ('': '' @ error_text err)"
      and w': "w' = w1" by (simp_all add: bindIO_Ret)
    from unverified [of E d req "w_exchanges w' - 1" "error_text err"] Unusable(3) show ?thesis unfolding e w' by blast
  qed
qed

lemma created_or_declined:
  assumes "ok_world w" and "CreateOrder (order_app E d) req w = (Ret (Some od, err), w')"
  shows "(err = None \<and> order_Status od = OrderStatusConfirmed
      \<or> err = Some (Sentinel Service_ErrPaymentDeclined) \<and> order_Status od = OrderStatusFailed)
    \<and> stored w (order_ID od) = None \<and> stored w' (order_ID od) \<noteq> None"
  using assms
proof (cases rule: app.CreateOrder_E)
  case (Settled od' st charged wa wb wc wd upd k)
  have "stored w (order_ID od) = None" using Settled(2,4) by (simp add: added_def)
  moreover have "stored w' (order_ID od) \<noteq> None" using stored_after [OF assms] by auto
  moreover have "final_status charged = OrderStatusConfirmed \<or> final_status charged = OrderStatusFailed"
    by (rule final_status_cases)
  ultimately show ?thesis using Settled(4) by (auto simp: status_defs)
qed auto

lemma handle_CreateOrder_unbound:
  "e_bind E (ctx_body c) = Inl err \<Longrightarrow> handle_CreateOrder E S (w, c)
    = (Ret (), (w, c\<lparr>ctx_status := 400, ctx_json := Some (error_body E ''validation_error'' (foreign_text err) None)\<rparr>))"
  by (simp add: handle_CreateOrder_def io_bind_lift handler_simps)

lemma persisting_not_rejected: "\<not> rejection (Wrapped m (Foreign f))"
  by (simp add: rejection_def pricing_error_def)

lemma unreturned_E:
  assumes "ok_world w" and "CreateOrder (order_app E d) req w = (Ret (None, Some e), w')"
  obtains (Refused) st code where "refusal E d req (w_exchanges w' - 1) e st code" and "stored w' = stored w" and "charges w' = charges w"
    | (Unpersisted) f where "e = Wrapped (''persisting order: '' @ foreign_text f) (Foreign f)" and "charges w' = charges w"
  using assms
proof (cases rule: app.CreateOrder_E)
  case (Rejected e')
  then have "rejection e" by simp
  then have "e \<noteq> Wrapped (''persisting order: '' @ foreign_text f) (Foreign f)" for f using persisting_not_rejected by metis
  with CreateOrder_refusal [OF assms(2)] obtain st code where "refusal E d req (w_exchanges w' - 1) e st code" by metis
  with Rejected Refused show thesis by metis
next
  case (Unpersisted f od)
  then show thesis using that(2) by simp
qed auto

text \<open>C19. The contract of \<open>POST /api/v1/orders\<close>, with the whole reply. A body that cannot be bound is a 400 with the error of the binding, and
  nothing happens. Otherwise \<open>CreateOrder\<close> runs, and: a 201 carries the order it returned, new, stored and confirmed; a 402 with the code
  \<open>payment_declined\<close> carries the order too, new, stored and failed; for an error without an order nothing is charged, and the reply
  has no order and the text of the error, with the status and the code of the table \<open>refusal\<close>, by the last exchange of the
  call, and unchanged tables, or 500 and \<open>internal_error\<close> when the order could not be persisted. There is no other
  reply.\<close>

theorem handle_CreateOrder_contract:
  assumes "ok_world w" and "handle_CreateOrder E (order_app E d) (w, c) = (Ret (), (w', c'))"
  shows "case e_bind E (ctx_body c) of
      Inl err \<Rightarrow> w' = w
        \<and> c' = c\<lparr>ctx_status := 400, ctx_json := Some (error_body E ''validation_error'' (foreign_text err) None)\<rparr>
    | Inr req \<Rightarrow> \<exists>od err. CreateOrder (order_app E d) req w = (Ret (od, err), w') \<and> (case (od, err) of
        (Some x, None) \<Rightarrow> c' = c\<lparr>ctx_status := 201, ctx_json := Some (order_json E x)\<rparr> \<and> order_Status x = OrderStatusConfirmed
          \<and> stored w (order_ID x) = None \<and> stored w' (order_ID x) \<noteq> None
      | (Some x, Some e) \<Rightarrow> c' = c\<lparr>ctx_status := 402,
            ctx_json := Some (error_body E ''payment_declined'' ''payment was declined'' (Some x))\<rparr>
          \<and> order_Status x = OrderStatusFailed \<and> stored w (order_ID x) = None \<and> stored w' (order_ID x) \<noteq> None
      | (None, Some e) \<Rightarrow> charges w' = charges w \<and> (\<exists>st code.
            c' = c\<lparr>ctx_status := st, ctx_json := Some (error_body E code (error_text e) None)\<rparr>
          \<and> (refusal E d req (w_exchanges w' - 1) e st code \<and> stored w' = stored w
             \<or> (\<exists>f. e = Wrapped (''persisting order: '' @ foreign_text f) (Foreign f)) \<and> st = 500 \<and> code = ''internal_error''))
      | (None, None) \<Rightarrow> False)"
proof (cases "e_bind E (ctx_body c)")
  case (Inl err)
  from assms(2) [unfolded handle_CreateOrder_unbound [OF Inl]] Inl show ?thesis by simp
next
  case (Inr req)
  from assms(2) show ?thesis
  proof (cases rule: handle_CreateOrder_E)
    case (Created req' od)
    from assms(1) Created(2) obtain x where "od = Some x" by (cases rule: app.CreateOrder_E) auto
    with created_or_declined [OF assms(1), of E d req x None w'] Created Inr show ?thesis by (auto simp: order_json_ptr_def)
  next
    case (Error req' od e)
    then have req: "req' = req" using Inr by simp
    show ?thesis
    proof (cases od)
      case (Some x)
      with created_or_declined [OF assms(1), of E d req x "Some e" w'] Error(2) req have
        e: "e = Sentinel Service_ErrPaymentDeclined" and x: "order_Status x = OrderStatusFailed"
          "stored w (order_ID x) = None" "stored w' (order_ID x) \<noteq> None" by auto
      then have "c' = error_reply E e od 402 ''payment_declined'' c"
        using Error(3) writeServiceError_reply [of Service_ErrPaymentDeclined 402 "''payment_declined''" e E od w' c]
        by (simp add: service_replies_def)
      with e x Some Error(2) Inr req show ?thesis by (auto simp: error_reply_def)
    next
      case None
      from assms(1) Error(2) [unfolded None req] show ?thesis
      proof (cases rule: unreturned_E)
        case (Refused st code)
        from Error(3) [unfolded None refusal_reply [OF Refused(1)]] have "c' = error_reply E e None st code c" by simp
        with Refused Error(2) Inr None req show ?thesis by (auto simp: error_reply_def)
      next
        case (Unpersisted f)
        with Error(3) writeServiceError_internal [of e E od w' c] None
        have "c' = error_reply E e None 500 ''internal_error'' c" by (simp add: service_replies_def)
        with Unpersisted Error(2) Inr None req show ?thesis by (auto simp: error_reply_def)
      qed
    qed
  qed (use Inr in auto)
qed

subsection \<open>The replies to reads\<close>

lemma not_found_reply:
  "writeServiceError E (Sentinel Service_ErrOrderNotFound) od (w, c)
     = (Ret (), (w, error_reply E (Sentinel Service_ErrOrderNotFound) od 404 ''order_not_found'' c))"
  by (rule writeServiceError_reply) (simp_all add: service_replies_def)

lemma foreign_reply:
  "writeServiceError E (Foreign f) od (w, c) = (Ret (), (w, error_reply E (Foreign f) od 500 ''internal_error'' c))"
  by (rule writeServiceError_internal) (simp add: service_replies_def)

text \<open>The contract of \<open>GET /api/v1/orders/:id\<close>: it always replies and changes nothing. An id that is no UUID is a 400. Otherwise a 200
  carries the stored order with exactly its items, a 404 means that it is not stored, and anything else is a 500.\<close>

lemma handle_GetOrder_contract:
  assumes "handle_GetOrder E (order_app E d) (w, c) = (r, (w', c'))"
  shows "r = Ret () \<and> w_db w' = w_db w \<and> (case e_uuid_parse E (ctx_param_id c) of
      None \<Rightarrow> ctx_status c' = 400
    | Some i \<Rightarrow>
        (\<exists>row irows. ctx_status c' = 200 \<and> stored w i = Some (row, mset irows)
           \<and> ctx_json c' = Some (order_json E (order_of_row row (map item_of_row irows))))
        \<or> ctx_status c' = 404 \<and> stored w i = None \<or> ctx_status c' = 500)"
proof (cases "e_uuid_parse E (ctx_param_id c)")
  case None
  with assms show ?thesis by (auto simp: handle_GetOrder_def io_bind_lift handler_simps)
next
  case (Some i)
  obtain r1 w1 where get: "GetOrder (order_app E d) i w = (r1, w1)" by fastforce
  note run = assms [unfolded handle_GetOrder_def io_bind_lift]
  from get show ?thesis
  proof (cases rule: GetOrder_E)
    case (Found row irows)
    with run Some get show ?thesis by (auto simp: io_bind_lift handler_simps)
  next
    case Missing
    with run Some get show ?thesis by (auto simp: io_bind_lift not_found_reply error_reply_def)
  next
    case (Broken f)
    with run Some get show ?thesis by (auto simp: io_bind_lift foreign_reply error_reply_def)
  qed
qed

text \<open>The contract of \<open>GET /api/v1/orders?userId=\<close>: a reply 200 lists the user's orders and no others, newest first, with their number;
  every listed order has \<open>null\<close> for its items, which are not read.\<close>

lemma handle_ListOrders_contract:
  assumes "handle_ListOrders E (order_app E d) (w, c) = (r, (w', c'))"
  shows "r = Ret () \<and> w_db w' = w_db w \<and> (case e_uuid_parse E (ctx_query_userId c) of
      None \<Rightarrow> ctx_status c' = 400
    | Some u \<Rightarrow> ctx_status c' = 500 \<or> (\<exists>ods. ctx_status c' = 200
        \<and> ctx_json c' = Some (JObject [(''items'', json_slice (order_json E) ods), (''total'', JNumber (show_nat (length ods)))])
        \<and> mset (map order_ID ods) = mset (map row_id (filter (\<lambda>r. row_user_id r = u) (db_orders (w_db w))))
        \<and> sorted_wrt (\<lambda>a b. order_CreatedAt b \<le> order_CreatedAt a) ods
        \<and> (\<forall>od\<in>set ods. order_UserID od = u \<and> (\<exists>ms. order_json E od = JObject ms \<and> map_of ms ''items'' = Some JNull))))"
proof (cases "e_uuid_parse E (ctx_query_userId c)")
  case None
  with assms show ?thesis by (auto simp: handle_ListOrders_def io_bind_lift handler_simps)
next
  case (Some u)
  obtain r1 w1 where list: "ListByUser E u w = (r1, w1)" by fastforce
  note run = assms [unfolded handle_ListOrders_def io_bind_lift]
  have json: "\<exists>ms. order_json E (order_of_row row []) = JObject ms \<and> map_of ms ''items'' = Some JNull" for row
    by (simp add: order_json_def order_of_row_def json_slice_def)
  from list show ?thesis
  proof (cases rule: ListByUser_E)
    case (Rows rank)
    define ods where "ods = map (\<lambda>row. order_of_row row []) (select_by_user rank u (w_db w))"
    have "map order_ID ods = map row_id (select_by_user rank u (w_db w))"
      by (simp add: ods_def order_of_row_def)
    then have "mset (map order_ID ods) = mset (map row_id (filter (\<lambda>r. row_user_id r = u) (db_orders (w_db w))))"
      by (simp only: mset_map mset_select_by_user)
    moreover have "\<forall>od\<in>set ods. order_UserID od = u" "sorted_wrt (\<lambda>a b. order_CreatedAt b \<le> order_CreatedAt a) ods"
      using select_by_user_sorted [of rank u "w_db w"]
      by (auto simp: ods_def set_select_by_user order_of_row_def sorted_wrt_map)
    moreover have "\<forall>od\<in>set ods. \<exists>ms. order_json E od = JObject ms \<and> map_of ms ''items'' = Some JNull"
      using json by (auto simp: ods_def)
    moreover have "r = Ret ()" "w_db w' = w_db w" "ctx_status c' = 200" "ctx_json c' = Some (JObject
        [(''items'', json_slice (order_json E) ods), (''total'', JNumber (show_nat (length ods)))])"
      using run Some list Rows by (auto simp: io_bind_lift handler_simps ListOrdersByUser_def ods_def)
    ultimately show ?thesis using Some by auto
  next
    case (Broken ods f)
    with run Some list show ?thesis by (auto simp: io_bind_lift foreign_reply error_reply_def ListOrdersByUser_def)
  qed
qed

text \<open>Liveness and readiness: \<open>/health\<close> is a 200 in every environment and asks neither the database nor the network; \<open>/ready\<close> is a 200
  exactly when the ping of the database succeeds, and a 503 otherwise. Neither changes the tables.\<close>

lemma health_contract:
  "(\<exists>w' c'. handle_Health E (w, c) = (Ret (), (w', c')) \<and> ctx_status c' = 200 \<and> w' = w\<lparr>w_nows := Suc (w_nows w)\<rparr>)
   \<and> (\<exists>w' c'. handle_Ready E (w, c) = (Ret (), (w', c')) \<and> w_db w' = w_db w
        \<and> ctx_status c' = (if e_ping E (w_queries w) = None then 200 else 503))"
  by (auto simp: handle_Health_def handle_Ready_def io_bind_lift handler_simps time_Now_def pool_Ping_def split: option.splits)

subsection \<open>Concrete requests\<close>

definition shop_body :: body where
  "shop_body = JsonBody (JObject [(''userId'', JString ''1''),
     (''items'', JArray [JObject [(''productId'', JString ''2''), (''quantity'', JNumber (show_int 2))]])])"

definition shop_context :: gin_context where
  "shop_context = \<lparr>ctx_method = ''POST'', ctx_path = ''/api/v1/orders'', ctx_header_request_id = [],
     ctx_param_id = ''1'', ctx_query_userId = ''1'', ctx_body = shop_body, ctx_keys = [], ctx_status = 200,
     ctx_headers = [], ctx_json = None\<rparr>"

lemma shop_bind: "example_bind shop_body = Inr shop_request"
  using atoi_show_int [of 2]
  by (simp add: example_bind_def example_line_def shop_body_def shop_request_def order_binding_ok_def item_binding_ok_def
      in_int64_def)

lemma shop_handled: "handle_CreateOrder shop_env (order_app shop_env shop_clients) (start_world empty_db, shop_context)
    = (Ret (), (shop_world, shop_context\<lparr>ctx_status := 201, ctx_json := Some (order_json shop_env shop_order)\<rparr>))"
proof -
  have "e_bind shop_env (ctx_body shop_context) = Inr shop_request"
    by (simp add: shop_env_def calm_env_def shop_context_def shop_bind)
  then show ?thesis by (simp add: handle_CreateOrder_def io_bind_lift handler_simps shop_run order_json_ptr_def)
qed

theorem handle_CreateOrder_contract_witness:
  "order_Status shop_order = OrderStatusConfirmed
    \<and> stored shop_world (order_ID shop_order) \<noteq> None"
proof -
  have "e_bind shop_env (ctx_body shop_context) = Inr shop_request"
    by (simp add: shop_env_def calm_env_def shop_context_def shop_bind)
  with handle_CreateOrder_contract [OF start_world_ok shop_handled] shop_run show ?thesis by auto
qed

definition shop_get_context :: gin_context where
  "shop_get_context = shop_context\<lparr>ctx_method := ''GET'', ctx_path := ''/api/v1/orders/1''\<rparr>"

lemma shop_parse: "e_uuid_parse shop_env ''1'' = Some 1"
  by (simp add: shop_env_def calm_env_def decimal_uuid_parse_def is_digit_def digits_value_def digit_value_def)

text \<open>The shop when payment-service cannot be reached.\<close>

definition payments_down_env :: env where
  "payments_down_env = shop_env\<lparr>e_net := \<lambda>n rq. if rq_method rq = ''POST''
     then Inl (ForeignError ''connect: connection refused'' None) else shop_net n rq\<rparr>"

text \<open>An unreachable payment-service is reported as a declined payment: after the retries the reply is 402 with the code
  \<open>payment_declined\<close>, not 502, and the order is stored as failed.\<close>

lemma payment_outage_is_payment_declined:
  "\<exists>w' c' od. handle_CreateOrder payments_down_env (order_app payments_down_env shop_clients) (start_world empty_db, shop_context)
      = (Ret (), (w', c'))
    \<and> ctx_status c' = 402
    \<and> ctx_json c' = Some (error_body payments_down_env ''payment_declined'' ''payment was declined'' (Some od))
    \<and> map row_status (db_orders (w_db w')) = [OrderStatusFailed] \<and> length (charges w') = 4"
proof -
  have bind: "e_bind payments_down_env (ctx_body shop_context) = Inr shop_request"
    by (simp add: payments_down_env_def shop_env_def calm_env_def shop_context_def shop_bind)
  obtain r w' where run: "CreateOrder (order_app payments_down_env shop_clients) shop_request (start_world empty_db) = (r, w')"
    by fastforce
  then have "r = Ret (Some (shop_order\<lparr>order_Status := OrderStatusFailed\<rparr>), Some (Sentinel Service_ErrPaymentDeclined))"
    and "map row_status (db_orders (w_db w')) = [OrderStatusFailed] \<and> length (charges w') = 4"
    by (auto simp: payments_down_env_def concrete_app_simps classifyErr_def gave_up_def simp del: decode_body.simps)
  with bind run show ?thesis
    by (intro exI) (auto simp: handle_CreateOrder_def io_bind_lift handler_simps writeServiceError_def Let_def)
qed

end
