(* ===== verification/Order_Server.thy ===== *)
theory Order_Server
  imports Order_Handlers "HOL-Library.AList"
begin

section \<open>Middleware, routes and the server's states (\<open>internal/middleware\<close>, \<open>cmd/server\<close>)\<close>

text \<open>
  Every request runs through \<open>gin.Recovery\<close>, \<open>RequestID\<close> and \<open>StructuredLogging\<close> to its handler; \<open>c.Next()\<close> is the rest
  of the chain. \<open>gin.Recovery\<close> is a parameter; what the server relies on of it is \<open>recovers\<close>. The last section follows the
  server from request to request: an inductive definition of its reachable states, and the invariant that holds in all
  of them.
\<close>

subsection \<open>\<open>middleware.go\<close>\<close>

definition RequestIDHeader :: string where
  "RequestIDHeader = ''X-Request-Id''"

definition c_Set :: "string \<Rightarrow> string \<Rightarrow> ('w server, unit) io" where
  "c_Set k v = (\<lambda>(w, c). (Ret (), (w, c\<lparr>ctx_keys := AList.update k v (ctx_keys c)\<rparr>)))"

definition c_Header :: "string \<Rightarrow> string \<Rightarrow> ('w server, unit) io" where
  "c_Header k v = (\<lambda>(w, c). (Ret (), (w, c\<lparr>ctx_headers := AList.update k v (ctx_headers c)\<rparr>)))"

definition uuid_NewString :: "env \<Rightarrow> (world, string) io" where
  "uuid_NewString E = bindIO (uuid_New E) (\<lambda>u. ret (e_uuid_string E u))"

definition RequestID :: "env \<Rightarrow> (world server, unit) io \<Rightarrow> (world server, unit) io" where
  "RequestID E c_Next =
     bindIO gin_ctx (\<lambda>c.
     bindIO (if ctx_header_request_id c = [] then lift (uuid_NewString E) else ret (ctx_header_request_id c)) (\<lambda>requestID.
     bindIO (c_Set ''requestId'' requestID) (\<lambda>_.
     bindIO (c_Header RequestIDHeader requestID) (\<lambda>_.
     c_Next))))"

text \<open>\<open>time.Since\<close>, which saturates, and \<open>Milliseconds\<close>, which truncates toward zero.\<close>

definition time_Sub :: "time \<Rightarrow> time \<Rightarrow> int" where
  "time_Sub t u = max (- (2 ^ 63)) (min (2 ^ 63 - 1) (t - u))"

definition Milliseconds :: "int \<Rightarrow> int" where
  "Milliseconds d = (if 0 \<le> d then d div 1000000 else - ((- d) div 1000000))"

definition request_attrs :: "gin_context \<Rightarrow> int \<Rightarrow> (string \<times> log_value) list" where
  "request_attrs c d = [(''method'', LString (ctx_method c)), (''path'', LString (ctx_path c)),
     (''status'', LInt (sint (ctx_status c))), (''durationMs'', LInt (Milliseconds d)),
     (''requestId'', case map_of (ctx_keys c) ''requestId'' of Some s \<Rightarrow> LString s | None \<Rightarrow> LError None)]"

definition StructuredLogging :: "env \<Rightarrow> (world server, unit) io \<Rightarrow> (world server, unit) io" where
  "StructuredLogging E c_Next =
     bindIO (lift (time_Now E)) (\<lambda>start.
     bindIO c_Next (\<lambda>_.
     bindIO (lift (time_Now E)) (\<lambda>now.
     bindIO gin_ctx (\<lambda>c.
     lift (log_at LevelInfo ''request_completed'' (request_attrs c (time_Sub now start)))))))"

subsection \<open>Routes (\<open>main.go\<close>, lines 74 to 88)\<close>

datatype endpoint = GET_health | GET_ready | POST_orders | GET_orders_id | GET_orders

definition routes :: "(string \<times> string \<times> endpoint) list" where
  "routes = [(''GET'', ''/health'', GET_health), (''GET'', ''/ready'', GET_ready), (''POST'', ''/api/v1/orders'', POST_orders),
     (''GET'', ''/api/v1/orders/:id'', GET_orders_id), (''GET'', ''/api/v1/orders'', GET_orders)]"

fun handler_of :: "env \<Rightarrow> downstream \<Rightarrow> endpoint \<Rightarrow> (world server, unit) io" where
  "handler_of E d GET_health = hh_Health (NewHealthHandler E)"
| "handler_of E d GET_ready = hh_Ready (NewHealthHandler E)"
| "handler_of E d POST_orders = oh_CreateOrder (NewOrderHandler E (order_app E d))"
| "handler_of E d GET_orders_id = oh_GetOrder (NewOrderHandler E (order_app E d))"
| "handler_of E d GET_orders = oh_ListOrders (NewOrderHandler E (order_app E d))"

text \<open>
  \<open>gin.Recovery\<close> runs the rest of the chain, and turns a panic of it into a response with status 500, on the state
  the panic left.
\<close>

type_synonym recovery = "(world server, unit) io \<Rightarrow> (world server, unit) io"

definition recovers :: "recovery \<Rightarrow> bool" where
  "recovers recovery \<longleftrightarrow> (\<forall>m s. (\<forall>s'. m s = (Ret (), s') \<longrightarrow> recovery m s = (Ret (), s'))
     \<and> (\<forall>p w c. m s = (Panic p, (w, c)) \<longrightarrow> (\<exists>c'. recovery m s = (Ret (), (w, c'))
          \<and> ctx_status c' = 500 \<and> ctx_headers c' = ctx_headers c)))"

definition catch_all :: recovery where
  "catch_all m s = (case m s of (Ret x, s') \<Rightarrow> (Ret (), s')
     | (Panic p, (w, c)) \<Rightarrow> (Ret (), (w, c\<lparr>ctx_status := 500\<rparr>)))"

lemma recovers_Ret: "recovers recovery \<Longrightarrow> m s = (Ret x, s') \<Longrightarrow> recovery m s = (Ret (), s')"
  unfolding recovers_def by (cases x) blast

lemma recovers_Panic:
  assumes "recovers recovery" and "m s = (Panic p, (w, c))"
  obtains c' where "recovery m s = (Ret (), (w, c'))" and "ctx_status c' = 500" and "ctx_headers c' = ctx_headers c"
  using assms unfolding recovers_def by blast

lemma catch_all_recovers: "recovers catch_all"
  by (auto simp: recovers_def catch_all_def)

definition chain :: "env \<Rightarrow> downstream \<Rightarrow> recovery \<Rightarrow> endpoint \<Rightarrow> (world server, unit) io" where
  "chain E d recovery ep = recovery (RequestID E (StructuredLogging E (handler_of E d ep)))"

text \<open>A request comes with a context on which nothing is set or written yet.\<close>

definition fresh_context :: "gin_context \<Rightarrow> bool" where
  "fresh_context c \<longleftrightarrow> ctx_keys c = [] \<and> ctx_headers c = [] \<and> ctx_status c = 200 \<and> ctx_json c = None"

subsection \<open>What a request does to the orders\<close>

abbreviation quiet :: "world \<Rightarrow> world \<Rightarrow> bool" where
  "quiet \<equiv> observed_state.untouched (\<lambda>w. stored w) (\<lambda>w. charges w) ok_world"

definition order_step :: "env \<Rightarrow> downstream \<Rightarrow> world \<Rightarrow> world \<Rightarrow> bool" where
  "order_step E d w w' \<longleftrightarrow> (ok_world w \<longrightarrow> ok_world w' \<and> (stored w' = stored w \<and> charges w' = charges w
     \<or> (\<exists>b req od k. e_bind E b = Inr req \<and> order_for (order_app E d) req od
          \<and> placed (e_timestamptz E) od (stored w) (stored w')
          \<and> charges w' = charges w @ replicate k (charge_post (ds_payments d) (charge_of (order_app E d) od))
          \<and> k \<le> max_sends (ds_payments d))))"

lemma quiet_order_step: "quiet w w' \<Longrightarrow> order_step E d w w'"
  by (simp add: observed_state.untouched_def order_step_def)

lemma quiet_then_step: "quiet w w1 \<Longrightarrow> order_step E d w1 w' \<Longrightarrow> order_step E d w w'"
  unfolding observed_state.untouched_def order_step_def by (intro impI) simp

lemma step_then_quiet: "order_step E d w w1 \<Longrightarrow> quiet w1 w' \<Longrightarrow> order_step E d w w'"
  unfolding observed_state.untouched_def order_step_def by (intro impI) simp

text \<open>The same relations on the state of a handler, whose context is free.\<close>

definition on_world :: "('w \<Rightarrow> 'w \<Rightarrow> bool) \<Rightarrow> 'w server \<Rightarrow> 'w server \<Rightarrow> bool" where
  "on_world R s s' \<longleftrightarrow> R (fst s) (fst s')"

lemma preserves_lift: "preserves R m \<Longrightarrow> preserves (on_world R) (lift m)"
  by (fastforce simp: preserves_def on_world_def lift_def split: prod.splits)

lemma preserves_ctx_only:
  "reflp R \<Longrightarrow> preserves (on_world R) gin_ctx" "reflp R \<Longrightarrow> preserves (on_world R) (c_JSON st j)"
  "reflp R \<Longrightarrow> preserves (on_world R) (c_Set k v)" "reflp R \<Longrightarrow> preserves (on_world R) (c_Header k v)"
  by (auto simp: preserves_def on_world_def gin_ctx_def c_JSON_def c_Set_def c_Header_def reflp_def split: prod.splits)

lemma preserves_writeServiceError: "reflp R \<Longrightarrow> preserves (on_world R) (writeServiceError E err od)"
  by (simp add: writeServiceError_def Let_def preserves_ctx_only)

lemmas quiet_laws = observed_state.untouched_reflp [of "\<lambda>w. stored w" "\<lambda>w. charges w" ok_world]
  observed_state.untouched_transp [of "\<lambda>w. stored w" "\<lambda>w. charges w" ok_world]

lemma order_step_reflp: "reflp (order_step E d)"
  by (auto simp: reflp_def order_step_def)

lemma preserves_mono: "preserves R m \<Longrightarrow> (\<And>s s'. R s s' \<Longrightarrow> R' s s') \<Longrightarrow> preserves R' m"
  by (auto simp: preserves_def)

lemma bind_quiet_step:
  assumes "preserves (on_world quiet) m" and "\<And>x. preserves (on_world (order_step E d)) (f x)"
  shows "preserves (on_world (order_step E d)) (bindIO m f)"
proof
  fix s r s' assume "bindIO m f s = (r, s')"
  then show "on_world (order_step E d) s s'"
  proof (cases rule: bindIO_E)
    case (Ret x s1)
    with preservesD [OF assms(1)] preservesD [OF assms(2)] show ?thesis
      unfolding on_world_def by (blast intro: quiet_then_step)
  next
    case (Panic p)
    with preservesD [OF assms(1)] show ?thesis unfolding on_world_def by (blast intro: quiet_order_step)
  qed
qed

lemma bind_step_quiet:
  assumes "preserves (on_world (order_step E d)) m" and "\<And>x. preserves (on_world quiet) (f x)"
  shows "preserves (on_world (order_step E d)) (bindIO m f)"
proof
  fix s r s' assume "bindIO m f s = (r, s')"
  then show "on_world (order_step E d) s s'"
  proof (cases rule: bindIO_E)
    case (Ret x s1)
    with preservesD [OF assms(1)] preservesD [OF assms(2)] show ?thesis
      unfolding on_world_def by (blast intro: step_then_quiet)
  next
    case (Panic p)
    with preservesD [OF assms(1)] show ?thesis unfolding on_world_def by blast
  qed
qed

lemma quiet_primitives:
  "preserves quiet (time_Now E)" "preserves quiet (uuid_NewString E)" "preserves quiet (log_at lvl msg attrs)"
  "preserves quiet (pool_Ping E)"
  by (auto simp: preserves_def observed_state.untouched_def ok_world_def uuid_NewString_def bindIO_def pool_Ping_def effect_defs)

lemma quiet_reads: "preserves quiet (GetOrder (order_app E d) i)" "preserves quiet (ListOrdersByUser (order_app E d) u)"
  unfolding GetOrder_def ListOrdersByUser_def order_app_simps
  by (auto intro!: preserves_bindIO [OF quiet_laws(2)] preserves_ret [OF quiet_laws(1)] GetByID_untouched ListByUser_untouched
      split: sum.splits)

lemma CreateOrder_order_step:
  assumes "e_bind E b = Inr req"
  shows "preserves (order_step E d) (CreateOrder (order_app E d) req)"
proof
  fix w r w' assume run: "CreateOrder (order_app E d) req w = (r, w')"
  show "order_step E d w w'"
    unfolding order_step_def
  proof
    assume "ok_world w"
    from this run show "ok_world w' \<and> (stored w' = stored w \<and> charges w' = charges w
     \<or> (\<exists>b req od k. e_bind E b = Inr req \<and> order_for (order_app E d) req od
          \<and> placed (e_timestamptz E) od (stored w) (stored w')
          \<and> charges w' = charges w @ replicate k (charge_post (ds_payments d) (charge_of (order_app E d) od))
          \<and> k \<le> max_sends (ds_payments d)))"
      by (cases rule: app.CreateOrder_effect) (use assms in blast)+
  qed
qed

lemma quiet_bind: "preserves (on_world quiet) m \<Longrightarrow> (\<And>x. preserves (on_world quiet) (f x)) \<Longrightarrow> preserves (on_world quiet) (bindIO m f)"
  using quiet_laws(2) by (intro preserves_bindIO) (auto simp: transp_def on_world_def)

lemma quiet_ret: "preserves (on_world quiet) (ret x)"
  using quiet_laws(1) by (intro preserves_ret) (auto simp: reflp_def on_world_def)

lemmas quiet_handlers = quiet_bind quiet_ret preserves_ctx_only [OF quiet_laws(1)]
  preserves_writeServiceError [OF quiet_laws(1)] preserves_lift quiet_primitives quiet_reads

lemmas quiet_replies = preserves_ctx_only [OF quiet_laws(1)] preserves_writeServiceError [OF quiet_laws(1)]

lemma POST_orders_step: "preserves (on_world (order_step E d)) (handle_CreateOrder E (order_app E d))"
proof -
  have reply: "preserves (on_world quiet) (case res of (od, err) \<Rightarrow> (case err of
      Some e \<Rightarrow> writeServiceError E e od | None \<Rightarrow> c_JSON 201 (order_json_ptr E od)))" for res
    by (cases res; cases "snd res") (simp_all add: quiet_replies)
  have create: "preserves (on_world (order_step E d)) (bindIO (lift (CreateOrder (order_app E d) req)) (\<lambda>(od, err). case err of
       Some e \<Rightarrow> writeServiceError E e od | None \<Rightarrow> c_JSON 201 (order_json_ptr E od)))" if "e_bind E b = Inr req" for b req
    by (rule bind_step_quiet [OF preserves_lift [OF CreateOrder_order_step [OF that]] reply])
  have "preserves (on_world (order_step E d)) (case e_bind E (ctx_body c) of
       Inl err \<Rightarrow> c_JSON 400 (error_body E ''validation_error'' (foreign_text err) None)
     | Inr req \<Rightarrow> bindIO (lift (CreateOrder (order_app E d) req)) (\<lambda>(od, err). case err of
           Some e \<Rightarrow> writeServiceError E e od | None \<Rightarrow> c_JSON 201 (order_json_ptr E od)))" for c
    by (cases "e_bind E (ctx_body c)") (simp_all add: preserves_ctx_only [OF order_step_reflp] create)
  then show ?thesis unfolding handle_CreateOrder_def by (rule bind_quiet_step [OF quiet_replies(1)])
qed

lemma quiet_endpoints:
  "preserves (on_world quiet) (handle_GetOrder E (order_app E d))"
  "preserves (on_world quiet) (handle_ListOrders E (order_app E d))"
  "preserves (on_world quiet) (handle_Health E)" "preserves (on_world quiet) (handle_Ready E)"
proof -
  have cases:
    "preserves (on_world quiet) (case x of None \<Rightarrow> m | Some y \<Rightarrow> f y)"
      if "preserves (on_world quiet) m" "\<And>y. preserves (on_world quiet) (f y)"
      for x :: "'b option" and m :: "(world server, unit) io" and f
    using that by (cases x) simp_all
  have sums: "preserves (on_world quiet) (case x of Inl y \<Rightarrow> g y | Inr z \<Rightarrow> h z)"
      if "\<And>y. preserves (on_world quiet) (g y)" "\<And>z. preserves (on_world quiet) (h z)"
      for x :: "'c + 'd" and g h :: "_ \<Rightarrow> (world server, unit) io"
    using that by (cases x) simp_all
  show "preserves (on_world quiet) (handle_GetOrder E (order_app E d))"
    unfolding handle_GetOrder_def order_app_simps
    by (intro quiet_bind quiet_replies cases sums preserves_lift quiet_reads)
  show "preserves (on_world quiet) (handle_ListOrders E (order_app E d))"
    unfolding handle_ListOrders_def order_app_simps case_prod_beta
    by (intro quiet_bind quiet_replies cases preserves_lift quiet_reads)
  show "preserves (on_world quiet) (handle_Health E)" "preserves (on_world quiet) (handle_Ready E)"
    unfolding handle_Health_def handle_Ready_def
    by (intro quiet_bind quiet_replies cases preserves_lift quiet_primitives)+
qed

lemma handler_order_step: "preserves (on_world (order_step E d)) (handler_of E d ep)"
proof -
  have "preserves (on_world quiet) m \<Longrightarrow> preserves (on_world (order_step E d)) m" for m :: "(world server, unit) io"
    by (erule preserves_mono) (simp add: on_world_def quiet_order_step)
  with POST_orders_step quiet_endpoints show ?thesis by (cases ep) simp_all
qed

lemma middleware_order_step:
  assumes "preserves (on_world (order_step E d)) m"
  shows "preserves (on_world (order_step E d)) (RequestID E (StructuredLogging E m))"
proof -
  have line: "preserves (on_world quiet) (bindIO (lift (time_Now E)) (\<lambda>now. bindIO gin_ctx (\<lambda>c.
      lift (log_at LevelInfo ''request_completed'' (request_attrs c (time_Sub now start))))))" for start
    by (intro quiet_bind quiet_replies preserves_lift quiet_primitives)
  have logging: "preserves (on_world (order_step E d)) (StructuredLogging E m)"
    unfolding StructuredLogging_def
    by (rule bind_quiet_step [OF preserves_lift [OF quiet_primitives(1)]], rule bind_step_quiet [OF assms], rule line)
  have uid: "preserves (on_world quiet) (if b then lift (uuid_NewString E) else ret i)" for b i
    using preserves_lift [OF quiet_primitives(2)] quiet_ret by (cases b) simp_all
  show ?thesis
    unfolding RequestID_def
    by (rule bind_quiet_step [OF quiet_replies(1)], rule bind_quiet_step [OF uid], rule bind_quiet_step [OF quiet_replies(3)],
        rule bind_quiet_step [OF quiet_replies(4)], rule logging)
qed

lemma chain_order_step:
  assumes "recovers recovery" and "chain E d recovery ep (w, c) = (r, (w', c'))"
  shows "r = Ret () \<and> order_step E d w w'"
proof -
  let ?m = "RequestID E (StructuredLogging E (handler_of E d ep))"
  obtain r1 w1 c1 where run: "?m (w, c) = (r1, (w1, c1))" by (metis surj_pair)
  with preservesD [OF middleware_order_step [OF handler_order_step] run] have "order_step E d w w1"
    by (simp add: on_world_def)
  moreover have "r = Ret () \<and> w' = w1"
  proof (cases r1)
    case (Ret x)
    with recovers_Ret [where m = ?m and s = "(w, c)", OF assms(1)] run assms(2) show ?thesis by (simp add: chain_def)
  next
    case (Panic p)
    obtain c2 where "recovery ?m (w, c) = (Ret (), (w1, c2))"
      using recovers_Panic [where m = ?m and s = "(w, c)", OF assms(1)] run Panic by metis
    with assms(2) show ?thesis by (simp add: chain_def)
  qed
  ultimately show ?thesis by simp
qed

subsection \<open>Reachable states\<close>

text \<open>The order of the migration \<open>0002_seed_data\<close>, as it is inserted at the time \<open>now\<close>.\<close>

definition seed_db :: "time \<Rightarrow> database" where
  "seed_db now =
     \<lparr>db_orders = [\<lparr>row_id = 0xbbbbbbbb000000000000000000000001, row_user_id = 0x22222222222222222222222222222222,
        row_status = ''CONFIRMED'', row_total_cents = 3998, row_currency = ''USD'', row_created_at = now,
        row_updated_at = now\<rparr>],
      db_items = [\<lparr>irow_id = 0xcccccccc000000000000000000000001, irow_order_id = 0xbbbbbbbb000000000000000000000001,
        irow_product_id = 0xaaaaaaaa000000000000000000000001, irow_sku = ''SKU-WIRELESS-MOUSE'', irow_quantity = 2,
        irow_unit_price_cents = 1999\<rparr>]\<rparr>"

text \<open>
  The states between requests: the tables start empty or seeded, and every request, of any method, to any route and with
  any body, runs through the whole chain.
\<close>

inductive reachable :: "env \<Rightarrow> downstream \<Rightarrow> recovery \<Rightarrow> world \<Rightarrow> bool" for E d recovery where
  empty: "reachable E d recovery (start_world empty_db)"
| seeded: "reachable E d recovery (start_world (seed_db now))"
| request: "reachable E d recovery w \<Longrightarrow> fresh_context c \<Longrightarrow> chain E d recovery ep (w, c) = (r, (w', c'))
    \<Longrightarrow> reachable E d recovery w'"

text \<open>What a stored order satisfies.\<close>

definition sound_order :: "order_row \<Rightarrow> item_row multiset \<Rightarrow> bool" where
  "sound_order row its \<longleftrightarrow>
     (row_status row = OrderStatusPending \<or> row_status row = OrderStatusConfirmed \<or> row_status row = OrderStatusFailed)
     \<and> row_currency row = ''USD'' \<and> its \<noteq> {#}
     \<and> row_total_cents row = (\<Sum>it\<in>#its. irow_quantity it * irow_unit_price_cents it) mod 2 ^ 64"

definition sound_charge :: "env \<Rightarrow> downstream \<Rightarrow> stored \<Rightarrow> http_request \<Rightarrow> bool" where
  "sound_charge E d st rq \<longleftrightarrow> (\<exists>i row its cr. st i = Some (row, its) \<and> rq = charge_post (ds_payments d) cr
     \<and> charge_OrderID cr = e_uuid_string E i \<and> charge_UserID cr = e_uuid_string E (row_user_id row)
     \<and> sint (charge_AmountCents cr) = row_total_cents row \<and> charge_Currency cr = row_currency row)"

lemma sound_chargeI:
  "st i = Some (row, its) \<Longrightarrow> rq = charge_post (ds_payments d) cr \<Longrightarrow> charge_OrderID cr = e_uuid_string E i
    \<Longrightarrow> charge_UserID cr = e_uuid_string E (row_user_id row) \<Longrightarrow> sint (charge_AmountCents cr) = row_total_cents row
    \<Longrightarrow> charge_Currency cr = row_currency row \<Longrightarrow> sound_charge E d st rq"
  unfolding sound_charge_def by blast

definition orders_ok :: "env \<Rightarrow> downstream \<Rightarrow> world \<Rightarrow> bool" where
  "orders_ok E d w \<longleftrightarrow> ok_world w \<and> (\<forall>i row its. stored w i = Some (row, its) \<longrightarrow> sound_order row its)
     \<and> (\<forall>rq\<in>set (charges w). sound_charge E d (stored w) rq)"

lemma orders_okI [intro]:
  "ok_world w \<Longrightarrow> (\<And>i row its. stored w i = Some (row, its) \<Longrightarrow> sound_order row its)
    \<Longrightarrow> (\<And>rq. rq \<in> set (charges w) \<Longrightarrow> sound_charge E d (stored w) rq) \<Longrightarrow> orders_ok E d w"
  unfolding orders_ok_def by blast

lemma orders_okD:
  assumes "orders_ok E d w"
  shows "ok_world w" and "stored w i = Some (row, its) \<Longrightarrow> sound_order row its"
    and "rq \<in> set (charges w) \<Longrightarrow> sound_charge E d (stored w) rq"
  using assms unfolding orders_ok_def by blast+

lemma seed_db_wf: "db_wf (seed_db now)"
  by (simp add: db_wf_def seed_db_def order_row_ok_def item_row_ok_def in_int4_def utf8_length_def utf8_continuation_def)

lemma seed_db_stored: "stored_of (seed_db now) i = Some (row, its) \<Longrightarrow> sound_order row its"
  by (auto simp: stored_of_def select_order_def seed_db_def sound_order_def status_defs split: if_splits)

lemma start_orders_ok: "orders_ok E d (start_world empty_db)" "orders_ok E d (start_world (seed_db now))"
  using start_world_ok seed_db_stored [of now]
  by (auto simp: start_world_def ok_world_def seed_db_wf stored_of_def select_order_def empty_db_def)

text \<open>The rows of an order's items carry the sum of its lines.\<close>

lemma encoded_items_sum:
  "those (map (encode_item oid) items) = Some its \<Longrightarrow>
     (\<Sum>it\<in>#mset its. irow_quantity it * irow_unit_price_cents it) = lines_cents items"
proof (induction items arbitrary: its)
  case (Cons it items)
  then obtain row rest where "encode_item oid it = Some row" and its: "its = row # rest"
    and IH: "(\<Sum>it\<in>#mset rest. irow_quantity it * irow_unit_price_cents it) = lines_cents items"
    by (auto split: option.splits)
  then have "irow_quantity row * irow_unit_price_cents row = line_cents it"
    by (auto simp: encode_item_def pg_int4_Some line_cents_def split: option.splits)
  with IH its show ?case by simp
qed simp

lemma placed_sound:
  assumes "order_for S req od" and "req_Items req \<noteq> []" and "order_rows ts od = Some (row, its)"
    and "settled_row row row'" and "order_row_ok row'"
  shows "sound_order row' (mset its)"
    and "row_total_cents row' = sint (order_TotalCents od)" and "row_user_id row' = order_UserID od"
proof -
  have its: "those (map (encode_item (order_ID od)) (order_Items od)) = Some its"
    and row: "encode_order ts od = Some row"
    using assms(3) by (auto simp: order_rows_def split: option.splits)
  from row assms(1,4) have status: "row_status row' = OrderStatusPending \<or> row_status row' = OrderStatusConfirmed
      \<or> row_status row' = OrderStatusFailed" and currency: "row_currency row' = ''USD''"
    and total: "row_total_cents row' = sint (order_TotalCents od)" and user: "row_user_id row' = order_UserID od"
    by (auto simp: encode_order_def order_for_def settled_row_def set_status_def pg_int4_Some status_defs pg_varchar_def
        utf8_length_def utf8_continuation_def split: option.splits if_splits)
  have "order_Items od \<noteq> []" using assms(1,2) by (auto simp: order_for_def)
  then have nonempty: "its \<noteq> []" using its by (cases "order_Items od") (auto split: option.splits)
  have "0 \<le> row_total_cents row'" and "row_total_cents row' < 2 ^ 64"
    using assms(5) by (simp_all add: order_row_ok_def in_int4_def)
  moreover have "uint (order_TotalCents od) = sint (order_TotalCents od) mod 2 ^ 64"
    using uint_sint [of "order_TotalCents od"] by (simp add: take_bit_eq_mod)
  ultimately have "row_total_cents row' = uint (order_TotalCents od)"
    unfolding total by (simp only: mod_pos_pos_trivial)
  also have "uint (order_TotalCents od) = lines_cents (order_Items od) mod 2 ^ 64"
    using assms(1) by (simp add: order_for_def word_total_eq uint_word_of_int)
  finally have "row_total_cents row' = (\<Sum>it\<in>#mset its. irow_quantity it * irow_unit_price_cents it) mod 2 ^ 64"
    by (simp only: encoded_items_sum [OF its])
  with status currency nonempty show "sound_order row' (mset its)" by (simp add: sound_order_def)
  show "row_total_cents row' = sint (order_TotalCents od)" "row_user_id row' = order_UserID od" by fact+
qed

lemma sound_charge_mono: "sound_charge E d st rq \<Longrightarrow> st \<subseteq>\<^sub>m st' \<Longrightarrow> sound_charge E d st' rq"
  unfolding sound_charge_def map_le_def by (metis domI)

lemma order_step_ok:
  assumes "binding_checked E" and "orders_ok E d w" and "order_step E d w w'"
  shows "orders_ok E d w'"
proof -
  note ok = orders_okD [OF assms(2)]
  from assms(3) ok(1) have ok': "ok_world w'" and
    step: "stored w' = stored w \<and> charges w' = charges w \<or> (\<exists>b req od k. e_bind E b = Inr req
        \<and> order_for (order_app E d) req od \<and> placed (e_timestamptz E) od (stored w) (stored w')
        \<and> charges w' = charges w @ replicate k (charge_post (ds_payments d) (charge_of (order_app E d) od))
        \<and> k \<le> max_sends (ds_payments d))"
    by (simp_all add: order_step_def)
  from step show ?thesis
  proof (elim disjE exE conjE)
    assume "stored w' = stored w" "charges w' = charges w"
    with ok ok' show ?thesis by (intro orders_okI) simp_all
  next
    fix b req od k
    assume bind: "e_bind E b = Inr req" and od: "order_for (order_app E d) req od"
      and placed: "placed (e_timestamptz E) od (stored w) (stored w')"
      and sent: "charges w' = charges w @ replicate k (charge_post (ds_payments d) (charge_of (order_app E d) od))"
    from placed obtain row its row' where new: "stored w (order_ID od) = None"
      and rows: "order_rows (e_timestamptz E) od = Some (row, its)" "settled_row row row'"
      and st: "stored w' = (stored w)(order_ID od \<mapsto> (row', mset its))" by (auto simp: placed_def)
    have "req_Items req \<noteq> []" using assms(1) bind by (auto simp: binding_checked_def order_binding_ok_def)
    moreover have "order_row_ok row'"
      using stored_row_ok [of "w_db w'" "order_ID od" row' "mset its"] ok' st by (simp add: ok_world_def)
    ultimately have sound: "sound_order row' (mset its)" and row': "row_total_cents row' = sint (order_TotalCents od)"
      "row_user_id row' = order_UserID od"
      using placed_sound [OF od _ rows] by blast+
    have "stored w \<subseteq>\<^sub>m stored w'" using new by (auto simp: st map_le_def)
    moreover have "sound_charge E d (stored w') (charge_post (ds_payments d) (charge_of (order_app E d) od))"
      by (rule sound_chargeI [where i = "order_ID od" and row = row' and its = "mset its" and cr = "charge_of (order_app E d) od"])
        (use sound row' od in \<open>simp_all add: st charge_of_def sound_order_def order_for_def\<close>)
    ultimately have "\<forall>rq\<in>set (charges w'). sound_charge E d (stored w') rq"
      using ok(3) sound_charge_mono [of E d "stored w" _ "stored w'"] unfolding sent by auto
    then show ?thesis using ok(2) ok' sound by (intro orders_okI) (auto simp: st split: if_splits)
  qed
qed

text \<open>
  The charges of one order: the requests that carry its id as their idempotency key. They are copies of one request.
\<close>

definition charges_of :: "env \<Rightarrow> uuid \<Rightarrow> http_request list \<Rightarrow> http_request list" where
  "charges_of E i = filter (\<lambda>rq. map_of (rq_headers rq) ''Idempotency-Key'' = Some (e_uuid_string E i))"

definition charged_once :: "env \<Rightarrow> downstream \<Rightarrow> world \<Rightarrow> bool" where
  "charged_once E d w \<longleftrightarrow> (\<forall>i. \<exists>k\<le>max_sends (ds_payments d). \<exists>rq. charges_of E i (charges w) = replicate k rq)"

lemma charges_of_append [simp]: "charges_of E i (xs @ ys) = charges_of E i xs @ charges_of E i ys"
  by (simp add: charges_of_def)

lemma charges_of_order:
  assumes "inj (e_uuid_string E)" and "charge_OrderID cr = e_uuid_string E j"
  shows "charges_of E i (replicate k (charge_post c cr)) = (if i = j then replicate k (charge_post c cr) else [])"
  using assms injD [OF assms(1), of j i] by (auto simp: charges_of_def charge_post_def filter_replicate)

lemma charges_of_unstored:
  assumes "inj (e_uuid_string E)" and "\<forall>rq\<in>set rqs. sound_charge E d st rq" and "st i = None"
  shows "charges_of E i rqs = []"
proof -
  have "map_of (rq_headers rq) ''Idempotency-Key'' \<noteq> Some (e_uuid_string E i)" if sound: "sound_charge E d st rq" for rq
  proof -
    from sound obtain j cr where "st j \<noteq> None" "rq = charge_post (ds_payments d) cr" "charge_OrderID cr = e_uuid_string E j"
      unfolding sound_charge_def by blast
    with assms(3) injD [OF assms(1), of j i] show ?thesis by (auto simp: charge_post_def)
  qed
  with assms(2) show ?thesis unfolding charges_of_def by (intro filter_False) blast
qed

lemma order_step_charged_once:
  assumes "inj (e_uuid_string E)" and "orders_ok E d w" and "order_step E d w w'" and "charged_once E d w"
  shows "charged_once E d w'"
  unfolding charged_once_def
proof
  fix i
  from assms(4) obtain k0 rq0 where old: "k0 \<le> max_sends (ds_payments d)" "charges_of E i (charges w) = replicate k0 rq0"
    unfolding charged_once_def by blast
  from assms(3) orders_okD(1) [OF assms(2)] consider "charges w' = charges w"
    | od k where "placed (e_timestamptz E) od (stored w) (stored w')" "k \<le> max_sends (ds_payments d)"
      "charges w' = charges w @ replicate k (charge_post (ds_payments d) (charge_of (order_app E d) od))"
    unfolding order_step_def by blast
  then show "\<exists>k\<le>max_sends (ds_payments d). \<exists>rq. charges_of E i (charges w') = replicate k rq"
  proof cases
    case 1
    with old show ?thesis by auto
  next
    case (2 od k)
    have key: "charge_OrderID (charge_of (order_app E d) od) = e_uuid_string E (order_ID od)" by (simp add: charge_of_def)
    have sent: "charges_of E i (charges w') = charges_of E i (charges w)
        @ (if i = order_ID od then replicate k (charge_post (ds_payments d) (charge_of (order_app E d) od)) else [])"
      by (simp add: 2(3) charges_of_order [OF assms(1) key])
    show ?thesis
    proof (cases "i = order_ID od")
      case True
      with 2(1) have "stored w i = None" by (simp add: placed_def)
      with charges_of_unstored [OF assms(1)] orders_okD(3) [OF assms(2)] have "charges_of E i (charges w) = []" by blast
      with sent True 2(2) show ?thesis by auto
    next
      case False
      with sent old show ?thesis by auto
    qed
  qed
qed

lemma start_charged_once: "charged_once E d (start_world db)"
  by (simp add: charged_once_def start_world_def charges_of_def)

lemma reachable_invariant:
  assumes "reachable E d recovery w" and "binding_checked E" and "recovers recovery"
  shows "orders_ok E d w" and "inj (e_uuid_string E) \<Longrightarrow> charged_once E d w"
proof -
  have "orders_ok E d w \<and> (inj (e_uuid_string E) \<longrightarrow> charged_once E d w)"
    using assms(1)
  proof (induction rule: reachable.induct)
    case (request w c ep r w' c')
    with chain_order_step [OF assms(3) request.hyps(3)] order_step_ok [OF assms(2)] order_step_charged_once show ?case by blast
  qed (simp_all add: start_orders_ok start_charged_once)
  then show "orders_ok E d w" and "inj (e_uuid_string E) \<Longrightarrow> charged_once E d w" by blast+
qed

text \<open>In every state the server can reach, from empty or seeded tables and through any sequence of requests, whatever the
  network, the database and the callers do: the tables satisfy their constraints; every order is pending, confirmed or failed (none is
  ever cancelled), in dollars, has items, and its total is the sum of its lines modulo 2^64; and every charge ever sent is
  the charge of a stored order, for its stored total. The only thing relied on is that the body binding checks its tags.\<close>

lemma reachable_orders_ok:
  assumes "reachable E d recovery w" and "binding_checked E" and "recovers recovery"
  shows "db_wf (w_db w) \<and> (\<forall>i row its. stored w i = Some (row, its) \<longrightarrow>
      row_status row \<in> {OrderStatusPending, OrderStatusConfirmed, OrderStatusFailed} \<and> row_status row \<noteq> OrderStatusCancelled
      \<and> row_currency row = ''USD'' \<and> its \<noteq> {#}
      \<and> row_total_cents row = (\<Sum>it\<in>#its. irow_quantity it * irow_unit_price_cents it) mod 2 ^ 64)
    \<and> (\<forall>rq\<in>set (charges w). \<exists>i row its cr. stored w i = Some (row, its) \<and> rq = charge_post (ds_payments d) cr
      \<and> charge_OrderID cr = e_uuid_string E i \<and> sint (charge_AmountCents cr) = row_total_cents row)"
  using reachable_invariant(1) [OF assms]
  unfolding orders_ok_def sound_order_def sound_charge_def ok_world_def status_defs by fastforce

text \<open>No order is charged twice: in every state the server can reach, all the charge requests that carry the id of one order as
  their idempotency key are copies of one and the same request, and there are at most \<open>retryAttempts + 1\<close> of them, however
  many requests of callers have been served. That different ids have different texts is relied on.\<close>

lemma order_charged_once:
  assumes "reachable E d recovery w" and "binding_checked E" and "recovers recovery" and "inj (e_uuid_string E)"
  shows "\<exists>k rq. filter (\<lambda>rq. map_of (rq_headers rq) ''Idempotency-Key'' = Some (e_uuid_string E i)) (charges w)
      = replicate k rq \<and> int k \<le> max 0 (sint (rc_retryAttempts (ds_payments d)) + 1)"
proof -
  from reachable_invariant(2) [OF assms] obtain k rq where "k \<le> max_sends (ds_payments d)"
    "charges_of E i (charges w) = replicate k rq" unfolding charged_once_def by blast
  then show ?thesis by (intro exI [of _ k] exI [of _ rq]) (auto simp: charges_of_def max_sends_def)
qed

subsection \<open>Every request is answered, logged and traced\<close>

lemma handlers_return:
  assumes "patient d"
  shows "returns (handler_of E d ep)"
proof -
  have lifted: "returns (lift m)" if "returns m" for m :: "(world, 'a) io"
    unfolding returns_def
  proof
    fix s :: "world server"
    from that obtain x w' where "m (fst s) = (Ret x, w')" unfolding returns_def by blast
    then show "\<exists>x s'. lift m s = (Ret x, s')" by (simp add: lift_def case_prod_beta)
  qed
  have ctx: "returns (gin_ctx :: (world server, _) io)" "returns (c_JSON st j :: (world server, _) io)"
    "returns (writeServiceError E err od :: (world server, _) io)" for st j err od
    by (simp_all add: returns_def gin_ctx_def c_JSON_def writeServiceError_def Let_def)
  have "returns (GetOrder (order_app E d) i)" "returns (ListOrdersByUser (order_app E d) u)" for i u
    by (auto simp: GetOrder_def ListOrdersByUser_def intro!: returns_bindIO repository_returns split: sum.splits)
  moreover have "returns (pool_Ping E)" by (simp add: returns_def pool_Ping_def)
  ultimately show ?thesis
    using CreateOrder_returns_from_any [OF assms] primitives_return(7)
    by (cases ep)
      (auto simp: handle_CreateOrder_def handle_GetOrder_def handle_ListOrders_def handle_Health_def handle_Ready_def
        intro!: returns_bindIO lifted ctx split: sum.splits option.splits prod.splits)
qed

definition context_kept :: "gin_context \<Rightarrow> gin_context \<Rightarrow> bool" where
  "context_kept c c' \<longleftrightarrow> ctx_keys c' = ctx_keys c \<and> ctx_headers c' = ctx_headers c
     \<and> ctx_method c' = ctx_method c \<and> ctx_path c' = ctx_path c"

text \<open>A handler writes the status and the body, and nothing else of its context.\<close>

lemma handlers_keep_context: "handler_of E d ep (w, c) = (r, (w', c')) \<Longrightarrow> context_kept c c'"
  by (cases ep)
    (auto simp: handle_CreateOrder_def handle_GetOrder_def handle_ListOrders_def handle_Health_def handle_Ready_def
      io_bind_lift handler_simps context_kept_def writeServiceError_def Let_def
      split: sum.splits option.splits prod.splits outcome.splits if_splits)

lemma log_context_kept: "context_kept c c' \<Longrightarrow> map_of (ctx_keys c') k = map_of (ctx_keys c) k"
  by (simp add: context_kept_def)

text \<open>The chain around a handler that returns: the id is on the context before the handler runs, the line is logged after it.\<close>

definition identified :: "env \<Rightarrow> world \<Rightarrow> gin_context \<Rightarrow> string" where
  "identified E w c = (if ctx_header_request_id c = [] then e_uuid_string E (e_uuid E (w_uuids w)) else ctx_header_request_id c)"

definition with_id :: "string \<Rightarrow> gin_context \<Rightarrow> gin_context" where
  "with_id i c = c\<lparr>ctx_keys := AList.update ''requestId'' i (ctx_keys c),
     ctx_headers := AList.update RequestIDHeader i (ctx_headers c)\<rparr>"

lemma RequestID_eq:
  "RequestID E m (w, c) = m (if ctx_header_request_id c = [] then w\<lparr>w_uuids := Suc (w_uuids w)\<rparr> else w, with_id (identified E w c) c)"
  by (simp add: RequestID_def handler_simps bindIO_def c_Set_def c_Header_def uuid_NewString_def uuid_New_def lift_def
      identified_def with_id_def)

lemma StructuredLogging_Ret:
  assumes "m (w\<lparr>w_nows := Suc (w_nows w)\<rparr>, c) = (Ret (), (w1, c1))"
  shows "StructuredLogging E m (w, c) = (Ret (), (w1\<lparr>w_nows := Suc (w_nows w1), w_trace := w_trace w1
    @ [EvLog LevelInfo ''request_completed'' (request_attrs c1 (time_Sub (e_now E (w_nows w1)) (e_now E (w_nows w))))]\<rparr>, c1))"
  using assms by (simp add: StructuredLogging_def bindIO_def time_Now_def log_at_def emit_def handler_simps)

lemma StructuredLogging_Panic:
  assumes "m (w\<lparr>w_nows := Suc (w_nows w)\<rparr>, c) = (Panic p, (w1, c1))"
  shows "StructuredLogging E m (w, c) = (Panic p, (w1, c1))"
  using assms by (simp add: StructuredLogging_def bindIO_def time_Now_def handler_simps)

text \<open>Every request is answered, and its answer can be traced: when no retry count is negative, the request comes back with an
  \<open>X-Request-Id\<close>, the caller's own if it sent one, and the last thing the server does is to log one line with the method, the
  path, the status of the answer and that id.\<close>

lemma chain_answers:
  assumes "patient d" and "recovers recovery" and "fresh_context c"
  shows "\<exists>w' c' requestID es ms. chain E d recovery ep (w, c) = (Ret (), (w', c'))
    \<and> map_of (ctx_headers c') ''X-Request-Id'' = Some requestID
    \<and> (ctx_header_request_id c \<noteq> [] \<longrightarrow> requestID = ctx_header_request_id c)
    \<and> w_trace w' = es @ [EvLog LevelInfo ''request_completed'' [(''method'', LString (ctx_method c)),
        (''path'', LString (ctx_path c)), (''status'', LInt (sint (ctx_status c'))), (''durationMs'', LInt ms),
        (''requestId'', LString requestID)]]"
proof -
  let ?c = "with_id (identified E w c) c"
  define w0 where "w0 = (if ctx_header_request_id c = [] then w\<lparr>w_uuids := Suc (w_uuids w)\<rparr> else w)"
  obtain w1 c1 where handled: "handler_of E d ep (w0\<lparr>w_nows := Suc (w_nows w0)\<rparr>, ?c) = (Ret (), (w1, c1))"
    using handlers_return [OF assms(1)] unfolding returns_def by (metis old.unit.exhaust surj_pair)
  from handlers_keep_context [OF this] have c1: "context_kept ?c c1" .
  note logged = StructuredLogging_Ret [where m = "handler_of E d ep", OF handled, of E]
  have "RequestID E (StructuredLogging E (handler_of E d ep)) (w, c) = StructuredLogging E (handler_of E d ep) (w0, ?c)"
    by (simp add: RequestID_eq w0_def)
  with recovers_Ret [where m = "RequestID E (StructuredLogging E (handler_of E d ep))" and s = "(w, c)", OF assms(2)] logged c1
  show ?thesis
    by (auto simp: chain_def request_attrs_def context_kept_def with_id_def update_conv RequestIDHeader_def identified_def)
qed

text \<open>A negative retry count: the check of the user panics, before anything was sent or stored.\<close>

lemma negative_retries_panic:
  assumes "sint (rc_retryAttempts (ds_users d)) < 0" and "e_bind E (ctx_body c) = Inr req"
    and "e_uuid_parse E (req_UserID req) = Some u"
  shows "\<exists>m p. handle_CreateOrder E (order_app E d) (w, c) = (Panic nil_dereference, (gave_up (ds_users d) m p None w, c))"
proof -
  obtain m p where "VerifyUserExists E (ds_users d) (req_UserID req) w = (Panic nil_dereference, gave_up (ds_users d) m p None w)"
    using downstream_call_negative [OF assms(1)] unfolding client_calls by blast
  then have "CreateOrder (order_app E d) req w = (Panic nil_dereference, gave_up (ds_users d) m p None w)"
    using assms(3) by (simp add: CreateOrder_def bindIO_Panic)
  then show ?thesis using assms(2) by (auto simp: handle_CreateOrder_def io_bind_lift handler_simps)
qed

lemma negative_retries_chain:
  assumes "sint (rc_retryAttempts (ds_users d)) < 0" and "e_bind E (ctx_body c) = Inr req"
    and "e_uuid_parse E (req_UserID req) = Some u" and "recovers recovery"
  shows "\<exists>w' c'. chain E d recovery POST_orders (w, c) = (Ret (), (w', c')) \<and> ctx_status c' = 500 \<and> w_db w' = w_db w
    \<and> map_of (ctx_headers c') ''X-Request-Id'' = Some (identified E w c)
    \<and> (\<exists>attrs. w_trace w' = w_trace w @ [EvLog LevelError ''downstream call failed after retries'' attrs])"
proof -
  define w0 where "w0 = (if ctx_header_request_id c = [] then w\<lparr>w_uuids := Suc (w_uuids w)\<rparr> else w)"
  let ?w = "w0\<lparr>w_nows := Suc (w_nows w0)\<rparr>" and ?c = "with_id (identified E w c) c"
  have "ctx_body ?c = ctx_body c" by (simp add: with_id_def)
  with negative_retries_panic [OF assms(1), of E ?c req u ?w] assms(2,3) obtain m p where
    panic: "handler_of E d POST_orders (?w, ?c) = (Panic nil_dereference, (gave_up (ds_users d) m p None ?w, ?c))" by auto
  have "RequestID E (StructuredLogging E (handler_of E d POST_orders)) (w, c)
      = (Panic nil_dereference, (gave_up (ds_users d) m p None ?w, ?c))"
    using StructuredLogging_Panic [where m = "handler_of E d POST_orders", OF panic] by (simp add: RequestID_eq w0_def)
  from recovers_Panic [where m = "RequestID E (StructuredLogging E (handler_of E d POST_orders))" and s = "(w, c)",
      OF assms(4) this]
  obtain c' where "chain E d recovery POST_orders (w, c) = (Ret (), (gave_up (ds_users d) m p None ?w, c'))" "ctx_status c' = 500"
    "ctx_headers c' = ctx_headers ?c"
    unfolding chain_def by blast
  then show ?thesis by (auto simp: gave_up_def w0_def with_id_def update_conv RequestIDHeader_def)
qed

subsection \<open>Concrete requests\<close>

lemma shop_binding_checked: "binding_checked shop_env"
  by (auto simp: binding_checked_def shop_env_def calm_env_def dest: example_bind_checked)

lemma shop_patient: "patient shop_clients"
  by (simp add: patient_def shop_clients_def NewResilientClient_def)

lemma shop_fresh: "fresh_context shop_context"
  by (simp add: fresh_context_def shop_context_def)

lemma shop_bound: "e_bind shop_env (ctx_body shop_context) = Inr shop_request"
  by (simp add: shop_env_def calm_env_def shop_context_def shop_bind)

lemma shop_uuid_inj: "inj (e_uuid_string shop_env)"
  by (rule inj_on_inverseI [of _ "the \<circ> decimal_uuid_parse"]) (simp add: shop_env_def calm_env_def)

end
