(* ===== verification/Order_Concurrency.thy ===== *)
theory Order_Concurrency
  imports Order_Steps Order_Server
begin

section \<open>Overlapping requests\<close>

text \<open>
  Any number of requests to place an order run at the same time. Their states are a list of phases of \<open>Order_Steps\<close>; in one
  step any of them makes its next call, on the tables and the network the others have left. A transaction, an
  \<open>UPDATE\<close> and a call of a client with its retries are one step each: the database runs a transaction as if alone, and a
  client does not touch the tables. The invariant says of every request what the tables hold of its order, and that no two
  requests have the same order.
\<close>

subsection \<open>Interleavings\<close>

text \<open>
  Everything else the server does meanwhile, such as reading orders, answering health checks, logging and drawing request
  ids, leaves the tables and the charges alone (\<open>quiet_endpoints\<close>, \<open>quiet_primitives\<close>); it is the rule \<open>aside\<close>.
\<close>

inductive concurrent :: "env \<Rightarrow> downstream \<Rightarrow> world \<Rightarrow> phase list \<Rightarrow> bool" for E d where
  empty: "concurrent E d (start_world empty_db) []"
| seeded: "concurrent E d (start_world (seed_db now)) []"
| arrives: "concurrent E d w ps \<Longrightarrow> e_bind E b = Inr req \<Longrightarrow> concurrent E d w (ps @ [begin_order (order_app E d) req])"
| turn: "concurrent E d w ps \<Longrightarrow> i < length ps \<Longrightarrow> advance (order_app E d) (ps ! i) w = (ph, w')
    \<Longrightarrow> concurrent E d w' (ps[i := ph])"
| aside: "concurrent E d w ps \<Longrightarrow> quiet w w' \<Longrightarrow> concurrent E d w' ps"

text \<open>One order after another, each from start to end, is one of the interleavings.\<close>

lemma finish_concurrent:
  "finish (order_app E d) ph w = (r, w') \<Longrightarrow> concurrent E d w ps \<Longrightarrow> i < length ps \<Longrightarrow> ps ! i = ph
    \<Longrightarrow> concurrent E d w' (ps[i := Finished r])"
proof (induction ph w arbitrary: ps rule: finish_induct [where s = "order_app E d"])
  case (Finished r0 w)
  then show ?case using list_update_id [of ps i] by simp
next
  case (advance ph w ph' w1)
  from advance(2,5-) have "concurrent E d w1 (ps[i := ph'])" by (auto intro: turn)
  with advance(3) [of "ps[i := ph']"] advance(4,6) finish_advance [OF advance(1,2)] show ?case by simp
qed

subsection \<open>What each request has done so far\<close>

definition bound :: "env \<Rightarrow> create_order_request \<Rightarrow> bool" where
  "bound E req \<longleftrightarrow> (\<exists>b. e_bind E b = Inr req)"

text \<open>The order of a request is stored as it was created, but for its status, which is one of \<open>sts\<close>.\<close>

definition kept :: "env \<Rightarrow> downstream \<Rightarrow> stored \<Rightarrow> order_t \<Rightarrow> order_status set \<Rightarrow> bool" where
  "kept E d st od sts \<longleftrightarrow> (\<exists>req row its row'. bound E req \<and> order_for (order_app E d) req od
     \<and> order_rows (e_timestamptz E) od = Some (row, its) \<and> st (order_ID od) = Some (row', mset its)
     \<and> settled_row row row' \<and> row_status row' \<in> sts)"

text \<open>What else the status may be once it has been recorded: pending, but only where some statement fails without effect.\<close>

definition unrecorded :: "env \<Rightarrow> order_status set" where
  "unrecorded E = (if \<exists>n f. e_exec E n = ExecErr f then {OrderStatusPending} else {})"

text \<open>The lines priced so far.\<close>

definition priced_so_far ::
  "env \<Rightarrow> downstream \<Rightarrow> create_order_request \<Rightarrow> uuid \<Rightarrow> goint \<Rightarrow> order_item list \<Rightarrow> create_order_item_request list \<Rightarrow> bool" where
  "priced_so_far E d req userID cents items reqs \<longleftrightarrow> bound E req \<and> e_uuid_parse E (req_UserID req) = Some userID
     \<and> cents = word_total items
     \<and> (\<exists>priced. req_Items req = priced @ reqs \<and> list_all2 (fetched_line (order_app E d)) priced items)"

fun phase_ok :: "env \<Rightarrow> downstream \<Rightarrow> stored \<Rightarrow> phase \<Rightarrow> bool" where
  "phase_ok E d st (Verifying req userID) \<longleftrightarrow> priced_so_far E d req userID 0 [] (req_Items req)"
| "phase_ok E d st (Minting req userID) \<longleftrightarrow> priced_so_far E d req userID 0 [] (req_Items req)"
| "phase_ok E d st (Pricing req userID i cents items reqs) \<longleftrightarrow> priced_so_far E d req userID cents items reqs"
| "phase_ok E d st (Adding req userID i cents items itemReq product productID reqs) \<longleftrightarrow>
     (\<forall>j. priced_so_far E d req userID (cents + product_PriceCents product * itemreq_Quantity itemReq)
       (items @ [new_item j productID product itemReq]) reqs)"
| "phase_ok E d st (Persisting req od) \<longleftrightarrow> bound E req \<and> order_for (order_app E d) req od"
| "phase_ok E d st (Charging od) \<longleftrightarrow> kept E d st od {OrderStatusPending}"
| "phase_ok E d st (Charged od charged) \<longleftrightarrow> kept E d st od {OrderStatusPending}"
| "phase_ok E d st (Recording od charged) \<longleftrightarrow> kept E d st od {OrderStatusPending}"
| "phase_ok E d st (Recorded od charged updateErr) \<longleftrightarrow>
     kept E d st od (insert (final_status charged) (if updateErr = None then {} else unrecorded E))"
| "phase_ok E d st (Finished (Ret (Some od, err))) \<longleftrightarrow>
     kept E d st (od\<lparr>order_Status := OrderStatusPending\<rparr>) (insert (order_Status od) (unrecorded E))"
| "phase_ok E d st (Finished r) \<longleftrightarrow> True"

text \<open>The order that belongs to a request, once it is stored.\<close>

fun owned :: "phase \<Rightarrow> uuid option" where
  "owned (Charging od) = Some (order_ID od)"
| "owned (Charged od charged) = Some (order_ID od)"
| "owned (Recording od charged) = Some (order_ID od)"
| "owned (Recorded od charged updateErr) = Some (order_ID od)"
| "owned (Finished (Ret (Some od, err))) = Some (order_ID od)"
| "owned ph = None"

lemma kept_mono: "kept E d st od sts \<Longrightarrow> sts \<subseteq> sts' \<Longrightarrow> kept E d st od sts'"
  by (fastforce simp: kept_def)

lemma phase_ok_cong: "(\<And>i. owned ph = Some i \<Longrightarrow> st' i = st i) \<Longrightarrow> phase_ok E d st ph \<Longrightarrow> phase_ok E d st' ph"
  by (induction E d st ph rule: phase_ok.induct) (simp_all add: kept_def)

lemma owned_stored: "phase_ok E d st ph \<Longrightarrow> owned ph = Some i \<Longrightarrow> st i \<noteq> None"
  by (induction E d st ph rule: phase_ok.induct) (auto simp: kept_def)

subsection \<open>One turn\<close>

text \<open>What a call does: nothing observable, or it stores the order, or it sends charges, or it sets the status.\<close>

lemma making_E:
  assumes "making m k w = (ph', w')"
  obtains (Ret) x where "m w = (Ret x, w')" and "ph' = k x" | (Panic) p where "m w = (Panic p, w')" and "ph' = Finished (Panic p)"
  using assms by (auto simp: making_def split: prod.splits outcome.splits)

lemma owned_refused [simp]: "owned (refused e) = None"
  by (simp add: refused_def)

lemma phase_ok_refused [simp]: "phase_ok E d st (refused e)"
  by (simp add: refused_def)

lemma refused_not_Charging [simp]: "refused e \<noteq> Charging od"
  by (simp add: refused_def)

lemma priced_so_far_word_total: "priced_so_far E d req userID cents items reqs \<Longrightarrow> cents = word_total items"
  by (simp add: priced_so_far_def)

lemma priced_Adding:
  assumes "priced_so_far E d req userID cents items (itemReq # reqs)"
    and "GetProduct E (ds_products d) (itemreq_ProductID itemReq) w = (Ret (Inr product), w')"
    and "product_IsActive product" and "\<not> sint (product_StockQuantity product) < sint (itemreq_Quantity itemReq)"
    and "e_uuid_parse E (product_ID product) = Some productID"
  shows "phase_ok E d st (Adding req userID i cents items itemReq product productID reqs)"
proof -
  have "fetched_line (order_app E d) itemReq (new_item j productID product itemReq)" for j
    using assms(2-5) by (fastforce simp: fetched_line_def priced_as_def new_item_def)
  moreover from assms(1) obtain priced where "req_Items req = priced @ itemReq # reqs"
    "list_all2 (fetched_line (order_app E d)) priced items" by (auto simp: priced_so_far_def)
  ultimately have "\<exists>priced. req_Items req = priced @ reqs
      \<and> list_all2 (fetched_line (order_app E d)) priced (items @ [new_item j productID product itemReq])" for j
    by (intro exI [of _ "priced @ [itemReq]"]) (simp add: list_all2_appendI)
  then show ?thesis
    using assms(1) by (simp add: priced_so_far_def) (simp add: new_item_def)
qed

lemma priced_order_for:
  "priced_so_far E d req userID cents items [] \<Longrightarrow> order_for (order_app E d) req (new_order i userID cents items)"
  by (auto simp: priced_so_far_def order_for_def new_order_def)

lemma added_kept:
  assumes "bound E req" and "order_for (order_app E d) req od" and "added (e_timestamptz E) od st st'"
  shows "kept E d st' od {OrderStatusPending}"
proof -
  from assms(3) obtain row its where rows: "order_rows (e_timestamptz E) od = Some (row, its)"
    and "st' = st(order_ID od \<mapsto> (row, mset its))" by (auto simp: added_def)
  moreover have "row_status row = OrderStatusPending"
    using rows assms(2) by (auto simp: order_rows_def encode_order_def order_for_def pg_varchar_short status_defs
        utf8_length_def utf8_continuation_def split: option.splits)
  ultimately show ?thesis using assms(1,2) by (auto simp: kept_def settled_row_def)
qed

lemma quiet_calls:
  "preserves quiet (svc_users (order_app E d) u)" "preserves quiet (svc_products (order_app E d) pid)"
  "preserves quiet (uuid_New_op (svc_uuid (order_app E d)))" "preserves quiet (svc_logger (order_app E d) lvl msg attrs)"
  by (rule app.users.verify_untouched app.products.get_product_untouched app.uuid_untouched app.log_untouched)+

text \<open>A call that is quiet: the phase it leads to is right about the same tables, and has no other order.\<close>

definition next_ok :: "env \<Rightarrow> downstream \<Rightarrow> stored \<Rightarrow> phase \<Rightarrow> phase \<Rightarrow> bool" where
  "next_ok E d st ph ph' \<longleftrightarrow> phase_ok E d st ph' \<and> (owned ph' = None \<or> owned ph' = owned ph)
     \<and> (\<forall>od. ph' = Charging od \<longrightarrow> ph = Charging od)"

lemma next_ok_refused [simp]: "next_ok E d st ph (refused e)" "next_ok E d st ph (Finished (Panic p))"
  by (simp_all add: next_ok_def)

lemma quiet_turn:
  assumes "making m k w = (ph', w')" and "preserves quiet m"
    and "\<And>x. m w = (Ret x, w') \<Longrightarrow> next_ok E d (stored w) ph (k x)"
  shows "quiet w w' \<and> next_ok E d (stored w) ph ph'"
  using assms(1)
proof (cases rule: making_E)
  case (Ret x)
  with assms(3) preservesD [OF assms(2) Ret(1)] show ?thesis by blast
next
  case (Panic p)
  with preservesD [OF assms(2) Panic(1)] show ?thesis by simp
qed

text \<open>The three phases whose calls do more than this.\<close>

fun quiet_phase :: "phase \<Rightarrow> bool" where
  "quiet_phase (Persisting req od) = False"
| "quiet_phase (Charging od) = False"
| "quiet_phase (Recording od charged) = False"
| "quiet_phase ph = True"

lemma untouched_here: "quiet w w"
  by (simp add: observed_state.untouched_def)

lemma quiet_logs: "preserves quiet (log_charge (order_app E d) od charged)" "preserves quiet (log_update (order_app E d) od updateErr)"
  using quiet_calls(4) preserves_ret [OF quiet_laws(1)]
  by (auto simp: log_charge_def log_update_def split: sum.split option.split)

lemma kept_pending: "kept E d st od sts \<Longrightarrow> od\<lparr>order_Status := OrderStatusPending\<rparr> = od"
  by (cases od) (auto simp: kept_def order_for_def)

lemma recorded_finished:
  assumes "phase_ok E d st (Recorded od charged updateErr)"
  shows "phase_ok E d st (Finished (Ret (Some (od\<lparr>order_Status := final_status charged\<rparr>), err)))"
proof -
  from assms have "kept E d st od (insert (final_status charged) (unrecorded E))" by (auto elim: kept_mono split: if_splits)
  moreover from this have "od\<lparr>order_Status := OrderStatusPending\<rparr> = od" by (rule kept_pending)
  ultimately show ?thesis by simp
qed

lemma quiet_phase_turn:
  assumes "quiet_phase ph" and "phase_ok E d (stored w) ph" and "advance (order_app E d) ph w = (ph', w')"
  shows "quiet w w' \<and> next_ok E d (stored w) ph ph'"
proof (cases "(order_app E d, ph)" rule: advance.cases)
  case (1 s req userID)
  then have ph: "ph = Verifying req userID" by simp
  show ?thesis
    by (rule quiet_turn [OF assms(3) [unfolded ph advance.simps] quiet_calls(1)])
      (use ph assms(2) in \<open>auto simp: next_ok_def split: option.split\<close>)
next
  case (2 s req userID)
  then have ph: "ph = Minting req userID" by simp
  show ?thesis
    by (rule quiet_turn [OF assms(3) [unfolded ph advance.simps] quiet_calls(3)]) (use ph assms(2) in \<open>simp add: next_ok_def\<close>)
next
  case (3 s req userID i cents items)
  with assms priced_order_for [of E d req userID cents items i] untouched_here show ?thesis
    by (auto simp: next_ok_def priced_so_far_def)
next
  case (4 s req userID i cents items itemReq reqs)
  then have ph: "ph = Pricing req userID i cents items (itemReq # reqs)" by simp
  show ?thesis
    by (rule quiet_turn [OF assms(3) [unfolded ph advance.simps] quiet_calls(2)])
      (use ph assms(2) in \<open>auto simp: next_ok_def simp del: phase_ok.simps(4) intro!: priced_Adding split: sum.split option.split\<close>)
next
  case (5 s req userID i cents items itemReq product productID reqs)
  then have ph: "ph = Adding req userID i cents items itemReq product productID reqs" by simp
  show ?thesis
    by (rule quiet_turn [OF assms(3) [unfolded ph advance.simps] quiet_calls(3)]) (use ph assms(2) in \<open>simp add: next_ok_def\<close>)
next
  case (8 s od charged)
  then have ph: "ph = Charged od charged" by simp
  show ?thesis
    by (rule quiet_turn [OF assms(3) [unfolded ph advance.simps] quiet_logs(1)]) (use ph assms(2) in \<open>simp add: next_ok_def\<close>)
next
  case (10 s od charged updateErr)
  then have ph: "ph = Recorded od charged updateErr" by simp
  show ?thesis
    by (rule quiet_turn [OF assms(3) [unfolded ph advance.simps] quiet_logs(2)])
      (use ph recorded_finished [OF assms(2) [unfolded ph]] in \<open>simp add: next_ok_def\<close>)
next
  case (11 s r)
  with assms untouched_here show ?thesis by (auto simp: next_ok_def)
qed (use assms(1) in simp_all)

lemma Persisting_turn:
  assumes "ok_world w" and "phase_ok E d (stored w) (Persisting req od)"
    and "advance (order_app E d) (Persisting req od) w = (ph', w')"
  obtains (Same) "ok_world w'" and "charges w' = charges w" and "stored w' = stored w"
      and "owned ph' = None" and "phase_ok E d (stored w') ph'"
    | (Added) od' where "ok_world w'" and "charges w' = charges w" and "order_for (order_app E d) req od'"
      and "added (e_timestamptz E) od' (stored w) (stored w')"
      and "ph' = Charging od' \<or> owned ph' = None" and "phase_ok E d (stored w') ph'"
proof -
  obtain od' err w1 where run: "Create E od w = (Ret (od', err), w1)" using Create_returns [OF assms(1)] by blast
  with assms(3) have create: "Create E od w = (Ret (od', err), w')"
    and ph': "err = None \<Longrightarrow> ph' = Charging od'" "err \<noteq> None \<Longrightarrow> \<exists>e. ph' = refused e"
    by (auto simp: making_def split: option.splits)
  note law = Create_law [OF assms(1) create]
  have od': "order_for (order_app E d) req od'" using assms(2) law order_for_same by fastforce
  show thesis
  proof (cases err)
    case None
    with law od' assms(2) added_kept [of E req d od' "stored w" "stored w'"] ph' show thesis by (intro Added [of od']) simp_all
  next
    case (Some e)
    with ph'(2) obtain e' where "ph' = refused e'" by blast
    with law od' Some show thesis using Same Added [of od'] by auto
  qed
qed

lemma Charging_turn:
  assumes "ok_world w" and "phase_ok E d (stored w) (Charging od)" and "advance (order_app E d) (Charging od) w = (ph', w')"
  shows "ok_world w' \<and> stored w' = stored w \<and> phase_ok E d (stored w) ph' \<and> (owned ph' = None \<or> owned ph' = Some (order_ID od))
    \<and> (\<forall>od. ph' \<noteq> Charging od) \<and> (\<exists>k\<le>max_sends (ds_payments d).
      charges w' = charges w @ replicate k (charge_post (ds_payments d) (charge_of (order_app E d) od)))"
proof -
  from assms(3) have "making (Charge E (ds_payments d) (charge_of (order_app E d) od)) (Charged od) w = (ph', w')" by simp
  then show ?thesis
  proof (cases rule: making_E)
    case (Ret x)
    with assms(2) payments.charge_law [OF assms(1) Ret(1)] show ?thesis by simp
  next
    case (Panic p)
    with payments.charge_law [OF assms(1) Panic(1)] show ?thesis by simp
  qed
qed

lemma status_set_kept:
  assumes "kept E d st od {OrderStatusPending}" and "status_set (order_ID od) (final_status charged) st st'"
  shows "kept E d st' od {final_status charged}"
proof -
  from assms(1) obtain req row its row' where kept: "bound E req" "order_for (order_app E d) req od"
    "order_rows (e_timestamptz E) od = Some (row, its)" "st (order_ID od) = Some (row', mset its)"
    and pending: "settled_row row row'" "row_status row' = OrderStatusPending" by (auto simp: kept_def)
  from pending have "row' = row" by (auto simp: settled_row_def set_status_def status_defs)
  with kept(4) assms(2) obtain t where "st' (order_ID od) = Some (set_status (final_status charged) t row, mset its)"
    by (auto simp: status_set_def)
  moreover have "settled_row row (set_status (final_status charged) t row)"
    using final_status_cases [of charged] unfolding settled_row_def by blast
  ultimately show ?thesis using kept(1-3) by (auto simp: kept_def set_status_def)
qed

lemma Recording_turn:
  assumes "ok_world w" and "phase_ok E d (stored w) (Recording od charged)"
    and "advance (order_app E d) (Recording od charged) w = (ph', w')"
  shows "ok_world w' \<and> charges w' = charges w \<and> phase_ok E d (stored w') ph' \<and> owned ph' = Some (order_ID od)
    \<and> (\<forall>od. ph' \<noteq> Charging od)
    \<and> (stored w' = stored w \<or> status_set (order_ID od) (final_status charged) (stored w) (stored w'))"
proof -
  from assms(3) have "making (UpdateStatus E (order_ID od) (final_status charged)) (Recorded od charged) w = (ph', w')" by simp
  then show ?thesis
  proof (cases rule: making_E)
    case (Ret upd)
    from UpdateStatus_law [OF assms(1) utf8_length_final_status Ret(1)] have law: "ok_world w'" "charges w' = charges w"
      "case upd of None \<Rightarrow> status_set (order_ID od) (final_status charged) (stored w) (stored w')
       | Some e \<Rightarrow> stored w' = stored w \<or> status_set (order_ID od) (final_status charged) (stored w) (stored w')" by auto
    have kept: "kept E d (stored w) od {OrderStatusPending}" using assms(2) by simp
    then obtain row its where "stored w (order_ID od) = Some (row, its)" by (auto simp: kept_def)
    note exact = UpdateStatus_exact [OF Ret(1) final_status_column this]
    have "phase_ok E d (stored w') (Recorded od charged upd)"
    proof (cases "\<exists>f. e_exec E (w_execs w) = ExecErr f")
      case True
      with exact kept_mono [OF kept] show ?thesis by (auto simp: unrecorded_def)
    next
      case False
      with exact \<open>stored w (order_ID od) = Some (row, its)\<close> have "status_set (order_ID od) (final_status charged) (stored w) (stored w')"
        by (auto simp: status_set_def split: exec_outcome.splits)
      from kept_mono [OF status_set_kept [OF kept this]] show ?thesis by simp
    qed
    with Ret law show ?thesis by (auto split: option.splits)
  next
    case (Panic p)
    with UpdateStatus_law [OF assms(1) utf8_length_final_status Panic(1)] show ?thesis by simp
  qed
qed

subsection \<open>The invariant\<close>

text \<open>No two requests have the same order.\<close>

definition separate :: "phase list \<Rightarrow> bool" where
  "separate ps \<longleftrightarrow> (\<forall>i j. i < length ps \<longrightarrow> j < length ps \<longrightarrow> i \<noteq> j \<longrightarrow> owned (ps ! i) = None \<or> owned (ps ! i) \<noteq> owned (ps ! j))"

definition phases_ok :: "env \<Rightarrow> downstream \<Rightarrow> stored \<Rightarrow> phase list \<Rightarrow> bool" where
  "phases_ok E d st ps \<longleftrightarrow> separate ps \<and> (\<forall>ph\<in>set ps. phase_ok E d st ph)"

text \<open>A step of one request that changes only its own order, or adds a new one, keeps the others right.\<close>

lemma phases_ok_update:
  assumes "phases_ok E d st ps" and "i < length ps" and "phase_ok E d st' ph"
    and "\<And>b. st' b = st b \<or> st b = None \<or> owned (ps ! i) = Some b"
    and "owned ph = None \<or> owned ph = owned (ps ! i) \<or> (\<exists>b. owned ph = Some b \<and> st b = None)"
  shows "phases_ok E d st' (ps[i := ph])"
proof -
  have ok: "phase_ok E d st (ps ! j)" if "j < length ps" for j using assms(1) that by (simp add: phases_ok_def)
  have apart: "owned (ps ! j) = None \<or> owned (ps ! j) \<noteq> owned (ps ! k)" if "j < length ps" "k < length ps" "j \<noteq> k" for j k
    using assms(1) that by (simp add: phases_ok_def separate_def)
  have others: "phase_ok E d st' (ps ! j)" if j: "j < length ps" "j \<noteq> i" for j
  proof (rule phase_ok_cong [OF _ ok [OF j(1)]])
    fix b assume "owned (ps ! j) = Some b"
    with owned_stored [OF ok [OF j(1)]] apart [OF j(1) assms(2) j(2)] assms(4) [of b] show "st' b = st b" by auto
  qed
  have new: "owned ph = None \<or> owned ph \<noteq> owned (ps ! j)" if "j < length ps" "j \<noteq> i" for j
    using assms(5) apart [OF assms(2) that(1)] owned_stored [OF ok [OF that(1)]] that(2) by metis
  have "phase_ok E d st' (ps[i := ph] ! j)" if "j < length ps" for j
    using that assms(3) others by (cases "j = i") simp_all
  moreover have "separate (ps[i := ph])"
    unfolding separate_def
  proof (intro allI impI)
    fix j k assume "j < length (ps[i := ph])" "k < length (ps[i := ph])" "j \<noteq> k"
    then show "owned (ps[i := ph] ! j) = None \<or> owned (ps[i := ph] ! j) \<noteq> owned (ps[i := ph] ! k)"
      using new [of j] new [of k] apart [of j k] by (cases "j = i"; cases "k = i") auto
  qed
  ultimately show ?thesis by (auto simp: phases_ok_def in_set_conv_nth)
qed

lemma begin_order_ok: "e_bind E b = Inr req \<Longrightarrow> phase_ok E d st (begin_order (order_app E d) req)"
  by (auto simp: begin_order_def priced_so_far_def bound_def split: option.split)

lemma owned_begin_order [simp]: "owned (begin_order s req) = None"
  by (simp add: begin_order_def split: option.split)

lemma phases_ok_arrives:
  assumes "phases_ok E d st ps" and "e_bind E b = Inr req"
  shows "phases_ok E d st (ps @ [begin_order (order_app E d) req])"
  using assms begin_order_ok [OF assms(2)] by (auto simp: phases_ok_def separate_def nth_append less_Suc_eq)

text \<open>The order of a request is sound, and its charge is a sound charge.\<close>

lemma kept_sound:
  assumes "binding_checked E" and "ok_world w" and "kept E d (stored w) od sts"
  shows "sound_charge E d (stored w) (charge_post (ds_payments d) (charge_of (order_app E d) od))"
proof -
  from assms(3) obtain req row its row' where od: "order_for (order_app E d) req od"
    and rows: "order_rows (e_timestamptz E) od = Some (row, its)" "settled_row row row'"
    and st: "stored w (order_ID od) = Some (row', mset its)" and "bound E req" by (auto simp: kept_def)
  then have "req_Items req \<noteq> []" using assms(1) by (auto simp: bound_def binding_checked_def order_binding_ok_def)
  moreover have "order_row_ok row'" using stored_row_ok [OF _ st] assms(2) by (simp add: ok_world_def)
  ultimately have "sound_order row' (mset its)" "row_total_cents row' = sint (order_TotalCents od)"
    "row_user_id row' = order_UserID od" using placed_sound [OF od _ rows] by blast+
  with st od show ?thesis
    by (intro sound_chargeI [where i = "order_ID od" and row = row' and its = "mset its"
        and cr = "charge_of (order_app E d) od"]) (simp_all add: charge_of_def sound_order_def order_for_def)
qed

lemma status_set_sound:
  assumes "orders_ok E d w" and "ok_world w'" and "charges w' = charges w"
    and "status_set i (final_status charged) (stored w) (stored w')"
  shows "orders_ok E d w'"
proof -
  from assms(4) obtain t row its where old: "stored w i = Some (row, its)"
    and new: "stored w' = (stored w)(i \<mapsto> (set_status (final_status charged) t row, its))" by (auto simp: status_set_def)
  have "sound_order (set_status (final_status charged) t row) its"
    using orders_okD(2) [OF assms(1) old] final_status_cases [of charged] by (auto simp: sound_order_def set_status_def)
  then have "sound_order row1 its1" if "stored w' j = Some (row1, its1)" for j row1 its1
    using that orders_okD(2) [OF assms(1), of j] new by (auto split: if_splits)
  moreover have "sound_charge E d (stored w') rq" if "rq \<in> set (charges w')" for rq
  proof -
    from orders_okD(3) [OF assms(1)] that assms(3) have "sound_charge E d (stored w) rq" by simp
    then obtain j row1 its1 cr where "stored w j = Some (row1, its1)" "rq = charge_post (ds_payments d) cr"
      "charge_OrderID cr = e_uuid_string E j" "charge_UserID cr = e_uuid_string E (row_user_id row1)"
      "sint (charge_AmountCents cr) = row_total_cents row1" "charge_Currency cr = row_currency row1"
      unfolding sound_charge_def by blast
    with old new show ?thesis
      by (intro sound_chargeI [where i = j and its = its1 and cr = cr
          and row = "if j = i then set_status (final_status charged) t row else row1"]) (auto simp: set_status_def)
  qed
  ultimately show ?thesis using assms(2) by blast
qed

definition system_ok :: "env \<Rightarrow> downstream \<Rightarrow> world \<Rightarrow> phase list \<Rightarrow> bool" where
  "system_ok E d w ps \<longleftrightarrow> orders_ok E d w \<and> phases_ok E d (stored w) ps"

text \<open>An order that is about to be charged has not been charged yet.\<close>

definition charges_ok :: "env \<Rightarrow> downstream \<Rightarrow> world \<Rightarrow> phase list \<Rightarrow> bool" where
  "charges_ok E d w ps \<longleftrightarrow> charged_once E d w \<and> (\<forall>od. Charging od \<in> set ps \<longrightarrow> charges_of E (order_ID od) (charges w) = [])"

lemma orders_ok_same:
  "orders_ok E d w \<Longrightarrow> ok_world w' \<Longrightarrow> stored w' = stored w \<Longrightarrow> charges w' = charges w \<Longrightarrow> orders_ok E d w'"
  by (simp add: orders_ok_def)

lemma charges_ok_same:
  assumes "charges_ok E d w ps" and "charges w' = charges w" and "\<And>od. ph = Charging od \<Longrightarrow> Charging od \<in> set ps"
  shows "charges_ok E d w' (ps[i := ph])"
  using assms set_update_subset_insert [of ps i ph] by (fastforce simp: charges_ok_def charged_once_def)

lemma quiet_turn_ok:
  assumes "system_ok E d w ps" and "i < length ps" and "quiet w w'" and "next_ok E d (stored w) (ps ! i) ph"
  shows "system_ok E d w' (ps[i := ph]) \<and> (charges_ok E d w ps \<longrightarrow> charges_ok E d w' (ps[i := ph]))"
proof -
  have ok: "ok_world w" using assms(1) orders_okD(1) by (auto simp: system_ok_def)
  note same = observed_state.untouchedD [OF assms(3) ok]
  from assms(1,2,4) have "phases_ok E d (stored w') (ps[i := ph])"
    by (intro phases_ok_update [where st = "stored w"]) (auto simp: system_ok_def next_ok_def same)
  moreover have "charges_ok E d w ps \<longrightarrow> charges_ok E d w' (ps[i := ph])"
    using assms(2,4) same(3) nth_mem [OF assms(2)] by (intro impI charges_ok_same) (auto simp: next_ok_def)
  ultimately show ?thesis using assms(1) orders_ok_same [of E d w w'] same by (simp add: system_ok_def)
qed

lemma Persisting_turn_ok:
  assumes "binding_checked E" and "system_ok E d w ps" and "i < length ps" and "ps ! i = Persisting req od"
    and "advance (order_app E d) (Persisting req od) w = (ph, w')"
  shows "system_ok E d w' (ps[i := ph])
    \<and> (inj (e_uuid_string E) \<longrightarrow> charges_ok E d w ps \<longrightarrow> charges_ok E d w' (ps[i := ph]))"
proof -
  have orders: "orders_ok E d w" and phases: "phases_ok E d (stored w) ps" using assms(2) by (simp_all add: system_ok_def)
  have pok: "phase_ok E d (stored w) (Persisting req od)"
    using phases nth_mem [OF assms(3)] assms(4) by (metis phases_ok_def)
  from orders_okD(1) [OF orders] pok assms(5) show ?thesis
  proof (cases rule: Persisting_turn)
    case Same
    then have "phases_ok E d (stored w') (ps[i := ph])"
      by (intro phases_ok_update [OF phases assms(3)]) simp_all
    moreover have "charges_ok E d w ps \<longrightarrow> charges_ok E d w' (ps[i := ph])"
      using Same(2,4) by (intro impI charges_ok_same) auto
    ultimately show ?thesis using orders_ok_same [OF orders Same(1,3,2)] by (simp add: system_ok_def)
  next
    case (Added od')
    from pok obtain b where "e_bind E b = Inr req" by (auto simp: bound_def)
    with Added have "order_step E d w w'"
      unfolding order_step_def by (intro impI conjI disjI2 exI [of _ b] exI [of _ req] exI [of _ od'] exI [of _ 0])
        (auto intro: added_placed)
    from order_step_ok [OF assms(1) orders this] have "orders_ok E d w'" .
    moreover from Added(4) have new: "stored w (order_ID od') = None"
      and other: "stored w' b = stored w b \<or> b = order_ID od'" for b by (auto simp: added_def)
    moreover have "phases_ok E d (stored w') (ps[i := ph])"
      using Added(5) new other by (intro phases_ok_update [OF phases assms(3) Added(6)]) auto
    moreover have "charges_ok E d w' (ps[i := ph])" if "inj (e_uuid_string E)" "charges_ok E d w ps"
    proof -
      from charges_of_unstored [where st = "stored w" and d = d and rqs = "charges w", OF that(1) _ new] orders_okD(3) [OF orders]
      have none: "charges_of E (order_ID od') (charges w') = []" unfolding Added(2) by blast
      then have "charges_of E (order_ID od1) (charges w') = []" if "Charging od1 \<in> set (ps[i := ph])" for od1
        using that \<open>charges_ok E d w ps\<close> Added(2,5) set_update_subset_insert [of ps i ph] by (auto simp: charges_ok_def)
      with that(2) show ?thesis by (simp add: charges_ok_def charged_once_def Added(2))
    qed
    ultimately show ?thesis by (simp add: system_ok_def)
  qed
qed

lemma Charging_turn_ok:
  assumes "binding_checked E" and "system_ok E d w ps" and "i < length ps" and "ps ! i = Charging od"
    and "advance (order_app E d) (Charging od) w = (ph, w')"
  shows "system_ok E d w' (ps[i := ph])
    \<and> (inj (e_uuid_string E) \<longrightarrow> charges_ok E d w ps \<longrightarrow> charges_ok E d w' (ps[i := ph]))"
proof -
  have orders: "orders_ok E d w" and phases: "phases_ok E d (stored w) ps" using assms(2) by (simp_all add: system_ok_def)
  have pok: "phase_ok E d (stored w) (Charging od)"
    using phases nth_mem [OF assms(3)] assms(4) by (metis phases_ok_def)
  let ?rq = "charge_post (ds_payments d) (charge_of (order_app E d) od)"
  from Charging_turn [OF orders_okD(1) [OF orders] pok assms(5)] obtain k where ok: "ok_world w'" and st: "stored w' = stored w"
    and ph: "phase_ok E d (stored w) ph" "owned ph = None \<or> owned ph = Some (order_ID od)" "\<And>od. ph \<noteq> Charging od"
    and k: "k \<le> max_sends (ds_payments d)" and sent: "charges w' = charges w @ replicate k ?rq" by blast
  have "sound_charge E d (stored w) ?rq" using kept_sound [OF assms(1) orders_okD(1) [OF orders]] pok by simp
  then have "orders_ok E d w'" using orders ok by (auto simp: orders_ok_def st sent)
  moreover have "phases_ok E d (stored w') (ps[i := ph])"
    using ph by (intro phases_ok_update [OF phases assms(3)]) (auto simp: st assms(4))
  moreover have "charges_ok E d w' (ps[i := ph])" if inj: "inj (e_uuid_string E)" and before: "charges_ok E d w ps"
  proof -
    have "charge_OrderID (charge_of (order_app E d) od) = e_uuid_string E (order_ID od)" by (simp add: charge_of_def)
    from charges_of_order [OF inj this] have now: "charges_of E j (charges w') = charges_of E j (charges w)
        @ (if j = order_ID od then replicate k ?rq else [])" for j by (simp add: sent)
    have "Charging od \<in> set ps" using nth_mem [OF assms(3)] assms(4) by simp
    with before have none: "charges_of E (order_ID od) (charges w) = []" by (simp add: charges_ok_def)
    have "\<exists>n\<le>max_sends (ds_payments d). \<exists>rq. charges_of E j (charges w') = replicate n rq" for j
    proof (cases "j = order_ID od")
      case True
      with now [of j] none k show ?thesis by auto
    next
      case False
      with now [of j] before show ?thesis by (simp add: charges_ok_def charged_once_def)
    qed
    then have "charged_once E d w'" by (simp add: charged_once_def)
    moreover have "charges_of E (order_ID od1) (charges w') = []" if charging: "Charging od1 \<in> set (ps[i := ph])" for od1
    proof -
      from charging obtain j where j: "j < length ps" "ps[i := ph] ! j = Charging od1" by (auto simp: in_set_conv_nth)
      with ph(3) assms(3) have "j \<noteq> i" by auto
      with j have "ps ! j = Charging od1" by simp
      with phases j(1) \<open>j \<noteq> i\<close> assms(3,4) have "order_ID od1 \<noteq> order_ID od" by (fastforce simp: phases_ok_def separate_def)
      moreover have "Charging od1 \<in> set ps" using nth_mem [OF j(1)] \<open>ps ! j = Charging od1\<close> by simp
      ultimately show ?thesis using before by (simp add: now charges_ok_def)
    qed
    ultimately show ?thesis by (simp add: charges_ok_def)
  qed
  ultimately show ?thesis by (simp add: system_ok_def)
qed

lemma Recording_turn_ok:
  assumes "system_ok E d w ps" and "i < length ps" and "ps ! i = Recording od charged"
    and "advance (order_app E d) (Recording od charged) w = (ph, w')"
  shows "system_ok E d w' (ps[i := ph]) \<and> (charges_ok E d w ps \<longrightarrow> charges_ok E d w' (ps[i := ph]))"
proof -
  have orders: "orders_ok E d w" and phases: "phases_ok E d (stored w) ps" using assms(1) by (simp_all add: system_ok_def)
  have pok: "phase_ok E d (stored w) (Recording od charged)"
    using phases nth_mem [OF assms(2)] assms(3) by (metis phases_ok_def)
  from Recording_turn [OF orders_okD(1) [OF orders] pok assms(4)] have ok: "ok_world w'" "charges w' = charges w"
    and ph: "phase_ok E d (stored w') ph" "owned ph = Some (order_ID od)" "\<And>od. ph \<noteq> Charging od"
    and st: "stored w' = stored w \<or> status_set (order_ID od) (final_status charged) (stored w) (stored w')" by blast+
  from st orders_ok_same [OF orders ok(1) _ ok(2)] status_set_sound [OF orders ok] have "orders_ok E d w'" by blast
  moreover from st have "stored w' b = stored w b \<or> b = order_ID od" for b by (auto simp: status_set_def)
  then have "phases_ok E d (stored w') (ps[i := ph])"
    using ph by (intro phases_ok_update [OF phases assms(2)]) (auto simp: assms(3))
  moreover have "charges_ok E d w ps \<longrightarrow> charges_ok E d w' (ps[i := ph])"
    using ok(2) ph(3) by (intro impI charges_ok_same) auto
  ultimately show ?thesis by (simp add: system_ok_def)
qed

text \<open>A turn changes no order but the one of its request, which it may add.\<close>

lemma turn_frame:
  assumes "ok_world w" and "phase_ok E d (stored w) ph" and "advance (order_app E d) ph w = (ph', w')"
  shows "stored w' b = stored w b \<or> stored w b = None \<or> owned ph = Some b"
proof (cases "quiet_phase ph")
  case True
  from quiet_phase_turn [OF True assms(2,3)] have "quiet w w'" by blast
  from observed_state.untouchedD(2) [OF this assms(1)] show ?thesis by simp
next
  case False
  then consider req od where "ph = Persisting req od" | od where "ph = Charging od"
    | od charged where "ph = Recording od charged" by (cases ph) auto
  then show ?thesis
  proof cases
    case (1 req od)
    from assms(1) assms(2,3) [unfolded 1] show ?thesis by (cases rule: Persisting_turn) (auto simp: added_def split: if_splits)
  next
    case (2 od)
    with Charging_turn [OF assms(1) assms(2,3) [unfolded 2]] show ?thesis by simp
  next
    case (3 od charged)
    with Recording_turn [OF assms(1) assms(2,3) [unfolded 3]] show ?thesis by (auto simp: status_set_def)
  qed
qed

lemma turn_ok:
  assumes "binding_checked E" and "system_ok E d w ps" and "i < length ps"
    and "advance (order_app E d) (ps ! i) w = (ph, w')"
  shows "system_ok E d w' (ps[i := ph])
    \<and> (inj (e_uuid_string E) \<longrightarrow> charges_ok E d w ps \<longrightarrow> charges_ok E d w' (ps[i := ph]))"
proof (cases "quiet_phase (ps ! i)")
  case True
  have "phase_ok E d (stored w) (ps ! i)" using assms(2) nth_mem [OF assms(3)] by (simp add: system_ok_def phases_ok_def)
  from quiet_phase_turn [OF True this assms(4)] quiet_turn_ok [OF assms(2,3)] show ?thesis by blast
next
  case False
  then consider req od where "ps ! i = Persisting req od" | od where "ps ! i = Charging od"
    | od charged where "ps ! i = Recording od charged" by (cases "ps ! i") auto
  then show ?thesis
  proof cases
    case 1
    with Persisting_turn_ok [OF assms(1-3) 1] assms(4) show ?thesis by metis
  next
    case 2
    with Charging_turn_ok [OF assms(1-3) 2] assms(4) show ?thesis by metis
  next
    case 3
    with Recording_turn_ok [OF assms(2,3) 3] assms(4) show ?thesis by metis
  qed
qed

lemma concurrent_invariant:
  assumes "concurrent E d w ps" and "binding_checked E"
  shows "system_ok E d w ps" and "inj (e_uuid_string E) \<Longrightarrow> charges_ok E d w ps"
proof -
  have "system_ok E d w ps \<and> (inj (e_uuid_string E) \<longrightarrow> charges_ok E d w ps)"
    using assms(1)
  proof (induction rule: concurrent.induct)
    case empty
    then show ?case by (simp add: system_ok_def start_orders_ok phases_ok_def separate_def charges_ok_def start_charged_once)
  next
    case (seeded now)
    then show ?case by (simp add: system_ok_def start_orders_ok phases_ok_def separate_def charges_ok_def start_charged_once)
  next
    case (arrives w ps b req)
    have "Charging od \<noteq> begin_order (order_app E d) req" for od by (simp add: begin_order_def refused_def split: option.split)
    with arrives phases_ok_arrives [OF _ arrives.hyps(2)] show ?case by (auto simp: system_ok_def charges_ok_def)
  next
    case (turn w ps i ph w')
    with turn_ok [OF assms(2) _ turn.hyps(2,3)] show ?case by blast
  next
    case (aside w ps w')
    have "ok_world w" using aside.IH orders_okD(1) by (auto simp: system_ok_def)
    note same = observed_state.untouchedD [OF aside.hyps(2) this]
    from aside.IH orders_ok_same [of E d w w'] same show ?case by (simp add: system_ok_def charges_ok_def charged_once_def)
  qed
  then show "system_ok E d w ps" and "inj (e_uuid_string E) \<Longrightarrow> charges_ok E d w ps" by blast+
qed

subsection \<open>Properties of every interleaving\<close>

text \<open>C1. However the requests interleave, and whatever the network, the database and the callers do, in every state of the server: the
  tables satisfy their constraints; every order is pending, confirmed or failed (none is ever cancelled), in dollars, has items,
  and its total is the sum of its lines modulo 2^64; and every charge ever sent is the charge of a stored order, for its
  stored total. The only thing relied on is that the body binding checks its tags.\<close>

theorem concurrent_orders_ok:
  assumes "concurrent E d w ps" and "binding_checked E"
  shows "db_wf (w_db w) \<and> (\<forall>i row its. stored w i = Some (row, its) \<longrightarrow>
      row_status row \<in> {OrderStatusPending, OrderStatusConfirmed, OrderStatusFailed} \<and> row_status row \<noteq> OrderStatusCancelled
      \<and> row_currency row = ''USD'' \<and> its \<noteq> {#}
      \<and> row_total_cents row = (\<Sum>it\<in>#its. irow_quantity it * irow_unit_price_cents it) mod 2 ^ 64)
    \<and> (\<forall>rq\<in>set (charges w). \<exists>i row its cr. stored w i = Some (row, its) \<and> rq = charge_post (ds_payments d) cr
      \<and> charge_OrderID cr = e_uuid_string E i \<and> sint (charge_AmountCents cr) = row_total_cents row)"
  using concurrent_invariant(1) [OF assms]
  unfolding system_ok_def orders_ok_def sound_order_def sound_charge_def ok_world_def status_defs by fastforce

text \<open>C12. No order is charged twice, however the requests interleave: in every state of the server, all the charge requests that carry the
  id of one order as their idempotency key are copies of one and the same request, and there are at most
  \<open>retryAttempts + 1\<close> of them. That different ids have different texts is relied on.\<close>

theorem concurrent_charged_once:
  assumes "concurrent E d w ps" and "binding_checked E" and "inj (e_uuid_string E)"
  shows "\<exists>k rq. filter (\<lambda>rq. map_of (rq_headers rq) ''Idempotency-Key'' = Some (e_uuid_string E i)) (charges w)
      = replicate k rq \<and> int k \<le> max 0 (sint (rc_retryAttempts (ds_payments d)) + 1)"
proof -
  from concurrent_invariant(2) [OF assms] obtain k rq where "k \<le> max_sends (ds_payments d)"
    "charges_of E i (charges w) = replicate k rq" unfolding charges_ok_def charged_once_def by blast
  then show ?thesis by (intro exI [of _ k] exI [of _ rq]) (auto simp: charges_of_def max_sends_def)
qed

lemma order_rows_fields:
  assumes "order_rows ts od = Some (row, its)" and "settled_row row row'"
  shows "those (map (encode_item (order_ID od)) (order_Items od)) = Some its"
    and "row_user_id row' = order_UserID od" and "row_total_cents row' = sint (order_TotalCents od)"
  using assms
  by (auto simp: order_rows_def encode_order_def settled_row_def set_status_def pg_int4_Some split: option.splits)

text \<open>C13. Requests do not disturb each other's orders: when a request has ended with an order, then in every later state of the server the
  tables hold that order with its user, its total and its items, and with the status that was returned; it can still be
  pending only if the database fails a statement. No other request has an order with the same id.\<close>

theorem concurrent_results_stored:
  assumes "concurrent E d w ps" and "binding_checked E" and "i < length ps" and "ps ! i = Finished (Ret (Some od, err))"
  shows "(\<exists>row its. stored w (order_ID od) = Some (row, mset its)
      \<and> those (map (encode_item (order_ID od)) (order_Items od)) = Some its
      \<and> row_user_id row = order_UserID od \<and> row_total_cents row = sint (order_TotalCents od)
      \<and> (row_status row = order_Status od
         \<or> row_status row = OrderStatusPending \<and> (\<exists>n f. e_exec E n = ExecErr f)))
    \<and> (\<forall>j od' err'. j < length ps \<longrightarrow> j \<noteq> i \<longrightarrow> ps ! j = Finished (Ret (Some od', err')) \<longrightarrow> order_ID od' \<noteq> order_ID od)"
proof -
  have ok: "phases_ok E d (stored w) ps" using concurrent_invariant(1) [OF assms(1,2)] by (simp add: system_ok_def)
  then have "phase_ok E d (stored w) (Finished (Ret (Some od, err)))"
    using nth_mem [OF assms(3)] assms(4) by (metis phases_ok_def)
  then have "kept E d (stored w) (od\<lparr>order_Status := OrderStatusPending\<rparr>) (insert (order_Status od) (unrecorded E))" by simp
  then obtain row its row' where rows: "order_rows (e_timestamptz E) (od\<lparr>order_Status := OrderStatusPending\<rparr>) = Some (row, its)"
    "settled_row row row'" and st: "stored w (order_ID od) = Some (row', mset its)"
    and status: "row_status row' \<in> insert (order_Status od) (unrecorded E)" by (auto simp: kept_def)
  from status have "row_status row' = order_Status od \<or> row_status row' = OrderStatusPending \<and> (\<exists>n f. e_exec E n = ExecErr f)"
    by (auto simp: unrecorded_def split: if_splits)
  with order_rows_fields [OF rows] st have "\<exists>row its. stored w (order_ID od) = Some (row, mset its)
      \<and> those (map (encode_item (order_ID od)) (order_Items od)) = Some its
      \<and> row_user_id row = order_UserID od \<and> row_total_cents row = sint (order_TotalCents od)
      \<and> (row_status row = order_Status od \<or> row_status row = OrderStatusPending \<and> (\<exists>n f. e_exec E n = ExecErr f))"
    by (intro exI [of _ row'] exI [of _ its]) simp
  moreover have "order_ID od' \<noteq> order_ID od" if "j < length ps" "j \<noteq> i" "ps ! j = Finished (Ret (Some od', err'))" for j od' err'
    using ok assms(3,4) that by (fastforce simp: phases_ok_def separate_def)
  ultimately show ?thesis by blast
qed

subsection \<open>A concrete interleaving\<close>

text \<open>One order has been placed and a second request for the same has just come.\<close>

lemma shop_concurrent:
  "concurrent shop_env shop_clients shop_world
     [Finished (Ret (Some shop_order, None)), begin_order (order_app shop_env shop_clients) shop_request]"
proof -
  have "concurrent shop_env shop_clients (start_world empty_db)
      ([] @ [begin_order (order_app shop_env shop_clients) shop_request])"
    by (rule concurrent.arrives [OF concurrent.empty shop_bound])
  from finish_concurrent [where i = 0 and ph = "begin_order (order_app shop_env shop_clients) shop_request", OF _ this]
  have "concurrent shop_env shop_clients shop_world [Finished (Ret (Some shop_order, None))]"
    using shop_run by (simp add: finish_begin)
  from concurrent.arrives [OF this shop_bound] show ?thesis by simp
qed

lemma shop_charged: "charges shop_world \<noteq> []"
  unfolding shop_world_def by (simp add: concrete_app_simps del: decode_body.simps)

theorem concurrent_orders_ok_witness:
  "\<exists>ps. concurrent shop_env shop_clients shop_world ps \<and> length ps = 2 \<and> charges shop_world \<noteq> []
    \<and> (\<forall>rq\<in>set (charges shop_world). \<exists>i row its cr. stored shop_world i = Some (row, its)
        \<and> rq = charge_post (ds_payments shop_clients) cr \<and> sint (charge_AmountCents cr) = row_total_cents row)"
proof -
  from concurrent_orders_ok [OF shop_concurrent shop_binding_checked]
  have "\<forall>rq\<in>set (charges shop_world). \<exists>i row its cr. stored shop_world i = Some (row, its)
        \<and> rq = charge_post (ds_payments shop_clients) cr \<and> sint (charge_AmountCents cr) = row_total_cents row" by fastforce
  with shop_charged shop_concurrent show ?thesis by (intro exI conjI) auto
qed

theorem concurrent_charged_once_witness:
  "\<exists>k rq. filter (\<lambda>rq. map_of (rq_headers rq) ''Idempotency-Key'' = Some (e_uuid_string shop_env 1)) (charges shop_world)
      = replicate k rq \<and> k \<le> 4"
proof -
  have "sint (rc_retryAttempts (ds_payments shop_clients)) = 3" by (simp add: shop_clients_def NewResilientClient_def)
  with concurrent_charged_once [OF shop_concurrent shop_binding_checked shop_uuid_inj, of 1] show ?thesis by auto
qed

theorem concurrent_results_stored_witness:
  "\<exists>row its. stored shop_world 1 = Some (row, mset its) \<and> row_total_cents row = 3998"
  using concurrent_results_stored [OF shop_concurrent shop_binding_checked, of 0 shop_order None]
  by (auto simp: shop_order_def)

end
