(* ===== verification/Order_Spec.thy ===== *)
theory Order_Spec
  imports Order_Concurrency
begin

section \<open>What the service promises: an abstract shop\<close>

text \<open>
  The contract of the order service with tables, requests, clients and wire formats left out: a shop that places orders, sends
  charges for orders that await payment, and settles an order once. \<open>shop_step N\<close> allows \<open>N\<close> charges per order. The
  interleavings of \<open>Order_Concurrency\<close> are shown to refine it.
\<close>

subsection \<open>The shop\<close>

datatype stage = Awaiting | Confirmed | Failed

record shop_order =
  so_user :: uuid
  so_total :: int
  so_lines :: "(uuid \<times> string \<times> int \<times> int) multiset"
  so_stage :: stage

record shop =
  sh_orders :: "uuid \<Rightarrow> shop_order option"
  sh_charges :: "(uuid \<times> int) list"

definition charge_count :: "shop \<Rightarrow> uuid \<Rightarrow> nat" where
  "charge_count s i = length (filter (\<lambda>c. fst c = i) (sh_charges s))"

definition lines_total :: "(uuid \<times> string \<times> int \<times> int) multiset \<Rightarrow> int" where
  "lines_total ls = (\<Sum>(product, sku, quantity, price)\<in>#ls. quantity * price)"

inductive shop_step :: "nat \<Rightarrow> shop \<Rightarrow> shop \<Rightarrow> bool" for N where
  place: "sh_orders s i = None \<Longrightarrow> so_stage od = Awaiting \<Longrightarrow> so_lines od \<noteq> {#}
    \<Longrightarrow> so_total od = lines_total (so_lines od) mod 2 ^ 64 \<Longrightarrow> so_total od < 2 ^ 31
    \<Longrightarrow> shop_step N s (s\<lparr>sh_orders := (sh_orders s)(i \<mapsto> od)\<rparr>)"
| charge: "sh_orders s i = Some od \<Longrightarrow> so_stage od = Awaiting \<Longrightarrow> charge_count s i < N
    \<Longrightarrow> shop_step N s (s\<lparr>sh_charges := sh_charges s @ [(i, so_total od)]\<rparr>)"
| settle: "sh_orders s i = Some od \<Longrightarrow> so_stage od = Awaiting \<Longrightarrow> g = Failed \<or> g = Confirmed \<and> 0 < charge_count s i
    \<Longrightarrow> shop_step N s (s\<lparr>sh_orders := (sh_orders s)(i \<mapsto> od\<lparr>so_stage := g\<rparr>)\<rparr>)"

abbreviation shop_steps :: "nat \<Rightarrow> shop \<Rightarrow> shop \<Rightarrow> bool" where
  "shop_steps N \<equiv> (shop_step N)\<^sup>*\<^sup>*"

text \<open>Orders never vanish or change, but for the one step from awaiting payment to a final stage, and a settled order is not charged any more.\<close>

definition evolves :: "uuid \<Rightarrow> shop \<Rightarrow> shop_order \<Rightarrow> shop \<Rightarrow> bool" where
  "evolves i s od s' \<longleftrightarrow> (\<exists>od'. sh_orders s' i = Some od' \<and> so_user od' = so_user od \<and> so_total od' = so_total od
       \<and> so_lines od' = so_lines od \<and> (so_stage od' = so_stage od \<or> so_stage od = Awaiting))
     \<and> (so_stage od \<noteq> Awaiting \<longrightarrow> filter (\<lambda>c. fst c = i) (sh_charges s') = filter (\<lambda>c. fst c = i) (sh_charges s))"

lemma shop_step_evolves: "shop_step N s s' \<Longrightarrow> evolves i s0 od s \<Longrightarrow> evolves i s0 od s'"
  by (cases rule: shop_step.cases) (auto simp: evolves_def)

lemma shop_steps_evolves: "shop_steps N s s' \<Longrightarrow> sh_orders s i = Some od \<Longrightarrow> evolves i s od s'"
  by (induction rule: rtranclp_induct) (simp add: evolves_def, rule shop_step_evolves)

text \<open>Every charge is for an order and its total, and no order is charged more than \<open>N\<close> times.\<close>

definition shop_safe :: "nat \<Rightarrow> shop \<Rightarrow> bool" where
  "shop_safe N s \<longleftrightarrow> (\<forall>i amount. (i, amount) \<in> set (sh_charges s) \<longrightarrow> map_option so_total (sh_orders s i) = Some amount)
     \<and> (\<forall>i. charge_count s i \<le> N)"

lemma shop_step_safe:
  assumes "shop_step N s s'" and "shop_safe N s"
  shows "shop_safe N s'"
  using assms(1)
proof (cases rule: shop_step.cases)
  case place
  with assms(2) show ?thesis by (fastforce simp: shop_safe_def charge_count_def)
next
  case charge
  with assms(2) show ?thesis by (auto simp: shop_safe_def charge_count_def)
next
  case (settle i od g)
  then have "map_option so_total (sh_orders s' j) = map_option so_total (sh_orders s j)" for j by simp
  with settle(1) assms(2) show ?thesis by (simp add: shop_safe_def charge_count_def)
qed

lemma shop_steps_safe: "shop_steps N s s' \<Longrightarrow> shop_safe N s \<Longrightarrow> shop_safe N s'"
  by (induction rule: rtranclp_induct) (auto intro: shop_step_safe)

text \<open>A confirmed order has been charged, unless it was there from the start.\<close>

lemma shop_step_confirmed:
  assumes "shop_step N s s'" and "sh_orders s' i = Some od" and "so_stage od = Confirmed"
  shows "sh_orders s i = Some od \<and> charge_count s i \<le> charge_count s' i \<or> 0 < charge_count s' i"
  using assms by (cases rule: shop_step.cases) (auto simp: charge_count_def split: if_splits)

lemma shop_steps_confirmed:
  "shop_steps N s s' \<Longrightarrow> sh_orders s' i = Some od \<Longrightarrow> so_stage od = Confirmed
     \<Longrightarrow> sh_orders s i = Some od \<or> 0 < charge_count s' i"
proof (induction rule: rtranclp_induct)
  case (step s1 s2)
  from shop_step_confirmed [OF step.hyps(2) step.prems] step.IH step.prems(2) show ?case by fastforce
qed blast

text \<open>Several charges for one order, one after another.\<close>

lemma charge_steps:
  assumes "sh_orders s i = Some od" and "so_stage od = Awaiting" and "charge_count s i + k \<le> N"
  shows "shop_steps N s (s\<lparr>sh_charges := sh_charges s @ replicate k (i, so_total od)\<rparr>)"
  using assms(3)
proof (induction k)
  case (Suc k)
  let ?s = "s\<lparr>sh_charges := sh_charges s @ replicate k (i, so_total od)\<rparr>"
  from Suc have "shop_steps N s ?s" by simp
  moreover have "charge_count ?s i < N" using Suc.prems by (simp add: charge_count_def)
  then have "shop_step N ?s (?s\<lparr>sh_charges := sh_charges ?s @ [(i, so_total od)]\<rparr>)"
    using assms(1,2) by (intro shop_step.charge) simp_all
  ultimately have "shop_steps N s (?s\<lparr>sh_charges := sh_charges ?s @ [(i, so_total od)]\<rparr>)" by (rule rtranclp.rtrancl_into_rtrancl)
  then show ?case by (simp add: replicate_append_same)
qed simp

subsection \<open>Confirmed orders have been paid\<close>

text \<open>A charge of this order has been sent, and a charge of it was answered with the status \<open>SUCCEEDED\<close>.\<close>

definition paid :: "env \<Rightarrow> downstream \<Rightarrow> world \<Rightarrow> uuid \<Rightarrow> bool" where
  "paid E d w i \<longleftrightarrow> charges_of E i (charges w) \<noteq> [] \<and> (\<exists>cr n st b result. charge_OrderID cr = e_uuid_string E i
     \<and> e_net E n (charge_post (ds_payments d) cr) = Inr (st, b) \<and> st \<in> {200, 201, 402}
     \<and> decode_body ''client'' ''ChargeResult'' result_fields zero_result b = Inr result \<and> result_Status result = ''SUCCEEDED'')"

text \<open>The order that a request takes for confirmed.\<close>

fun told :: "phase \<Rightarrow> uuid option" where
  "told (Charged od charged) = (if final_status charged = OrderStatusConfirmed then Some (order_ID od) else None)"
| "told (Recording od charged) = (if final_status charged = OrderStatusConfirmed then Some (order_ID od) else None)"
| "told (Recorded od charged updateErr) = (if final_status charged = OrderStatusConfirmed then Some (order_ID od) else None)"
| "told (Finished (Ret (Some od, err))) = (if order_Status od = OrderStatusConfirmed then Some (order_ID od) else None)"
| "told ph = None"

lemma told_refused [simp]: "told (refused e) = None"
  by (simp add: refused_def)

lemma told_begin_order [simp]: "told (begin_order s req) = None"
  by (simp add: begin_order_def split: option.split)

lemma told_quiet: "quiet_phase ph \<Longrightarrow> advance s ph w = (ph', w') \<Longrightarrow> told ph' = None \<or> told ph' = told ph"
  by (cases "(s, ph)" rule: advance.cases)
    (auto simp: making_def split: prod.splits outcome.splits option.splits sum.splits if_splits)

definition seed_order_id :: uuid where
  "seed_order_id = 0xbbbbbbbb000000000000000000000001"

definition paid_ok :: "env \<Rightarrow> downstream \<Rightarrow> world \<Rightarrow> phase list \<Rightarrow> bool" where
  "paid_ok E d w ps \<longleftrightarrow> (\<forall>ph\<in>set ps. \<forall>i. told ph = Some i \<longrightarrow> paid E d w i)
     \<and> (\<forall>i row its. stored w i = Some (row, its) \<longrightarrow> row_status row = OrderStatusConfirmed \<longrightarrow> i = seed_order_id \<or> paid E d w i)"

lemma paid_mono: "paid E d w i \<Longrightarrow> charges w' = charges w @ rqs \<Longrightarrow> paid E d w' i"
  by (simp add: paid_def)

lemma paid_ok_turn:
  assumes "paid_ok E d w ps" and "charges w' = charges w @ rqs"
    and "\<And>i. told ph = Some i \<Longrightarrow> paid E d w' i"
    and "\<And>i row its. stored w' i = Some (row, its) \<Longrightarrow> row_status row = OrderStatusConfirmed
      \<Longrightarrow> stored w i = Some (row, its) \<or> paid E d w' i"
  shows "paid_ok E d w' (ps[i := ph])"
  unfolding paid_ok_def
proof (intro conjI ballI allI impI)
  fix ph' j assume "ph' \<in> set (ps[i := ph])" "told ph' = Some j"
  with assms(1,3) paid_mono [OF _ assms(2)] set_update_subset_insert [of ps i ph] show "paid E d w' j"
    by (auto simp: paid_ok_def)
next
  fix j row its assume "stored w' j = Some (row, its)" "row_status row = OrderStatusConfirmed"
  with assms(1,4) paid_mono [OF _ assms(2)] show "j = seed_order_id \<or> paid E d w' j" unfolding paid_ok_def by blast
qed

lemma Charging_paid:
  assumes "advance (order_app E d) (Charging od) w = (ph, w')" and "ok_world w" and "told ph = Some i"
  shows "paid E d w' i"
proof -
  from assms(1) have "making (Charge E (ds_payments d) (charge_of (order_app E d) od)) (Charged od) w = (ph, w')" by simp
  then show ?thesis
  proof (cases rule: making_E)
    case (Ret charged)
    with assms(3) have i: "i = order_ID od" and "final_status charged = OrderStatusConfirmed" by (auto split: if_splits)
    with app_final_status(1) [OF Ret(1)] obtain result where ok: "charged = Inr result" "result_Status result = ''SUCCEEDED''" by blast
    have id: "charge_OrderID (charge_of (order_app E d) od) = e_uuid_string E i" by (simp add: charge_of_def i)
    from payments.charge_law [OF assms(2) Ret(1)] obtain k where
      k: "charges w' = charges w @ replicate k (charge_post (ds_payments d) (charge_of (order_app E d) od))" by blast
    moreover have "k \<noteq> 0" using Charge_sent Ret(1) ok(1) k by fastforce
    ultimately have "charges_of E i (charges w') \<noteq> []"
      using id by (auto simp: charges_of_def charge_post_def)
    with Charge_answer [of E "ds_payments d" _ w result w'] Ret(1) ok id show ?thesis unfolding paid_def by blast
  next
    case (Panic p)
    with assms(3) show ?thesis by simp
  qed
qed

lemma not_confirmed_when_added:
  assumes "order_for (order_app E d) req od" and "added (e_timestamptz E) od st st'" and "st' i = Some (row, its)"
    and "row_status row = OrderStatusConfirmed"
  shows "st i = Some (row, its)"
proof -
  from assms(2) obtain row1 its1 where rows: "order_rows (e_timestamptz E) od = Some (row1, its1)"
    and st': "st' = st(order_ID od \<mapsto> (row1, mset its1))" by (auto simp: added_def)
  have "row_status row1 = OrderStatusPending"
    using rows assms(1) by (auto simp: order_rows_def encode_order_def order_for_def pg_varchar_short status_defs
        utf8_length_def utf8_continuation_def split: option.splits)
  with assms(3,4) st' show ?thesis by (auto simp: status_defs split: if_splits)
qed

lemma paid_ok_step:
  assumes "system_ok E d w ps" and "paid_ok E d w ps" and "i < length ps" and "advance (order_app E d) (ps ! i) w = (ph, w')"
  shows "paid_ok E d w' (ps[i := ph])"
proof -
  have ok: "ok_world w" using assms(1) orders_okD(1) by (auto simp: system_ok_def)
  have pok: "phase_ok E d (stored w) (ps ! i)" using assms(1) nth_mem [OF assms(3)] by (simp add: system_ok_def phases_ok_def)
  have known: "\<And>j. told (ps ! i) = Some j \<Longrightarrow> paid E d w j" using assms(2) nth_mem [OF assms(3)] by (simp add: paid_ok_def)
  show ?thesis
  proof (cases "quiet_phase (ps ! i)")
    case True
    note same = observed_state.untouchedD [OF conjunct1 [OF quiet_phase_turn [OF True pok assms(4)]] ok]
    from paid_mono [of E d w _ w' "[]"] same have "paid E d w j \<Longrightarrow> paid E d w' j" for j by simp
    with told_quiet [OF True assms(4)] known same show ?thesis
      by (intro paid_ok_turn [OF assms(2), where rqs = "[]"]) auto
  next
    case False
    then consider req od where "ps ! i = Persisting req od" | od where "ps ! i = Charging od"
      | od charged where "ps ! i = Recording od charged" by (cases "ps ! i") auto
    then show ?thesis
    proof cases
      case 1
      from ok pok assms(4) show ?thesis unfolding 1
      proof (cases rule: Persisting_turn)
        case Same
        have "told ph = None" using Same(4) by (cases ph rule: owned.cases) auto
        with Same show ?thesis by (intro paid_ok_turn [OF assms(2), where rqs = "[]"]) simp_all
      next
        case (Added od')
        have "told ph = None" using Added(5) by (cases ph rule: owned.cases) auto
        with Added not_confirmed_when_added [OF Added(3,4)] show ?thesis
          by (intro paid_ok_turn [OF assms(2), where rqs = "[]"]) auto
      qed
    next
      case 2
      from Charging_turn [OF ok pok [unfolded 2] assms(4) [unfolded 2]] obtain rqs where
        "stored w' = stored w" "charges w' = charges w @ rqs" by blast
      with Charging_paid [OF assms(4) [unfolded 2] ok] show ?thesis by (intro paid_ok_turn [OF assms(2)]) auto
    next
      case 3
      note turn = Recording_turn [OF ok pok [unfolded 3] assms(4) [unfolded 3]]
      have here: "paid E d w' j" if "told (ps ! i) = Some j" for j
        using known [OF that] turn by (simp add: paid_def)
      show ?thesis
      proof (rule paid_ok_turn [OF assms(2)])
        show "charges w' = charges w @ []" using turn by simp
        have "told ph = None \<or> told ph = told (ps ! i)"
          using assms(4) by (auto simp: 3 making_def split: prod.splits outcome.splits)
        then show "paid E d w' j" if "told ph = Some j" for j using here that by auto
        show "stored w j = Some (row, its) \<or> paid E d w' j"
          if "stored w' j = Some (row, its)" "row_status row = OrderStatusConfirmed" for j row its
        proof -
          have "stored w j = Some (row, its) \<or> told (ps ! i) = Some j"
            using that turn by (auto simp: 3 status_set_def set_status_def split: if_splits)
          then show ?thesis using here by blast
        qed
      qed
    qed
  qed
qed

lemma concurrent_paid:
  assumes "concurrent E d w ps" and "binding_checked E"
  shows "paid_ok E d w ps"
  using assms(1)
proof (induction rule: concurrent.induct)
  case empty
  then show ?case by (simp add: paid_ok_def start_world_def stored_of_def select_order_def empty_db_def)
next
  case (seeded now)
  have "i = seed_order_id" if "stored (start_world (seed_db now)) i = Some (row, its)" for i row its
    using that by (auto simp: start_world_def stored_of_def select_order_def seed_db_def seed_order_id_def split: if_splits)
  then show ?case by (auto simp: paid_ok_def)
next
  case (arrives w ps b req)
  then show ?case by (auto simp: paid_ok_def)
next
  case (turn w ps i ph w')
  with concurrent_invariant(1) [OF turn.hyps(1) assms(2)] paid_ok_step show ?case by blast
next
  case (aside w ps w')
  have "ok_world w" using concurrent_invariant(1) [OF aside.hyps(1) assms(2)] orders_okD(1) by (auto simp: system_ok_def)
  note same = observed_state.untouchedD [OF aside.hyps(2) this]
  with aside.IH show ?case by (simp add: paid_ok_def paid_def)
qed

subsection \<open>The service refines the shop\<close>

definition stage_of :: "order_status \<Rightarrow> stage" where
  "stage_of st = (if st = OrderStatusConfirmed then Confirmed else if st = OrderStatusFailed then Failed else Awaiting)"

definition shop_order_of :: "order_row \<times> item_row multiset \<Rightarrow> shop_order" where
  "shop_order_of = (\<lambda>(row, its). \<lparr>so_user = row_user_id row, so_total = row_total_cents row,
     so_lines = image_mset (\<lambda>it. (irow_product_id it, irow_sku it, irow_quantity it, irow_unit_price_cents it)) its,
     so_stage = stage_of (row_status row)\<rparr>)"

definition carries :: "env \<Rightarrow> downstream \<Rightarrow> uuid \<times> int \<Rightarrow> http_request \<Rightarrow> bool" where
  "carries E d c rq \<longleftrightarrow> (\<exists>cr. rq = charge_post (ds_payments d) cr \<and> charge_OrderID cr = e_uuid_string E (fst c)
     \<and> sint (charge_AmountCents cr) = snd c)"

definition implements :: "env \<Rightarrow> downstream \<Rightarrow> world \<Rightarrow> shop \<Rightarrow> bool" where
  "implements E d w s \<longleftrightarrow> (\<forall>i. sh_orders s i = map_option shop_order_of (stored w i))
     \<and> list_all2 (carries E d) (sh_charges s) (charges w)"

lemma stage_of_simps [simp]:
  "stage_of OrderStatusPending = Awaiting" "stage_of OrderStatusConfirmed = Confirmed" "stage_of OrderStatusFailed = Failed"
  by (simp_all add: stage_of_def status_defs)

lemma shop_order_of_simps [simp]:
  "so_user (shop_order_of (row, its)) = row_user_id row" "so_total (shop_order_of (row, its)) = row_total_cents row"
  "so_stage (shop_order_of (row, its)) = stage_of (row_status row)"
  by (simp_all add: shop_order_of_def)

lemma shop_order_of_set_status:
  "shop_order_of (set_status st t row, its) = (shop_order_of (row, its))\<lparr>so_stage := stage_of st\<rparr>"
  by (simp add: shop_order_of_def set_status_def)

lemma lines_total_rows:
  "lines_total (so_lines (shop_order_of (row, its))) = (\<Sum>it\<in>#its. irow_quantity it * irow_unit_price_cents it)"
  by (simp add: lines_total_def shop_order_of_def image_mset.compositionality comp_def)

lemma carried_count:
  assumes "inj (e_uuid_string E)" and "list_all2 (carries E d) cs rqs"
  shows "length (filter (\<lambda>c. fst c = i) cs) = length (charges_of E i rqs)"
  using assms(2)
proof (induction rule: list_all2_induct)
  case (Cons c cs rq rqs)
  then have "map_of (rq_headers rq) ''Idempotency-Key'' = Some (e_uuid_string E (fst c))"
    by (auto simp: carries_def charge_post_def)
  with Cons show ?case using inj_eq [OF assms(1)] by (simp add: charges_of_def)
qed (simp add: charges_of_def)

lemma implements_count: "inj (e_uuid_string E) \<Longrightarrow> implements E d w s \<Longrightarrow> charge_count s i = length (charges_of E i (charges w))"
  by (auto simp: implements_def charge_count_def intro!: carried_count)

lemma implements_same: "implements E d w s \<Longrightarrow> stored w' = stored w \<Longrightarrow> charges w' = charges w \<Longrightarrow> implements E d w' s"
  by (simp add: implements_def)

lemma place_refines:
  assumes "implements E d w s" and "orders_ok E d w'" and "added (e_timestamptz E) od (stored w) (stored w')"
    and "order_for (order_app E d) req od" and "charges w' = charges w"
  shows "\<exists>s'. shop_step N s s' \<and> implements E d w' s'"
proof -
  from assms(3) obtain row its where rows: "order_rows (e_timestamptz E) od = Some (row, its)" and new: "stored w (order_ID od) = None"
    and st: "stored w' = (stored w)(order_ID od \<mapsto> (row, mset its))" by (auto simp: added_def)
  have pending: "row_status row = OrderStatusPending"
    using rows assms(4) by (auto simp: order_rows_def encode_order_def order_for_def pg_varchar_short status_defs
        utf8_length_def utf8_continuation_def split: option.splits)
  have here: "stored w' (order_ID od) = Some (row, mset its)" by (simp add: st)
  have "db_wf (w_db w')" using orders_okD(1) [OF assms(2)] by (simp add: ok_world_def)
  from stored_row_ok [OF this here] have range: "0 \<le> row_total_cents row" "row_total_cents row < 2 ^ 31"
    by (simp_all add: order_row_ok_def in_int4_def)
  have sound: "sound_order row (mset its)" by (rule orders_okD(2) [OF assms(2) here])
  let ?o = "shop_order_of (row, mset its)"
  have "shop_step N s (s\<lparr>sh_orders := (sh_orders s)(order_ID od \<mapsto> ?o)\<rparr>)"
  proof (rule shop_step.place)
    show "sh_orders s (order_ID od) = None" using assms(1) new by (simp add: implements_def)
    show "so_lines ?o \<noteq> {#}" using sound by (simp add: sound_order_def shop_order_of_def)
    show "so_total ?o = lines_total (so_lines ?o) mod 2 ^ 64" using sound by (simp add: sound_order_def lines_total_rows)
  qed (use pending range in simp_all)
  moreover have "implements E d w' (s\<lparr>sh_orders := (sh_orders s)(order_ID od \<mapsto> ?o)\<rparr>)"
    using assms(1,5) by (simp add: implements_def st)
  ultimately show ?thesis by blast
qed

lemma kept_shop:
  assumes "implements E d w s" and "kept E d (stored w) od {OrderStatusPending}"
  obtains o' where "sh_orders s (order_ID od) = Some o'" and "so_stage o' = Awaiting" and "so_total o' = sint (order_TotalCents od)"
proof -
  from assms(2) obtain row its row' where rows: "order_rows (e_timestamptz E) od = Some (row, its)" "settled_row row row'"
    and st: "stored w (order_ID od) = Some (row', mset its)" and "row_status row' = OrderStatusPending" by (auto simp: kept_def)
  with assms(1) order_rows_fields(3) [OF rows] that [of "shop_order_of (row', mset its)"] show thesis
    by (simp add: implements_def)
qed

lemma charge_refines:
  assumes "inj (e_uuid_string E)" and "implements E d w s" and "kept E d (stored w) od {OrderStatusPending}"
    and "charges_of E (order_ID od) (charges w) = []" and "k \<le> N" and "stored w' = stored w"
    and "charges w' = charges w @ replicate k (charge_post (ds_payments d) (charge_of (order_app E d) od))"
  shows "\<exists>s'. shop_steps N s s' \<and> implements E d w' s'"
proof -
  from kept_shop [OF assms(2,3)] obtain o' where o': "sh_orders s (order_ID od) = Some o'" "so_stage o' = Awaiting"
    "so_total o' = sint (order_TotalCents od)" .
  have "charge_count s (order_ID od) = 0" using implements_count [OF assms(1,2)] assms(4) by simp
  then have "shop_steps N s (s\<lparr>sh_charges := sh_charges s @ replicate k (order_ID od, so_total o')\<rparr>)"
    using o' assms(5) by (intro charge_steps) simp_all
  moreover have "carries E d (order_ID od, so_total o') (charge_post (ds_payments d) (charge_of (order_app E d) od))"
    using o'(3) by (auto simp: carries_def charge_of_def intro!: exI [of _ "charge_of (order_app E d) od"])
  then have "implements E d w' (s\<lparr>sh_charges := sh_charges s @ replicate k (order_ID od, so_total o')\<rparr>)"
    using assms(2,6,7) by (auto simp: implements_def list_all2_conv_all_nth nth_append intro: list_all2_appendI)
  ultimately show ?thesis by blast
qed

lemma settle_refines:
  assumes "inj (e_uuid_string E)" and "implements E d w s" and "kept E d (stored w) od {OrderStatusPending}"
    and "status_set (order_ID od) (final_status charged) (stored w) (stored w')" and "charges w' = charges w"
    and "final_status charged = OrderStatusConfirmed \<Longrightarrow> charges_of E (order_ID od) (charges w) \<noteq> []"
  shows "\<exists>s'. shop_step N s s' \<and> implements E d w' s'"
proof -
  from kept_shop [OF assms(2,3)] obtain o' where o': "sh_orders s (order_ID od) = Some o'" "so_stage o' = Awaiting" .
  let ?g = "stage_of (final_status charged)"
  have "?g = Failed \<or> ?g = Confirmed \<and> 0 < charge_count s (order_ID od)"
    using final_status_cases [of charged] assms(6) implements_count [OF assms(1,2)] by auto
  with o' have "shop_step N s (s\<lparr>sh_orders := (sh_orders s)(order_ID od \<mapsto> o'\<lparr>so_stage := ?g\<rparr>)\<rparr>)"
    by (rule shop_step.settle)
  moreover from assms(4) obtain t row its where st: "stored w (order_ID od) = Some (row, its)"
    "stored w' = (stored w)(order_ID od \<mapsto> (set_status (final_status charged) t row, its))" by (auto simp: status_set_def)
  moreover have "o' = shop_order_of (row, its)" using assms(2) o'(1) st(1) by (simp add: implements_def)
  ultimately show ?thesis
    using assms(2,5) by (intro exI conjI) (auto simp: implements_def shop_order_of_set_status)
qed

lemma turn_refines:
  assumes "concurrent E d w ps" and "binding_checked E" and "inj (e_uuid_string E)"
    and "i < length ps" and "advance (order_app E d) (ps ! i) w = (ph, w')" and "implements E d w s"
  shows "\<exists>s'. shop_steps (max_sends (ds_payments d)) s s' \<and> implements E d w' s'"
proof -
  have sys: "system_ok E d w ps" and once: "charges_ok E d w ps" using concurrent_invariant [OF assms(1,2)] assms(3) by auto
  have orders: "orders_ok E d w'"
    using concurrent_invariant(1) [OF concurrent.turn [OF assms(1,4,5)] assms(2)] by (simp add: system_ok_def)
  have ok: "ok_world w" using sys orders_okD(1) by (auto simp: system_ok_def)
  have pok: "phase_ok E d (stored w) (ps ! i)" using sys nth_mem [OF assms(4)] by (simp add: system_ok_def phases_ok_def)
  have idle: "?thesis" if "stored w' = stored w" "charges w' = charges w"
    using implements_same [OF assms(6) that] by blast
  show ?thesis
  proof (cases "quiet_phase (ps ! i)")
    case True
    from observed_state.untouchedD [OF conjunct1 [OF quiet_phase_turn [OF True pok assms(5)]] ok] show ?thesis
      by (intro idle) auto
  next
    case False
    then consider req od where "ps ! i = Persisting req od" | od where "ps ! i = Charging od"
      | od charged where "ps ! i = Recording od charged" by (cases "ps ! i") auto
    then show ?thesis
    proof cases
      case 1
      from ok pok assms(5) show ?thesis unfolding 1
      proof (cases rule: Persisting_turn)
        case Same
        then show ?thesis by (intro idle)
      next
        case (Added od')
        from place_refines [OF assms(6) orders Added(4,3,2)] show ?thesis by blast
      qed
    next
      case 2
      from Charging_turn [OF ok pok [unfolded 2] assms(5) [unfolded 2]] obtain k where k: "k \<le> max_sends (ds_payments d)"
        "stored w' = stored w"
        "charges w' = charges w @ replicate k (charge_post (ds_payments d) (charge_of (order_app E d) od))" by blast
      have "Charging od \<in> set ps" using nth_mem [OF assms(4)] 2 by simp
      with once have "charges_of E (order_ID od) (charges w) = []" by (simp add: charges_ok_def)
      with charge_refines [OF assms(3,6) _ _ k] pok show ?thesis by (simp add: 2)
    next
      case 3
      note turn = Recording_turn [OF ok pok [unfolded 3] assms(5) [unfolded 3]]
      have "charges_of E (order_ID od) (charges w) \<noteq> []" if "final_status charged = OrderStatusConfirmed"
      proof -
        have "told (ps ! i) = Some (order_ID od)" using that by (simp add: 3)
        with concurrent_paid [OF assms(1,2)] nth_mem [OF assms(4)] show ?thesis by (auto simp: paid_ok_def paid_def)
      qed
      with settle_refines [OF assms(3,6), of od charged w'] pok turn idle show ?thesis
        unfolding 3 by (metis phase_ok.simps(8) r_into_rtranclp)
    qed
  qed
qed

subsection \<open>What may follow\<close>

text \<open>The states of the server that may follow a state.\<close>

inductive later :: "env \<Rightarrow> downstream \<Rightarrow> world \<Rightarrow> phase list \<Rightarrow> world \<Rightarrow> phase list \<Rightarrow> bool" for E d w0 ps0 where
  now: "later E d w0 ps0 w0 ps0"
| later_arrives: "later E d w0 ps0 w ps \<Longrightarrow> e_bind E b = Inr req \<Longrightarrow> later E d w0 ps0 w (ps @ [begin_order (order_app E d) req])"
| later_turn: "later E d w0 ps0 w ps \<Longrightarrow> i < length ps \<Longrightarrow> advance (order_app E d) (ps ! i) w = (ph, w')
    \<Longrightarrow> later E d w0 ps0 w' (ps[i := ph])"
| later_aside: "later E d w0 ps0 w ps \<Longrightarrow> quiet w w' \<Longrightarrow> later E d w0 ps0 w' ps"

lemma later_concurrent: "later E d w0 ps0 w ps \<Longrightarrow> concurrent E d w0 ps0 \<Longrightarrow> concurrent E d w ps"
  by (induction rule: later.induct) (auto intro: concurrent.intros)

lemma later_refines:
  assumes "later E d w0 ps0 w ps" and "concurrent E d w0 ps0" and "binding_checked E" and "inj (e_uuid_string E)"
    and "implements E d w0 s0"
  shows "\<exists>s. shop_steps (max_sends (ds_payments d)) s0 s \<and> implements E d w s"
  using assms(1)
proof (induction rule: later.induct)
  case now
  with assms(5) show ?case by blast
next
  case (later_arrives w ps b req)
  then show ?case by blast
next
  case (later_turn w ps i ph w')
  then obtain s where "shop_steps (max_sends (ds_payments d)) s0 s" "implements E d w s" by blast
  with turn_refines [OF later_concurrent [OF later_turn.hyps(1) assms(2)] assms(3,4) later_turn.hyps(2,3)]
  show ?case by (meson rtranclp_trans)
next
  case (later_aside w ps w')
  then obtain s where "shop_steps (max_sends (ds_payments d)) s0 s" and s: "implements E d w s" by blast
  moreover have "ok_world w"
    using concurrent_invariant(1) [OF later_concurrent [OF later_aside.hyps(1) assms(2)] assms(3)] orders_okD(1)
    by (auto simp: system_ok_def)
  note same = observed_state.untouchedD [OF later_aside.hyps(2) this]
  ultimately show ?case using implements_same [OF s, of w'] same by auto
qed

text \<open>Every state of the server implements a state of the shop that is safe.\<close>

lemma concurrent_implements:
  assumes "concurrent E d w ps" and "binding_checked E"
  shows "\<exists>s. implements E d w s"
proof -
  have "orders_ok E d w" using concurrent_invariant(1) [OF assms] by (simp add: system_ok_def)
  then have "\<forall>rq\<in>set (charges w). \<exists>c. carries E d c rq"
    by (fastforce simp: orders_ok_def sound_charge_def carries_def)
  from bchoice [OF this] obtain f where "\<forall>rq\<in>set (charges w). carries E d (f rq) rq" by blast
  then have "list_all2 (carries E d) (map f (charges w)) (charges w)" by (simp add: list_all2_conv_all_nth)
  then have "implements E d w \<lparr>sh_orders = \<lambda>i. map_option shop_order_of (stored w i), sh_charges = map f (charges w)\<rparr>"
    by (simp add: implements_def)
  then show ?thesis by blast
qed

subsection \<open>Properties\<close>

text \<open>C4. The order service refines the abstract shop. From any state of the server on, however requests interleave and whatever network
  and database do, the tables and the charges sent change only as the shop allows: an order is placed once, unpaid, with at least one
  line and the sum of its lines as total; only an unpaid order is charged, for its total, at most \<open>retryAttempts + 1\<close> times; it
  is settled once, and as confirmed only after a charge; nothing else ever happens to an order.\<close>

theorem service_refines_shop:
  assumes "concurrent E d w0 ps0" and "binding_checked E" and "inj (e_uuid_string E)"
    and "implements E d w0 s0" and "later E d w0 ps0 w ps"
  shows "\<exists>s. shop_steps (max_sends (ds_payments d)) s0 s \<and> implements E d w s"
  by (rule later_refines [OF assms(5,1-4)])

lemma stage_of_inj:
  "sound_order row its \<Longrightarrow> sound_order row' its' \<Longrightarrow> stage_of (row_status row') = stage_of (row_status row)
     \<Longrightarrow> row_status row' = row_status row"
  by (auto simp: sound_order_def stage_of_def status_defs split: if_splits)

lemma Awaiting_pending: "sound_order row its \<Longrightarrow> stage_of (row_status row) = Awaiting \<longleftrightarrow> row_status row = OrderStatusPending"
  by (auto simp: sound_order_def stage_of_def status_defs)

text \<open>C5. The life of an order: once stored, it is stored for good, with its user, its total and its lines; its status changes at most once,
  from pending to confirmed or failed; and once it is confirmed or failed, no charge for it is sent any more.\<close>

theorem order_lifecycle:
  assumes "concurrent E d w0 ps0" and "binding_checked E" and "inj (e_uuid_string E)"
    and "stored w0 i = Some (row, its)" and "later E d w0 ps0 w ps"
  shows "\<exists>row' its'. stored w i = Some (row', its') \<and> row_user_id row' = row_user_id row \<and> row_total_cents row' = row_total_cents row
    \<and> so_lines (shop_order_of (row', its')) = so_lines (shop_order_of (row, its))
    \<and> (row_status row' = row_status row
       \<or> row_status row = OrderStatusPending \<and> row_status row' \<in> {OrderStatusConfirmed, OrderStatusFailed})
    \<and> (row_status row \<noteq> OrderStatusPending \<longrightarrow> length (charges_of E i (charges w)) = length (charges_of E i (charges w0)))"
proof -
  obtain s0 where s0: "implements E d w0 s0" using concurrent_implements [OF assms(1,2)] by blast
  from later_refines [OF assms(5,1-3) s0] obtain s where steps: "shop_steps (max_sends (ds_payments d)) s0 s"
    and s: "implements E d w s" by blast
  have "sh_orders s0 i = Some (shop_order_of (row, its))" using s0 assms(4) by (simp add: implements_def)
  from shop_steps_evolves [OF steps this] obtain od' where od': "sh_orders s i = Some od'"
    and same: "so_user od' = row_user_id row" "so_total od' = row_total_cents row" "so_lines od' = so_lines (shop_order_of (row, its))"
      "so_stage od' = stage_of (row_status row) \<or> stage_of (row_status row) = Awaiting"
    and quiet: "stage_of (row_status row) \<noteq> Awaiting \<longrightarrow> charge_count s i = charge_count s0 i"
    by (auto simp: evolves_def charge_count_def)
  from od' s obtain row' its' where st: "stored w i = Some (row', its')" and "od' = shop_order_of (row', its')"
    by (auto simp: implements_def)
  note conc = later_concurrent [OF assms(5,1)]
  have "sound_order row its" "sound_order row' its'"
    using concurrent_invariant(1) [OF assms(1,2)] concurrent_invariant(1) [OF conc assms(2)] assms(4) st
    unfolding system_ok_def orders_ok_def by blast+
  then have target: "row_status row' \<in> {OrderStatusPending, OrderStatusConfirmed, OrderStatusFailed}" by (simp add: sound_order_def)
  have "row_status row' = row_status row \<or> row_status row = OrderStatusPending"
    using same(4) \<open>sound_order row its\<close> \<open>sound_order row' its'\<close> \<open>od' = _\<close> by (auto simp: Awaiting_pending dest: stage_of_inj)
  with target have "row_status row' = row_status row
       \<or> row_status row = OrderStatusPending \<and> row_status row' \<in> {OrderStatusConfirmed, OrderStatusFailed}" by auto
  with same(1-3) quiet st \<open>od' = _\<close> implements_count [OF assms(3) s0] implements_count [OF assms(3) s] \<open>sound_order row its\<close>
  show ?thesis by (intro exI [of _ row'] exI [of _ its']) (auto simp: Awaiting_pending)
qed

subsection \<open>The recorded status\<close>

text \<open>The last phases of a request: it has recorded the status of its order, and what remains is to log a failure and to return. Nothing
  changes that order any more.\<close>

definition settled_phase :: "order_t \<Rightarrow> go_error + charge_result \<Rightarrow> phase \<Rightarrow> bool" where
  "settled_phase od charged ph \<longleftrightarrow> (\<exists>upd. ph = Recorded od charged upd) \<or> ph = Finished (Ret (settled_result od charged))"

lemma settled_phase_owned: "settled_phase od charged ph \<Longrightarrow> owned ph = Some (order_ID od)"
  by (auto simp: settled_phase_def settled_result_def)

lemma settled_phase_turn:
  assumes "settled_phase od charged ph" and "advance (order_app E d) ph w = (ph', w')"
  shows "settled_phase od charged ph'" and "stored w' = stored w"
proof -
  have "settled_phase od charged ph' \<and> stored w' = stored w"
    using assms log_update_returns [of E d od]
    by (auto simp: settled_phase_def making_def settled_result_def log_update_def log_at_def emit_def split: option.splits)
  then show "settled_phase od charged ph'" and "stored w' = stored w" by blast+
qed

lemma later_settled:
  assumes "later E d w0 ps0 w ps" and "concurrent E d w0 ps0" and "binding_checked E"
    and "i < length ps0" and "settled_phase od charged (ps0 ! i)"
  shows "i < length ps \<and> settled_phase od charged (ps ! i) \<and> stored w (order_ID od) = stored w0 (order_ID od)"
  using assms(1)
proof (induction rule: later.induct)
  case now
  with assms(4,5) show ?case by simp
next
  case (later_arrives w ps b req)
  then show ?case by (simp add: nth_append)
next
  case (later_turn w ps j ph w')
  then have i: "i < length ps" "settled_phase od charged (ps ! i)" by simp_all
  have sys: "system_ok E d w ps" by (rule concurrent_invariant(1) [OF later_concurrent [OF later_turn.hyps(1) assms(2)] assms(3)])
  then have ok: "ok_world w" and phases: "phases_ok E d (stored w) ps" using orders_okD(1) by (auto simp: system_ok_def)
  show ?case
  proof (cases "j = i")
    case True
    with settled_phase_turn [OF i(2), of E d w ph w'] later_turn i show ?thesis by simp
  next
    case False
    have "phase_ok E d (stored w) (ps ! i)" "phase_ok E d (stored w) (ps ! j)"
      using phases i(1) later_turn.hyps(2) by (simp_all add: phases_ok_def)
    moreover have "owned (ps ! i) = Some (order_ID od)" by (rule settled_phase_owned [OF i(2)])
    moreover from this have "owned (ps ! j) \<noteq> Some (order_ID od)"
      using phases False i(1) later_turn.hyps(2) unfolding phases_ok_def separate_def by (metis option.distinct(1))
    ultimately have "stored w' (order_ID od) = stored w (order_ID od)"
      using turn_frame [OF ok _ later_turn.hyps(3), of "order_ID od"] owned_stored by blast
    with later_turn False i show ?thesis by simp
  qed
next
  case (later_aside w ps w')
  have "ok_world w"
    using concurrent_invariant(1) [OF later_concurrent [OF later_aside.hyps(1) assms(2)] assms(3)] orders_okD(1)
    by (auto simp: system_ok_def)
  from observed_state.untouchedD(2) [OF later_aside.hyps(2) this] later_aside.IH show ?case by simp
qed

text \<open>C14. The status of an order is what its request records in its one \<open>UPDATE\<close>. A request whose turn it is to record the status of its
  order executes the next statement of the database. From then on, in every later state of the server and whatever other requests do,
  the tables hold the order with its user, its total and its items; its status is the one that the request returns, confirmed or failed as the
  charge ended, unless exactly that statement failed without effect: then it is pending for good, and the request still returns
  the other.\<close>

theorem recorded_status_lasts:
  assumes "concurrent E d w0 ps0" and "binding_checked E" and "i < length ps0" and "ps0 ! i = Recording od charged"
    and "advance (order_app E d) (Recording od charged) w0 = (ph, w1)" and "later E d w1 (ps0[i := ph]) w ps"
  shows "(\<exists>row its. stored w (order_ID od) = Some (row, mset its)
      \<and> those (map (encode_item (order_ID od)) (order_Items od)) = Some its
      \<and> row_user_id row = order_UserID od \<and> row_total_cents row = sint (order_TotalCents od)
      \<and> row_status row = (case e_exec E (w_execs w0) of ExecErr f \<Rightarrow> OrderStatusPending | _ \<Rightarrow> final_status charged))
    \<and> ((\<exists>upd. ps ! i = Recorded od charged upd) \<or> ps ! i = Finished (Ret (Some (od\<lparr>order_Status := final_status charged\<rparr>),
         if final_status charged = OrderStatusFailed then Some (Sentinel Service_ErrPaymentDeclined) else None)))"
proof -
  have "system_ok E d w0 ps0" by (rule concurrent_invariant(1) [OF assms(1,2)])
  then have "phase_ok E d (stored w0) (Recording od charged)"
    using nth_mem [OF assms(3)] assms(4) by (metis phases_ok_def system_ok_def)
  then obtain req row its row' where od: "order_for (order_app E d) req od"
    and rows: "order_rows (e_timestamptz E) od = Some (row, its)" "settled_row row row'"
    and st: "stored w0 (order_ID od) = Some (row', mset its)" "row_status row' = OrderStatusPending" by (auto simp: kept_def)
  obtain upd w2 where run: "UpdateStatus E (order_ID od) (final_status charged) w0 = (Ret upd, w2)"
    using repository_returns(4) [of E "order_ID od" "final_status charged"] unfolding returns_def by blast
  with assms(5) have ph: "ph = Recorded od charged upd" and update: "UpdateStatus E (order_ID od) (final_status charged) w0 = (Ret upd, w1)"
    by (simp_all add: making_def)
  define new where "new = (case e_exec E (w_execs w0) of ExecErr f \<Rightarrow> row'
     | _ \<Rightarrow> set_status (final_status charged) (e_timestamptz E (e_now E (w_nows w0))) row')"
  from UpdateStatus_exact [OF update final_status_column st(1)] st(1) have st1: "stored w1 (order_ID od) = Some (new, mset its)"
    by (simp add: new_def split: exec_outcome.split)
  have conc: "concurrent E d w1 (ps0[i := ph])" using concurrent.turn [OF assms(1,3)] assms(4,5) by simp
  have "settled_phase od charged (ps0[i := ph] ! i)" using assms(3) ph by (auto simp: settled_phase_def)
  with later_settled [OF assms(6) conc assms(2)] assms(3) st1 have "stored w (order_ID od) = Some (new, mset its)"
    and "settled_phase od charged (ps ! i)" by auto
  moreover have "row_status new = (case e_exec E (w_execs w0) of ExecErr f \<Rightarrow> OrderStatusPending | _ \<Rightarrow> final_status charged)"
    "row_user_id new = row_user_id row'" "row_total_cents new = row_total_cents row'"
    using st(2) by (simp_all add: new_def set_status_def split: exec_outcome.split)
  ultimately show ?thesis
    using order_rows_fields [OF rows] by (auto simp: settled_phase_def settled_result_def)
qed
subsection \<open>A concrete run\<close>

lemma finish_later:
  "finish (order_app E d) ph w = (r, w') \<Longrightarrow> later E d w0 ps0 w ps \<Longrightarrow> i < length ps \<Longrightarrow> ps ! i = ph
    \<Longrightarrow> later E d w0 ps0 w' (ps[i := Finished r])"
proof (induction ph w arbitrary: ps rule: finish_induct [where s = "order_app E d"])
  case (Finished r0 w)
  then show ?case using list_update_id [of ps i] by simp
next
  case (advance ph w ph' w1)
  from advance(2,5-) have "later E d w0 ps0 w1 (ps[i := ph'])" by (auto intro: later_turn)
  with advance(3) [of "ps[i := ph']"] advance(4,6) finish_advance [OF advance(1,2)] show ?case by simp
qed

lemma shop_later:
  "later shop_env shop_clients (start_world empty_db) [] shop_world [Finished (Ret (Some shop_order, None))]"
proof -
  have "later shop_env shop_clients (start_world empty_db) [] (start_world empty_db)
      ([] @ [begin_order (order_app shop_env shop_clients) shop_request])" by (rule later_arrives [OF now shop_bound])
  from finish_later [where i = 0 and ph = "begin_order (order_app shop_env shop_clients) shop_request", OF _ this] shop_run
  show ?thesis by (simp add: finish_begin)
qed

definition closed_shop :: shop where
  "closed_shop = \<lparr>sh_orders = \<lambda>i. None, sh_charges = []\<rparr>"

lemma closed_shop: "implements shop_env shop_clients (start_world empty_db) closed_shop"
  by (simp add: implements_def closed_shop_def start_world_def stored_of_def select_order_def empty_db_def)

theorem service_refines_shop_witness:
  "\<exists>s. shop_steps 4 closed_shop s \<and> implements shop_env shop_clients shop_world s \<and> sh_charges s \<noteq> []"
proof -
  have "max_sends (ds_payments shop_clients) = 4" by (simp add: max_sends_def shop_clients_def NewResilientClient_def)
  with service_refines_shop [OF concurrent.empty shop_binding_checked shop_uuid_inj closed_shop shop_later] obtain s where
    "shop_steps 4 closed_shop s" "implements shop_env shop_clients shop_world s" by auto
  moreover from this(2) shop_charged have "sh_charges s \<noteq> []" by (auto simp: implements_def)
  ultimately show ?thesis by blast
qed

text \<open>A second order in the same shop leaves the first as it was.\<close>

theorem order_lifecycle_witness:
  "\<exists>row its r w' row' its'. stored shop_world 1 = Some (row, its) \<and> row_status row = OrderStatusConfirmed
    \<and> CreateOrder (order_app shop_env shop_clients) shop_request shop_world = (r, w')
    \<and> stored w' 1 = Some (row', its') \<and> row_status row' = OrderStatusConfirmed \<and> row_total_cents row' = 3998
    \<and> length (charges_of shop_env 1 (charges w')) = length (charges_of shop_env 1 (charges shop_world))"
proof -
  obtain r w' where run: "CreateOrder (order_app shop_env shop_clients) shop_request shop_world = (r, w')" by fastforce
  let ?ps = "[Finished (Ret (Some shop_order, None)), begin_order (order_app shop_env shop_clients) shop_request]"
  have "later shop_env shop_clients shop_world ?ps w' (?ps[1 := Finished r])"
    by (rule finish_later [OF _ now, where ph = "begin_order (order_app shop_env shop_clients) shop_request"])
      (use run in \<open>simp_all add: finish_begin\<close>)
  moreover obtain row its where st: "stored shop_world 1 = Some (row, its)" and row: "row_status row = OrderStatusConfirmed"
    "row_total_cents row = 3998" by (simp add: stored_of_def select_order_def shop_db status_defs)
  ultimately show ?thesis
    using order_lifecycle [OF shop_concurrent shop_binding_checked shop_uuid_inj st] run row
    by (fastforce simp: status_defs)
qed

text \<open>The first \<open>k\<close> turns of an order in the shop.\<close>

primrec shop_stage :: "nat \<Rightarrow> phase \<times> world" where
  "shop_stage 0 = (begin_order (order_app shop_env shop_clients) shop_request, start_world empty_db)"
| "shop_stage (Suc k) = (case shop_stage k of (ph, w) \<Rightarrow> advance (order_app shop_env shop_clients) ph w)"

lemma shop_stage_concurrent: "concurrent shop_env shop_clients (snd (shop_stage k)) [fst (shop_stage k)]"
proof (induction k)
  case 0
  have "concurrent shop_env shop_clients (start_world empty_db) ([] @ [begin_order (order_app shop_env shop_clients) shop_request])"
    by (rule concurrent.arrives [OF concurrent.empty shop_bound])
  then show ?case by simp
next
  case (Suc k)
  obtain ph w' where step: "advance (order_app shop_env shop_clients) (fst (shop_stage k)) (snd (shop_stage k)) = (ph, w')" by fastforce
  from concurrent.turn [OF Suc, of 0 ph w'] step show ?case by (simp add: case_prod_beta)
qed

text \<open>Eight turns take the order to the recording of its status.\<close>

definition recording_turns :: nat where
  "recording_turns = Suc (Suc (Suc (Suc (Suc (Suc (Suc (Suc 0)))))))"

lemma shop_stage_recording: "\<exists>od charged. fst (shop_stage recording_turns) = Recording od charged \<and> order_ID od = 1 \<and> final_status charged = OrderStatusConfirmed"
  by (simp add: recording_turns_def begin_order_def making_def concrete_app_simps del: decode_body.simps)

theorem recorded_status_lasts_witness:
  "\<exists>row its. stored (snd (shop_stage (Suc recording_turns))) 1 = Some (row, its) \<and> row_status row = OrderStatusConfirmed"
proof -
  obtain od charged where ph: "fst (shop_stage recording_turns) = Recording od charged" and od: "order_ID od = 1" "final_status charged = OrderStatusConfirmed"
    using shop_stage_recording by blast
  have "shop_stage (Suc recording_turns) = advance (order_app shop_env shop_clients) (Recording od charged) (snd (shop_stage recording_turns))"
    unfolding shop_stage.simps(2) using ph by (simp add: case_prod_beta del: advance.simps)
  then have step: "advance (order_app shop_env shop_clients) (Recording od charged) (snd (shop_stage recording_turns))
      = (fst (shop_stage (Suc recording_turns)), snd (shop_stage (Suc recording_turns)))" by (simp del: advance.simps shop_stage.simps)
  have "e_exec shop_env n = ExecOk" for n by (simp add: shop_env_def calm_env_def)
  with recorded_status_lasts [where i = 0, OF shop_stage_concurrent [of recording_turns] shop_binding_checked _ _ step now] ph od
  show ?thesis by auto
qed

end
