(* ===== verification/Order_Payments.thy ===== *)
theory Order_Payments
  imports Payment_Service Order_Spec
begin

section \<open>Order service and payment service together\<close>

text \<open>
  The two services meet in the requests that carry a charge and in the answers to them. Here the payment service receives
  what the order service sent, any number of times and in any order, and the properties go from a stored order to the card
  gateway and back. What is relied on of the network and of .NET is stated in three predicates.
\<close>

text \<open>The body of a charge is read as it was written.\<close>

definition reads_charges :: "dotnet \<Rightarrow> bool" where
  "reads_charges net \<longleftrightarrow> (\<forall>cr. in_int4 (sint (charge_AmountCents cr)) \<longrightarrow>
     net_read_body net (Some (charge_json cr)) = Some \<lparr>body_OrderId = charge_OrderID cr, body_UserId = charge_UserID cr,
       body_AmountCents = sint (charge_AmountCents cr), body_Currency = charge_Currency cr\<rparr>)"

text \<open>The text of an id is not blank.\<close>

definition texts_visible :: "env \<Rightarrow> bool" where
  "texts_visible E \<longleftrightarrow> (\<forall>u. \<not> blank (e_uuid_string E u))"

text \<open>An answer 200, 201 or 402 to a charge is one that the payment service gave for the key of that charge.\<close>

definition answers_carried :: "env \<Rightarrow> downstream \<Rightarrow> dotnet \<Rightarrow> pay_phase list \<Rightarrow> bool" where
  "answers_carried E d net qs \<longleftrightarrow> (\<forall>n cr st b. e_net E n (charge_post (ds_payments d) cr) = Inr (st, b) \<longrightarrow> st \<in> {200, 201, 402} \<longrightarrow>
     (\<exists>status p. Answered status p \<in> set qs \<and> st = word_of_int status \<and> b = JsonBody (payment_json net p)
        \<and> pay_IdempotencyKey p = charge_OrderID cr))"

lemma key_of_charge:
  "\<not> blank (charge_OrderID cr) \<Longrightarrow>
     idempotency_key (map_of (rq_headers (charge_post c cr)) ''Idempotency-Key'') r = charge_OrderID cr"
  by (simp add: idempotency_key_def charge_post_def)

lemma gateway_entry:
  assumes "concurrent E d w ps" and "binding_checked E" and "reads_charges net" and "texts_visible E"
    and "pay_reachable net (set (charges w)) init st qs" and "(key, call, outcome) \<in> set (st_gateway st)"
  shows "\<exists>i row its. stored w i = Some (row, its) \<and> key = e_uuid_string E i \<and> gw_AmountCents call = row_total_cents row"
proof -
  have orders: "orders_ok E d w" using concurrent_invariant(1) [OF assms(1,2)] by (simp add: system_ok_def)
  have "pay_ok net (set (charges w)) init st qs" by (rule pay_invariant [OF assms(5)])
  with assms(6) have "asked net (set (charges w)) key (gw_AmountCents call)" by (auto simp: pay_ok_def store_ok_def)
  then obtain rq r where rq: "rq \<in> set (charges w)" and read: "net_read_body net (rq_body rq) = Some r"
    and key: "key = idempotency_key (map_of (rq_headers rq) ''Idempotency-Key'') r"
    and amount: "gw_AmountCents call = body_AmountCents r" by (auto simp: asked_def)
  from orders_okD(3) [OF orders rq] obtain i row its cr where st: "stored w i = Some (row, its)"
    and cr: "rq = charge_post (ds_payments d) cr" "charge_OrderID cr = e_uuid_string E i"
      "sint (charge_AmountCents cr) = row_total_cents row" unfolding sound_charge_def by blast
  have "db_wf (w_db w)" using orders_okD(1) [OF orders] by (simp add: ok_world_def)
  from stored_row_ok [OF this st] have "in_int4 (sint (charge_AmountCents cr))" by (simp add: cr(3) order_row_ok_def)
  with assms(3) read have "body_AmountCents r = row_total_cents row"
    by (auto simp: reads_charges_def cr(1,3) charge_post_def)
  moreover have "key = e_uuid_string E i"
    using key_of_charge [of cr "ds_payments d" r] assms(4) by (simp add: key cr(1,2) texts_visible_def)
  ultimately show ?thesis using st amount by auto
qed

lemma gateway_distinct: "pay_reachable net R init st qs \<Longrightarrow> distinct (map fst (st_gateway st))"
  using pay_invariant [of net R init st qs] by (simp add: pay_ok_def store_ok_def)

text \<open>C2. From order to card: whatever the interleavings in both services, and however often the network repeats a charge, the client of the
  card gateway is called at most once for an order, and every call is for an order that is stored, with exactly its stored total.\<close>

theorem order_paid_at_most_once:
  assumes "concurrent E d w ps" and "binding_checked E" and "reads_charges net" and "texts_visible E"
    and "pay_reachable net (set (charges w)) init st qs"
  shows "distinct (map fst (st_gateway st)) \<and> (\<forall>(key, call, outcome)\<in>set (st_gateway st).
    \<exists>i row its. stored w i = Some (row, its) \<and> key = e_uuid_string E i \<and> gw_AmountCents call = row_total_cents row)"
  using gateway_entry [OF assms] gateway_distinct [OF assms(5)] by blast

text \<open>What the client of the order service decodes of an answer of the payment service.\<close>

lemma fold_payment_names [simp]:
  "fold_name ''orderId'' = ''ORDERID''" "fold_name ''amountCents'' = ''AMOUNTCENTS''" "fold_name ''createdAt'' = ''CREATEDAT''"
  by code_simp+

lemma decode_payment_json:
  "decode_body ''client'' ''ChargeResult'' result_fields zero_result (JsonBody (payment_json net p)) =
     Inr \<lparr>result_TransactionID = (case pay_TransactionId p of None \<Rightarrow> [] | Some t \<Rightarrow> t), result_Status = status_name (pay_Status p),
       result_Reason = (case pay_FailureReason p of None \<Rightarrow> [] | Some t \<Rightarrow> t)\<rparr>"
  by (cases "pay_TransactionId p"; cases "pay_FailureReason p")
    (simp_all add: payment_json_def json_option_def find_field_def result_fields_def zero_result_def)

lemma status_name_succeeded: "status_name s = ''SUCCEEDED'' \<longleftrightarrow> s = Payment_Succeeded"
  by (cases s) simp_all

text \<open>From card to order: an order is reported as confirmed only if the card gateway approved its charge, or the payment service had a
  payment with the order's id to begin with.\<close>

lemma answered_approved:
  assumes "e_net E n (charge_post (ds_payments d) cr) = Inr (code, b)" and "code \<in> {200, 201, 402}"
    and "decode_body ''client'' ''ChargeResult'' result_fields zero_result b = Inr result" and "result_Status result = ''SUCCEEDED''"
    and "pay_reachable net R init st qs" and "answers_carried E d net qs"
  shows "approved init st (charge_OrderID cr)"
proof -
  from assms(1,2,6) obtain status p where p: "Answered status p \<in> set qs" "b = JsonBody (payment_json net p)"
    "pay_IdempotencyKey p = charge_OrderID cr" unfolding answers_carried_def by blast
  from assms(3,4) p(2) have "status_name (pay_Status p) = ''SUCCEEDED''" by (auto simp: decode_payment_json)
  then have "pay_Status p = Payment_Succeeded" by (simp add: status_name_succeeded)
  moreover have "pay_phase_ok net R init st (Answered status p)"
    using pay_invariant [OF assms(5)] p(1) by (auto simp: pay_ok_def)
  ultimately show ?thesis using p(3) by simp
qed

lemma confirmed_order_approved:
  assumes "ok_world w" and "CreateOrder (order_app E d) req w = (Ret (Some od, None), w')"
    and "pay_reachable net R init st qs" and "answers_carried E d net qs"
  shows "order_Status od = OrderStatusConfirmed \<and> approved init st (e_uuid_string E (order_ID od))"
  using placed_outcome [OF assms(1,2)] answered_approved [OF _ _ _ _ assms(3,4)] by (fastforce simp: charge_of_def)

lemma paid_approved:
  "paid E d w i \<Longrightarrow> pay_reachable net R init st qs \<Longrightarrow> answers_carried E d net qs \<Longrightarrow> approved init st (e_uuid_string E i)"
  unfolding paid_def by (metis answered_approved)

lemma distinct_key_filter:
  "distinct (map fst xs) \<Longrightarrow> (k, v) \<in> set xs \<Longrightarrow> filter (\<lambda>x. fst x = k) xs = [(k, v)]"
proof (induction xs)
  case (Cons x xs)
  then show ?case by (cases "fst x = k") (auto simp: filter_empty_conv rev_image_eqI)
qed simp

lemma confirmed_entry:
  assumes "concurrent E d w ps" and "binding_checked E" and "inj (e_uuid_string E)" and "texts_visible E"
    and "reads_charges net" and "pay_reachable net (set (charges w)) [] st qs" and "answers_carried E d net qs"
    and "stored w i = Some (row, its)" and "row_status row = OrderStatusConfirmed" and "i \<noteq> seed_order_id"
  shows "\<exists>call tx reason. filter (\<lambda>entry. fst entry = e_uuid_string E i) (st_gateway st)
      = [(e_uuid_string E i, call, Gateway_result True tx reason)] \<and> gw_AmountCents call = row_total_cents row"
proof -
  have "paid E d w i" using concurrent_paid [OF assms(1,2)] assms(8-10) unfolding paid_ok_def by blast
  from paid_approved [OF this assms(6,7)] obtain call tx reason where
    entry: "(e_uuid_string E i, call, Gateway_result True tx reason) \<in> set (st_gateway st)" by (auto simp: approved_def)
  from gateway_entry [OF assms(1,2,5,4,6) entry] obtain j row' its' where "stored w j = Some (row', its')"
    "e_uuid_string E i = e_uuid_string E j" "gw_AmountCents call = row_total_cents row'" by blast
  with assms(3,8) have "gw_AmountCents call = row_total_cents row" by (auto dest: injD)
  with distinct_key_filter [OF gateway_distinct [OF assms(6)] entry] show ?thesis by blast
qed

text \<open>With the simulated gateway, no order above its threshold is ever confirmed.\<close>

lemma default_gateway_limit:
  assumes "concurrent E d w ps" and "binding_checked E" and "inj (e_uuid_string E)" and "texts_visible E"
    and "reads_charges net" and "pay_reachable net (set (charges w)) [] st qs" and "answers_carried E d net qs"
    and "stored w i = Some (row, its)" and "row_status row = OrderStatusConfirmed" and "i \<noteq> seed_order_id"
    and "simulated_mode net threshold st"
  shows "row_total_cents row \<le> threshold"
proof -
  from confirmed_entry [OF assms(1-10)] obtain call tx reason where
    only: "filter (\<lambda>entry. fst entry = e_uuid_string E i) (st_gateway st) = [(e_uuid_string E i, call, Gateway_result True tx reason)]"
    and total: "gw_AmountCents call = row_total_cents row" by blast
  have "(e_uuid_string E i, call, Gateway_result True tx reason) \<in> set (filter (\<lambda>entry. fst entry = e_uuid_string E i) (st_gateway st))"
    by (simp add: only)
  then have "(e_uuid_string E i, call, Gateway_result True tx reason) \<in> set (st_gateway st)" by simp
  with assms(11) obtain cancelled guid where "simulated_charge net threshold cancelled guid call = Gateway_result True tx reason"
    unfolding simulated_mode_def by fastforce
  from simulated_approved [OF this] total show ?thesis by simp
qed

text \<open>C3. From card to order and back: an order that is stored as confirmed has been paid for exactly once. However the requests to both
  services interleave, repeat, fail and are cancelled, the client of the card gateway was called once for it, for exactly its stored total, and
  the gateway approved. (The order of the seed data, which is stored as confirmed, is left out; the payment service starts with an
  empty table.)\<close>

theorem confirmed_order_paid_once:
  assumes "concurrent E d w ps" and "binding_checked E" and "inj (e_uuid_string E)" and "texts_visible E"
    and "reads_charges net" and "pay_reachable net (set (charges w)) [] st qs" and "answers_carried E d net qs"
    and "stored w i = Some (row, its)" and "row_status row = OrderStatusConfirmed" and "i \<noteq> seed_order_id"
  shows "\<exists>call tx reason. filter (\<lambda>entry. fst entry = e_uuid_string E i) (st_gateway st)
      = [(e_uuid_string E i, call, Gateway_result True tx reason)] \<and> gw_AmountCents call = row_total_cents row"
  by (rule confirmed_entry [OF assms])

subsection \<open>A concrete platform\<close>

lemma plain_reads_charges: "reads_charges plain_dotnet"
  unfolding reads_charges_def
proof (intro allI impI)
  fix cr :: charge_request assume "in_int4 (sint (charge_AmountCents cr))"
  moreover have "atoi (show_int (sint (charge_AmountCents cr))) = Some (charge_AmountCents cr)" by (rule atoi_show_sint)
  ultimately show "net_read_body plain_dotnet (Some (charge_json cr)) = Some \<lparr>body_OrderId = charge_OrderID cr,
      body_UserId = charge_UserID cr, body_AmountCents = sint (charge_AmountCents cr), body_Currency = charge_Currency cr\<rparr>"
    by (simp add: plain_dotnet_def read_charge_body_def charge_json_def json_int_def in_int4_def)
qed

lemma digit_visible: "is_digit c \<Longrightarrow> blank (c # s) \<Longrightarrow> False"
  by (simp add: blank_def is_digit_def) (elim conjE disjE; simp)

lemma digits_visible: "s \<noteq> [] \<Longrightarrow> list_all is_digit s \<Longrightarrow> \<not> blank s"
  by (cases s) (auto dest: digit_visible)

lemma show_nat_1: "show_nat 1 = ''1''"
  by (subst show_nat.simps) (simp add: digit_char_def char_of_eq_iff)

lemma shop_texts_visible: "texts_visible shop_env"
  using digits_visible [OF show_nat_not_Nil show_nat_digits]
  by (simp add: texts_visible_def shop_env_def calm_env_def decimal_uuid_string_def)

lemma shop_charges: "charges shop_world = [plain_charge]"
  unfolding shop_world_def 
  by (simp add: concrete_app_simps charge_json_def json_int_def plain_charge_def show_nat_1 [simplified] del: decode_body.simps)

theorem order_paid_at_most_once_witness:
  "\<exists>i row its. pay_reachable plain_dotnet (set (charges shop_world)) [] (plain_approved\<lparr>st_payments := [plain_paid]\<rparr>)
      [Answered 200 plain_paid]
    \<and> stored shop_world i = Some (row, its) \<and> e_uuid_string shop_env i = ''1'' \<and> row_total_cents row = 3998"
proof -
  have reach: "pay_reachable plain_dotnet (set (charges shop_world)) [] (plain_approved\<lparr>st_payments := [plain_paid]\<rparr>)
      [Answered 200 plain_paid]" using plain_paid_reachable by (simp add: shop_charges)
  from order_paid_at_most_once [OF shop_concurrent shop_binding_checked plain_reads_charges shop_texts_visible reach]
  obtain i row its where "stored shop_world i = Some (row, its)" "e_uuid_string shop_env i = ''1''" "row_total_cents row = 3998"
    by (auto simp: plain_approved_def)
  with reach show ?thesis by blast
qed

text \<open>The same shop, with the answer of the payment service for its order.\<close>

definition paying_net :: "nat \<Rightarrow> http_request \<Rightarrow> foreign + (goint \<times> body)" where
  "paying_net n rq =
     (if rq_method rq = ''POST''
      then Inr (if map_of (rq_headers rq) ''Idempotency-Key'' = Some ''1'' then (200, JsonBody (payment_json plain_dotnet plain_paid))
        else (500, JsonBody JNull))
      else shop_net n rq)"

definition paying_env :: env where
  "paying_env = shop_env\<lparr>e_net := paying_net\<rparr>"

lemma paying_answers: "answers_carried paying_env shop_clients plain_dotnet [Answered 200 plain_paid]"
  by (auto simp: answers_carried_def paying_env_def paying_net_def charge_post_def plain_paid_def plain_payment_def split: if_splits)

definition paying_world :: world where
  "paying_world = snd (CreateOrder (order_app paying_env shop_clients) shop_request (start_world empty_db))"

lemmas paying_simps = concrete_app_simps show_nat_1 [simplified] paying_env_def paying_net_def decode_payment_json plain_paid_def
  plain_payment_def

lemma paying_run: "CreateOrder (order_app paying_env shop_clients) shop_request (start_world empty_db) = (Ret (Some shop_order, None), paying_world)"
proof -
  have "fst (CreateOrder (order_app paying_env shop_clients) shop_request (start_world empty_db)) = Ret (Some shop_order, None)"
    by (simp add: paying_simps del: decode_body.simps)
  then show ?thesis by (simp add: paying_world_def prod_eq_iff)
qed

lemma paying_charges: "charges paying_world = [plain_charge]"
  unfolding paying_world_def
  by (simp add: paying_simps charge_json_def json_int_def plain_charge_def del: decode_body.simps)

lemma paying_db: "w_db paying_world = w_db shop_world"
  unfolding paying_world_def shop_db by (simp add: paying_simps del: decode_body.simps)

lemma paying_concurrent: "concurrent paying_env shop_clients paying_world [Finished (Ret (Some shop_order, None))]"
proof -
  have "e_bind paying_env = e_bind shop_env" by (simp add: paying_env_def)
  then have "concurrent paying_env shop_clients (start_world empty_db) ([] @ [begin_order (order_app paying_env shop_clients) shop_request])"
    using shop_bound by (intro concurrent.arrives [OF concurrent.empty]) simp
  from finish_concurrent [where i = 0 and ph = "begin_order (order_app paying_env shop_clients) shop_request", OF _ this] paying_run
  show ?thesis by (simp add: finish_begin)
qed

theorem confirmed_order_paid_once_witness:
  "\<exists>row its call tx reason. stored paying_world 1 = Some (row, its) \<and> row_status row = OrderStatusConfirmed \<and> row_total_cents row = 3998
    \<and> filter (\<lambda>entry. fst entry = ''1'') (st_gateway plain_approved) = [(''1'', call, Gateway_result True tx reason)]
    \<and> gw_AmountCents call = 3998"
proof -
  obtain row its where st: "stored paying_world 1 = Some (row, its)" "row_status row = OrderStatusConfirmed" and total: "row_total_cents row = 3998"
    by (simp add: stored_of_def select_order_def paying_db shop_db status_defs)
  have env: "binding_checked paying_env" "inj (e_uuid_string paying_env)" "texts_visible paying_env" "e_uuid_string paying_env 1 = ''1''"
    using shop_binding_checked shop_uuid_inj shop_texts_visible show_nat_1
    by (simp_all add: paying_env_def binding_checked_def texts_visible_def shop_env_def calm_env_def decimal_uuid_string_def)
  have reach: "pay_reachable plain_dotnet (set (charges paying_world)) [] (plain_approved\<lparr>st_payments := [plain_paid]\<rparr>)
      [Answered 200 plain_paid]" using plain_paid_reachable by (simp add: paying_charges)
  have "(1 :: uuid) \<noteq> seed_order_id" by (simp add: seed_order_id_def)
  from confirmed_order_paid_once [OF paying_concurrent env(1-3) plain_reads_charges reach paying_answers st this] st total
  show ?thesis by (simp add: env(4))
qed

end
