(* ===== verification/Order_Reads.thy ===== *)
theory Order_Reads
  imports Order_Spec
begin

section \<open>Reading an order while others are placed\<close>

text \<open>
  \<open>GetByID\<close> reads the order and its items with two queries and no transaction around them (\<open>order_repository.go\<close>). Between
  the two, other requests may place and settle orders. Here the read is split at its two queries, and shown not to be torn.
\<close>

datatype read_phase = Reading_row uuid | Reading_items uuid order_row | Read "go_error + order_t"

definition order_read :: "go_error + order_t \<Rightarrow> read_phase" where
  "order_read res = Read (case res of
       Inl err \<Rightarrow> if errors_is err Repository_ErrOrderNotFound then Inl (Sentinel Service_ErrOrderNotFound) else Inl err
     | Inr od \<Rightarrow> Inr od)"

fun read_advance :: "env \<Rightarrow> read_phase \<Rightarrow> (world, read_phase) io" where
  "read_advance E (Reading_row i) =
     bindIO (run_query E (DbSelectOrder i) (\<lambda>rank. select_order i)) (\<lambda>q. ret (case scan_row q of
       Inl e \<Rightarrow> order_read (if errors_is e Pgx_ErrNoRows then Inl (Sentinel Repository_ErrOrderNotFound) else Inl e)
     | Inr row \<Rightarrow> Reading_items i row))"
| "read_advance E (Reading_items i row) =
     bindIO (getItems E i) (\<lambda>(items, err). ret (order_read (case err of
       Some e \<Rightarrow> Inl e
     | None \<Rightarrow> Inr (order_of_row row items))))"
| "read_advance E (Read res) = ret (Read res)"

text \<open>Without interruption, the two queries are \<open>GetOrder\<close>.\<close>

lemma read_is_GetOrder:
  "bindIO (read_advance E (Reading_row i)) (read_advance E) = bindIO (GetOrder (order_app E d) i) (\<lambda>res. ret (Read res))"
proof
  fix w
  show "bindIO (read_advance E (Reading_row i)) (read_advance E) w = bindIO (GetOrder (order_app E d) i) (\<lambda>res. ret (Read res)) w"
    by (auto simp: GetOrder_def GetByID_def bindIO_def ret_def order_read_def split: prod.splits outcome.splits sum.splits option.splits)
qed

lemma later_keeps_items:
  assumes "later E d w0 ps0 w ps" and "concurrent E d w0 ps0" and "binding_checked E" and "stored w0 i = Some (row, its)"
  shows "\<exists>row'. stored w i = Some (row', its)"
  using assms(1)
proof (induction rule: later.induct)
  case (later_turn w ps j ph w')
  have sys: "system_ok E d w ps" using concurrent_invariant(1) [OF later_concurrent [OF later_turn.hyps(1) assms(2)] assms(3)] .
  have ok: "ok_world w" using sys orders_okD(1) by (auto simp: system_ok_def)
  have pok: "phase_ok E d (stored w) (ps ! j)" using sys nth_mem [OF later_turn.hyps(2)] by (simp add: system_ok_def phases_ok_def)
  consider "stored w' = stored w" | od where "added (e_timestamptz E) od (stored w) (stored w')"
    | k st where "status_set k st (stored w) (stored w')"
  proof (cases "quiet_phase (ps ! j)")
    case True
    from observed_state.untouchedD [OF conjunct1 [OF quiet_phase_turn [OF True pok later_turn.hyps(3)]] ok] that show thesis by auto
  next
    case False
    then consider req od where "ps ! j = Persisting req od" | od where "ps ! j = Charging od"
      | od charged where "ps ! j = Recording od charged" by (cases "ps ! j") auto
    then show thesis
    proof cases
      case 1
      from ok pok later_turn.hyps(3) show thesis unfolding 1 by (cases rule: Persisting_turn) (use that in blast)+
    next
      case 2
      from Charging_turn [OF ok pok [unfolded 2] later_turn.hyps(3) [unfolded 2]] that show thesis by blast
    next
      case 3
      from Recording_turn [OF ok pok [unfolded 3] later_turn.hyps(3) [unfolded 3]] that show thesis by blast
    qed
  qed
  then show ?case using later_turn.IH by cases (auto simp: added_def status_set_def)
next
  case (later_aside w ps w')
  have "ok_world w" using concurrent_invariant(1) [OF later_concurrent [OF later_aside.hyps(1) assms(2)] assms(3)] orders_okD(1)
    by (auto simp: system_ok_def)
  with later_aside observed_state.untouchedD [OF later_aside.hyps(2)] show ?case by metis
qed (use assms(4) in auto)

lemma read_advance_quiet: "read_advance E ph w = (r, w') \<Longrightarrow> w_db w' = w_db w \<and> quiet w w'"
  by (cases ph)
    (auto simp: getItems_def bindIO_def run_query_def ret_def observed_state.untouched_def ok_world_def split: prod.splits)

text \<open>C39. A read is not torn: when \<open>GetOrder\<close> makes its two queries while other requests are placed, charged and settled between them, the
  order it returns is the one that was stored when it began, with exactly its items, which are still its items; and it is
  reported as not found only if it was not stored then.\<close>

theorem overlapped_read_consistent:
  assumes "concurrent E d w0 ps0" and "binding_checked E" and "read_advance E (Reading_row i) w0 = (Ret ph, w1)"
    and "later E d w1 ps0 w2 ps2" and "read_advance E ph w2 = (Ret (Read res), w3)"
  shows "case res of
      Inr od \<Rightarrow> \<exists>row irows row2. stored w0 i = Some (row, mset irows) \<and> od = order_of_row row (map item_of_row irows)
        \<and> stored w2 i = Some (row2, mset irows)
    | Inl e \<Rightarrow> e = Sentinel Service_ErrOrderNotFound \<and> stored w0 i = None \<or> (\<exists>f. e = Foreign f)"
proof -
  note first = read_advance_quiet [OF assms(3)]
  then have conc: "concurrent E d w1 ps0" using concurrent.aside [OF assms(1)] by blast
  have same: "stored w1 = stored w0" using first by simp
  show ?thesis
  proof (cases ph)
    case (Reading_row j)
    with assms(3) show ?thesis by (auto simp: bindIO_def run_query_def ret_def order_read_def split: sum.splits)
  next
    case (Read res')
    with assms(3,5) show ?thesis
      by (cases "e_query E (w_queries w0)"; cases "select_order i (w_db w0)")
        (auto simp: bindIO_def run_query_def ret_def order_read_def stored_of_def split: if_splits)
  next
    case (Reading_items j row)
    with assms(3) have "j = i" and row: "select_order i (w_db w0) = Some row"
      by (cases "e_query E (w_queries w0)"; cases "select_order i (w_db w0)";
          auto simp: bindIO_def run_query_def ret_def order_read_def split: if_splits)+
    then obtain its where st: "stored w0 i = Some (row, its)" by (simp add: stored_of_def)
    with later_keeps_items [OF assms(4) conc assms(2)] obtain row2 where st2: "stored w2 i = Some (row2, its)"
      unfolding same by blast
    let ?irows = "select_items (e_rank E (w_queries w2)) i (w_db w2)"
    have "its = mset ?irows" using st2 by (auto simp: stored_of_def mset_select_items)
    with st st2 assms(5) Reading_items \<open>j = i\<close> show ?thesis
      by (cases "e_query E (w_queries w2)")
        (auto simp: getItems_def bindIO_def run_query_def ret_def order_read_def split: if_splits)
  qed
qed

text \<open>In the concrete shop: between the two queries, a second order is placed.\<close>

theorem overlapped_read_consistent_witness:
  "\<exists>ph w1 r w2 od w3. read_advance shop_env (Reading_row 1) shop_world = (Ret ph, w1)
    \<and> CreateOrder (order_app shop_env shop_clients) shop_request w1 = (r, w2)
    \<and> read_advance shop_env ph w2 = (Ret (Read (Inr od)), w3) \<and> order_TotalCents od = 3998"
proof -
  let ?ps = "[Finished (Ret (Some shop_order, None)), begin_order (order_app shop_env shop_clients) shop_request]"
  obtain row w1 where first: "read_advance shop_env (Reading_row 1) shop_world = (Ret (Reading_items 1 row), w1)"
    and row: "row_total_cents row = 3998" "select_order 1 (w_db shop_world) = Some row"
    by (simp add: bindIO_def run_query_def ret_def shop_env_def calm_env_def select_order_def shop_db)
  obtain r w2 where run: "CreateOrder (order_app shop_env shop_clients) shop_request w1 = (r, w2)" by fastforce
  have later: "later shop_env shop_clients w1 ?ps w2 (?ps[1 := Finished r])"
    by (rule finish_later [OF _ now, where ph = "begin_order (order_app shop_env shop_clients) shop_request"])
      (use run in \<open>simp_all add: finish_begin\<close>)
  obtain od w3 where second: "read_advance shop_env (Reading_items 1 row) w2 = (Ret (Read (Inr od)), w3)"
    by (simp add: getItems_def bindIO_def run_query_def ret_def shop_env_def calm_env_def order_read_def)
  from overlapped_read_consistent [OF shop_concurrent shop_binding_checked first later second] row
  have "order_TotalCents od = 3998" by (auto simp: stored_of_def order_of_row_def)
  with first run second show ?thesis by blast
qed

end
