(* ===== verification/Order_Config.thy ===== *)
theory Order_Config
  imports Go_Errors "HOL-Library.Signed_Division"
begin

section \<open>Configuration (\<open>internal/config/config.go\<close>)\<close>

text \<open>
  \<open>Load\<close> and the lookups it is made of, on an environment that maps the names of the set variables to their values, and
  the connection string. The properties say which values a setting can take, and where a malformed, extreme or
  unescaped one ends up.
\<close>

type_synonym getenv = "string \<Rightarrow> string option"

record config =
  cfg_ServerPort :: string
  cfg_LogLevel :: string
  cfg_Environment :: string
  cfg_ShutdownTimeout :: duration
  cfg_DBHost :: string
  cfg_DBPort :: string
  cfg_DBName :: string
  cfg_DBUser :: string
  cfg_DBPassword :: string
  cfg_DBMaxOpenConns :: goint
  cfg_DBMaxIdleConns :: goint
  cfg_DBConnectTimeout :: duration
  cfg_UserServiceURL :: string
  cfg_ProductServiceURL :: string
  cfg_PaymentServiceURL :: string
  cfg_HTTPClientTimeout :: duration
  cfg_HTTPRetryAttempts :: goint
  cfg_HTTPRetryBackoff :: duration

definition getEnv :: "getenv \<Rightarrow> string \<Rightarrow> string \<Rightarrow> string" where
  "getEnv env key fallback = (case env key of Some v \<Rightarrow> if v \<noteq> [] then v else fallback | None \<Rightarrow> fallback)"

definition getEnvInt :: "getenv \<Rightarrow> string \<Rightarrow> goint \<Rightarrow> goint" where
  "getEnvInt env key fallback =
     (case env key of
        None \<Rightarrow> fallback
      | Some v \<Rightarrow> if v = [] then fallback else (case atoi v of None \<Rightarrow> fallback | Some i \<Rightarrow> i))"

definition time_Second :: duration where "time_Second = 1000000000"
definition time_Millisecond :: duration where "time_Millisecond = 1000000"

definition Load :: "getenv \<Rightarrow> go_error + config" where
  "Load env =
     (let cfg = \<lparr>cfg_ServerPort = getEnv env ''SERVER_PORT'' ''8082'',
        cfg_LogLevel = getEnv env ''LOG_LEVEL'' ''info'',
        cfg_Environment = getEnv env ''ENVIRONMENT'' ''development'',
        cfg_ShutdownTimeout = getEnvInt env ''SHUTDOWN_TIMEOUT_SECONDS'' 10 * time_Second,
        cfg_DBHost = getEnv env ''DB_HOST'' ''localhost'',
        cfg_DBPort = getEnv env ''DB_PORT'' ''5432'',
        cfg_DBName = getEnv env ''DB_NAME'' ''shopstream_orders'',
        cfg_DBUser = getEnv env ''DB_USER'' ''shopstream'',
        cfg_DBPassword = getEnv env ''DB_PASSWORD'' [],
        cfg_DBMaxOpenConns = getEnvInt env ''DB_MAX_OPEN_CONNS'' 10,
        cfg_DBMaxIdleConns = getEnvInt env ''DB_MAX_IDLE_CONNS'' 5,
        cfg_DBConnectTimeout = getEnvInt env ''DB_CONNECT_TIMEOUT_SECONDS'' 5 * time_Second,
        cfg_UserServiceURL = getEnv env ''USER_SERVICE_URL'' ''http://localhost:8081'',
        cfg_ProductServiceURL = getEnv env ''PRODUCT_SERVICE_URL'' ''http://localhost:8000'',
        cfg_PaymentServiceURL = getEnv env ''PAYMENT_SERVICE_URL'' ''http://localhost:8083'',
        cfg_HTTPClientTimeout = getEnvInt env ''HTTP_CLIENT_TIMEOUT_SECONDS'' 3 * time_Second,
        cfg_HTTPRetryAttempts = getEnvInt env ''HTTP_CLIENT_RETRY_ATTEMPTS'' 2,
        cfg_HTTPRetryBackoff = getEnvInt env ''HTTP_CLIENT_RETRY_BACKOFF_MS'' 200 * time_Millisecond\<rparr>
      in if cfg_DBUser cfg = [] then Inl (Errorf ''DB_USER must not be empty'') else Inr cfg)"

subsection \<open>\<open>Duration.Seconds\<close>\<close>

text \<open>
  \<open>Seconds\<close> is a \<open>float64\<close>: the whole seconds, plus the rest divided by 1e9, each rounded to 53 bits, ties to even. A
  double is a pair \<open>(m, e)\<close> for \<open>m * 2^e\<close>. The exponents that occur lie between -90 and 0, so that neither overflow nor
  underflow is in question; a count of seconds is below 2^53, and a rest of zero adds nothing.
\<close>

fun bit_length :: "nat \<Rightarrow> nat" where
  "bit_length n = (if n = 0 then 0 else Suc (bit_length (n div 2)))"

declare bit_length.simps [simp del]

definition round_ratio :: "int \<Rightarrow> int \<Rightarrow> int" where
  "round_ratio a b = (let q = a div b; r = a mod b in
     if 2 * r < b then q else if b < 2 * r then q + 1 else if even q then q else q + 1)"

text \<open>The double nearest to \<open>a / b\<close>, for positive \<open>b\<close>: 53 bits from the leading one on.\<close>

definition double_of_ratio :: "int \<Rightarrow> int \<Rightarrow> int \<times> int" where
  "double_of_ratio a b =
     (if a = 0 then (0, 0)
      else let e0 = int (bit_length (nat \<bar>a\<bar>)) - int (bit_length (nat b)) - 53;
               scaled = (\<lambda>e. if 0 \<le> e then (a, b * 2 ^ nat e) else (a * 2 ^ nat (- e), b));
               e = (case scaled e0 of (x, y) \<Rightarrow> if 2 ^ 53 * y \<le> \<bar>x\<bar> then e0 + 1 else e0)
           in case scaled e of (x, y) \<Rightarrow> (round_ratio x y, e))"

definition duration_Seconds :: "duration \<Rightarrow> int \<times> int" where
  "duration_Seconds d =
     (let sec = sint d sdiv 1000000000; nsec = sint d smod 1000000000 in
      if nsec = 0 then (sec, 0)
      else case double_of_ratio nsec 1000000000 of
        (m, e) \<Rightarrow> double_of_ratio (sec * 2 ^ nat (- e) + m) (2 ^ nat (- e)))"

text \<open>The conversion \<open>int(x)\<close> of a double truncates toward zero.\<close>

definition int_of_double :: "int \<times> int \<Rightarrow> int" where
  "int_of_double = (\<lambda>(m, e). if 0 \<le> e then m * 2 ^ nat e else m sdiv 2 ^ nat (- e))"

definition DatabaseDSN :: "config \<Rightarrow> string" where
  "DatabaseDSN c = ''postgres://'' @ cfg_DBUser c @ '':'' @ cfg_DBPassword c @ ''@'' @ cfg_DBHost c @ '':'' @ cfg_DBPort c
     @ ''/'' @ cfg_DBName c @ ''?sslmode=disable&connect_timeout=''
     @ show_int (int_of_double (duration_Seconds (cfg_DBConnectTimeout c)))"

subsection \<open>Properties\<close>

lemma getEnv_nonempty: "fallback \<noteq> [] \<Longrightarrow> getEnv env key fallback \<noteq> []"
  by (simp add: getEnv_def split: option.split)

lemma Load_Inr: "\<exists>cfg. Load env = Inr cfg \<and> cfg_DBUser cfg \<noteq> []
   \<and> cfg_HTTPRetryAttempts cfg = getEnvInt env ''HTTP_CLIENT_RETRY_ATTEMPTS'' 2"
  using getEnv_nonempty [of "''shopstream''" env "''DB_USER''"] by (simp add: Load_def Let_def)

lemma show_int_not_Nil: "show_int i \<noteq> []"
  by (simp add: show_int_def)

lemma getEnvInt_decimal:
  assumes "env key = Some (show_int i)" and "in_int64 i"
  shows "getEnvInt env key fallback = word_of_int i"
  using assms by (simp add: getEnvInt_def show_int_not_Nil atoi_show_int)

lemma exact_seconds: "n * 1000000000 sdiv 1000000000 = (n :: int)" "n * 1000000000 smod 1000000000 = (0 :: int)"
  by (simp_all add: signed_divide_int_def signed_modulo_int_def abs_mult sgn_mult mult_sgn_abs)

text \<open>\<open>Load\<close> accepts every environment: its only check, of an empty \<open>DB_USER\<close>, cannot fail, because an empty value is replaced by the
  default. In particular a retry count of any value, negative ones included, becomes the configured one, and a count that is no
  decimal integer of 64 bits is silently replaced by 2.\<close>

lemma Load_accepts_every_environment:
  "\<exists>cfg. Load env = Inr cfg \<and> cfg_DBUser cfg \<noteq> []
    \<and> (\<forall>i. in_int64 i \<longrightarrow> env ''HTTP_CLIENT_RETRY_ATTEMPTS'' = Some (show_int i) \<longrightarrow> sint (cfg_HTTPRetryAttempts cfg) = i)
    \<and> ((case env ''HTTP_CLIENT_RETRY_ATTEMPTS'' of None \<Rightarrow> True | Some v \<Rightarrow> atoi v = None) \<longrightarrow> cfg_HTTPRetryAttempts cfg = 2)"
proof -
  obtain cfg where cfg: "Load env = Inr cfg" "cfg_DBUser cfg \<noteq> []"
    "cfg_HTTPRetryAttempts cfg = getEnvInt env ''HTTP_CLIENT_RETRY_ATTEMPTS'' 2" using Load_Inr by blast
  moreover have "sint (cfg_HTTPRetryAttempts cfg) = i"
    if "in_int64 i" "env ''HTTP_CLIENT_RETRY_ATTEMPTS'' = Some (show_int i)" for i
    using getEnvInt_decimal [where key = "''HTTP_CLIENT_RETRY_ATTEMPTS''" and env = env, OF that(2,1)] sint_word_of_int64 [OF that(1)] cfg(3) by simp
  moreover have "cfg_HTTPRetryAttempts cfg = 2"
    if "case env ''HTTP_CLIENT_RETRY_ATTEMPTS'' of None \<Rightarrow> True | Some v \<Rightarrow> atoi v = None"
    using that cfg(3) by (auto simp: getEnvInt_def split: option.splits)
  ultimately show ?thesis by blast
qed

lemma whole_seconds:
  assumes "in_int64 (n * 1000000000)"
  shows "int_of_double (duration_Seconds (word_of_int n * time_Second)) = n"
proof -
  have "sint (word_of_int n * time_Second) = n * 1000000000"
    using sint_word_of_int64 [OF assms] by (simp add: time_Second_def)
  then show ?thesis by (simp add: duration_Seconds_def int_of_double_def exact_seconds)
qed

text \<open>The timeouts: a number of seconds that fits a \<open>time.Duration\<close> in nanoseconds reaches the connection string as that number.
  A larger one wraps: 2^55 seconds become a timeout of zero.\<close>

lemma connect_timeout_seconds:
  assumes "Load env = Inr cfg" and "env ''DB_CONNECT_TIMEOUT_SECONDS'' = Some (show_int n)" and "in_int64 n"
  shows "(in_int64 (n * 1000000000) \<longrightarrow>
      (\<exists>front. DatabaseDSN cfg = front @ ''connect_timeout='' @ show_int n))
    \<and> (n = 2 ^ 55 \<longrightarrow> sint (cfg_DBConnectTimeout cfg) = 0)"
proof -
  have timeout: "cfg_DBConnectTimeout cfg = word_of_int n * time_Second"
    using assms(1) getEnvInt_decimal [where key = "''DB_CONNECT_TIMEOUT_SECONDS''" and env = env, OF assms(2,3)] by (auto simp: Load_def Let_def split: if_splits)
  show ?thesis
  proof (intro conjI impI)
    assume "in_int64 (n * 1000000000)"
    then have "DatabaseDSN cfg = (''postgres://'' @ cfg_DBUser cfg @ '':'' @ cfg_DBPassword cfg @ ''@'' @ cfg_DBHost cfg @ '':''
        @ cfg_DBPort cfg @ ''/'' @ cfg_DBName cfg @ ''?sslmode=disable&'') @ ''connect_timeout='' @ show_int n"
      by (simp add: DatabaseDSN_def timeout whole_seconds)
    then show "\<exists>front. DatabaseDSN cfg = front @ ''connect_timeout='' @ show_int n" by blast
  next
    assume "n = 2 ^ 55"
    then have "cfg_DBConnectTimeout cfg = word_of_int (2 ^ 55 * 1000000000)" by (simp add: timeout time_Second_def)
    then show "sint (cfg_DBConnectTimeout cfg) = 0" by simp
  qed
qed

text \<open>The connection string does not escape the credentials: a password with an @ gives the same string as another password with
  another host, so it does not determine which database is meant.\<close>

lemma DatabaseDSN_ambiguous:
  "\<exists>env1 env2 cfg1 cfg2. Load env1 = Inr cfg1 \<and> Load env2 = Inr cfg2 \<and> DatabaseDSN cfg1 = DatabaseDSN cfg2
    \<and> cfg_DBHost cfg1 \<noteq> cfg_DBHost cfg2 \<and> cfg_DBPassword cfg1 \<noteq> cfg_DBPassword cfg2"
proof -
  let ?env1 = "[''DB_PASSWORD'' \<mapsto> ''p@q'', ''DB_HOST'' \<mapsto> ''db'']"
  let ?env2 = "[''DB_PASSWORD'' \<mapsto> ''p'', ''DB_HOST'' \<mapsto> ''q@db'']"
  obtain cfg1 cfg2 where "Load ?env1 = Inr cfg1" "Load ?env2 = Inr cfg2" using Load_Inr by metis
  moreover from this have "DatabaseDSN cfg1 = DatabaseDSN cfg2 \<and> cfg_DBHost cfg1 \<noteq> cfg_DBHost cfg2
      \<and> cfg_DBPassword cfg1 \<noteq> cfg_DBPassword cfg2"
    by (auto simp: Load_def Let_def getEnv_def DatabaseDSN_def getEnvInt_def)
  ultimately show ?thesis by blast
qed

end
