(* ===== verification/Server_Main.thy ===== *)
theory Server_Main
  imports Order_Server Order_Config
begin

section \<open>The server process (\<open>cmd/server/main.go\<close>)\<close>

text \<open>
  \<open>main\<close> in two parts: the boot, which loads the configuration, reaches the database and wires the components, and the run,
  which waits for the listener or a signal and shuts down. What the libraries report is a parameter of each part. The
  properties connect the configuration with the behaviour of the running server.
\<close>

subsection \<open>Log levels\<close>

definition parseLevel :: "string \<Rightarrow> log_level" where
  "parseLevel level =
     (if level = ''debug'' then LevelDebug
      else if level = ''warn'' then LevelWarn
      else if level = ''error'' then LevelError
      else LevelInfo)"

text \<open>\<open>slog\<close> orders its levels and a handler drops the records below its own.\<close>

fun slog_level :: "log_level \<Rightarrow> int" where
  "slog_level LevelDebug = - 4"
| "slog_level LevelInfo = 0"
| "slog_level LevelWarn = 4"
| "slog_level LevelError = 8"

instantiation log_level :: linorder
begin

definition less_eq_log_level :: "log_level \<Rightarrow> log_level \<Rightarrow> bool" where
  "less_eq_log_level l l' \<longleftrightarrow> slog_level l \<le> slog_level l'"

definition less_log_level :: "log_level \<Rightarrow> log_level \<Rightarrow> bool" where
  "less_log_level l l' \<longleftrightarrow> slog_level l < slog_level l'"

instance
proof
  fix x y :: log_level
  show "x \<le> y \<Longrightarrow> y \<le> x \<Longrightarrow> x = y" by (cases x; cases y) (simp_all add: less_eq_log_level_def)
qed (auto simp: less_eq_log_level_def less_log_level_def)

end

definition printed :: "log_level \<Rightarrow> event list \<Rightarrow> (log_level \<times> string) list" where
  "printed threshold es =
     concat (map (\<lambda>ev. case ev of EvLog l m a \<Rightarrow> if threshold \<le> l then [(l, m)] else [] | _ \<Rightarrow> []) es)"

subsection \<open>Boot\<close>

text \<open>What \<open>pgxpool\<close> reports for a connection string, a pool and a ping.\<close>

record pool_config =
  pool_dsn :: string
  pool_MaxConns :: "32 word"
  pool_MinConns :: "32 word"

record database_driver =
  drv_ParseConfig :: "string \<Rightarrow> foreign option"
  drv_NewWithConfig :: "pool_config \<Rightarrow> foreign option"
  drv_Ping :: "pool_config \<Rightarrow> duration \<Rightarrow> foreign option"

record server_process =
  srv_Addr :: string
  srv_log_level :: log_level
  srv_pool :: pool_config
  srv_downstream :: downstream
  srv_release_mode :: bool
  srv_ShutdownTimeout :: duration

datatype boot_result = Exits int string | Serves server_process

text \<open>The conversion \<open>int32(n)\<close> keeps the low 32 bits.\<close>

definition pool_config_of :: "config \<Rightarrow> pool_config" where
  "pool_config_of cfg = \<lparr>pool_dsn = DatabaseDSN cfg, pool_MaxConns = ucast (cfg_DBMaxOpenConns cfg),
     pool_MinConns = ucast (cfg_DBMaxIdleConns cfg)\<rparr>"

definition downstream_of :: "config \<Rightarrow> downstream" where
  "downstream_of cfg = \<lparr>ds_users = NewResilientClient (cfg_UserServiceURL cfg) ''user-service'' (cfg_HTTPClientTimeout cfg)
       (cfg_HTTPRetryAttempts cfg) (cfg_HTTPRetryBackoff cfg),
     ds_products = NewResilientClient (cfg_ProductServiceURL cfg) ''product-service'' (cfg_HTTPClientTimeout cfg)
       (cfg_HTTPRetryAttempts cfg) (cfg_HTTPRetryBackoff cfg),
     ds_payments = NewResilientClient (cfg_PaymentServiceURL cfg) ''payment-service'' (cfg_HTTPClientTimeout cfg)
       (cfg_HTTPRetryAttempts cfg) (cfg_HTTPRetryBackoff cfg)\<rparr>"

definition boot :: "database_driver \<Rightarrow> getenv \<Rightarrow> boot_result" where
  "boot drv env =
     (case Load env of
        Inl err \<Rightarrow> Exits 1 ''invalid configuration''
      | Inr cfg \<Rightarrow>
          (case drv_ParseConfig drv (DatabaseDSN cfg) of
             Some err \<Rightarrow> Exits 1 ''invalid database configuration''
           | None \<Rightarrow>
               (case drv_NewWithConfig drv (pool_config_of cfg) of
                  Some err \<Rightarrow> Exits 1 ''failed to create database pool''
                | None \<Rightarrow>
                    (case drv_Ping drv (pool_config_of cfg) (cfg_DBConnectTimeout cfg) of
                       Some err \<Rightarrow> Exits 1 ''database is unreachable at startup''
                     | None \<Rightarrow> Serves
                         \<lparr>srv_Addr = '':'' @ cfg_ServerPort cfg, srv_log_level = parseLevel (cfg_LogLevel cfg),
                          srv_pool = pool_config_of cfg, srv_downstream = downstream_of cfg,
                          srv_release_mode = (cfg_Environment cfg = ''production''),
                          srv_ShutdownTimeout = cfg_ShutdownTimeout cfg\<rparr>))))"

subsection \<open>Run and shutdown\<close>

text \<open>
  The listener runs beside \<open>main\<close>: the list says in which order it starts and returns, and a signal comes. A return with
  \<open>http.ErrServerClosed\<close>, compared by identity, or without an error ends only the listener.
\<close>

datatype run_event = Listener_started | Listener_returned "go_error option" | Signal_received

text \<open>The messages logged, and the exit code once the process has ended.\<close>

fun run_server :: "(duration \<Rightarrow> foreign option) \<Rightarrow> server_process \<Rightarrow> run_event list \<Rightarrow> (log_level \<times> string) list \<times> int option" where
  "run_server Shutdown srv [] = ([], None)"
| "run_server Shutdown srv (Listener_started # es) =
     (let (msgs, code) = run_server Shutdown srv es in ((LevelInfo, ''order-service listening'') # msgs, code))"
| "run_server Shutdown srv (Listener_returned err # es) =
     (if err \<noteq> None \<and> err \<noteq> Some (Sentinel Http_ErrServerClosed)
      then ([(LevelError, ''server failed'')], Some 1)
      else run_server Shutdown srv es)"
| "run_server Shutdown srv (Signal_received # es) =
     (case Shutdown (srv_ShutdownTimeout srv) of
        Some err \<Rightarrow> ([(LevelInfo, ''shutdown signal received''), (LevelError, ''forced shutdown'')], Some 1)
      | None \<Rightarrow> ([(LevelInfo, ''shutdown signal received''), (LevelInfo, ''server shut down cleanly'')], Some 0))"

subsection \<open>Properties\<close>

lemma boot_Serves_E:
  assumes "boot drv env = Serves srv"
  obtains cfg where "Load env = Inr cfg" and "drv_ParseConfig drv (DatabaseDSN cfg) = None"
    and "drv_NewWithConfig drv (pool_config_of cfg) = None" and "drv_Ping drv (pool_config_of cfg) (cfg_DBConnectTimeout cfg) = None"
    and "srv_downstream srv = downstream_of cfg" and "srv_pool srv = pool_config_of cfg"
    and "srv_log_level srv = parseLevel (cfg_LogLevel cfg)"
  using assms by (auto simp: boot_def split: sum.splits option.splits)

lemma patient_downstream_of: "patient (downstream_of cfg) \<longleftrightarrow> 0 \<le> sint (cfg_HTTPRetryAttempts cfg)"
  by (simp add: patient_def downstream_of_def NewResilientClient_def)

text \<open>Fail fast: the process serves only if the database answered its ping with the configured pool; otherwise it has exited with
  code 1. The pool's limits are the configured ones modulo 2^32, so that a limit of 2^32 becomes 0.\<close>

lemma boot_fails_fast:
  "(\<exists>msg. boot drv env = Exits 1 msg) \<or> (\<exists>srv cfg. boot drv env = Serves srv \<and> Load env = Inr cfg
     \<and> pool_dsn (srv_pool srv) = DatabaseDSN cfg \<and> drv_Ping drv (srv_pool srv) (cfg_DBConnectTimeout cfg) = None
     \<and> uint (pool_MaxConns (srv_pool srv)) = sint (cfg_DBMaxOpenConns cfg) mod 2 ^ 32
     \<and> uint (pool_MinConns (srv_pool srv)) = sint (cfg_DBMaxIdleConns cfg) mod 2 ^ 32)"
proof (cases "boot drv env")
  case (Exits code msg)
  then have "code = 1" by (auto simp: boot_def split: sum.splits option.splits)
  with Exits show ?thesis by simp
next
  case (Serves srv)
  then show ?thesis
  proof (cases rule: boot_Serves_E)
    case (1 cfg)
    have "uint (ucast x :: 32 word) = sint x mod 2 ^ 32" for x :: goint
    proof -
      have "sint x mod 2 ^ 32 = uint x mod 2 ^ 32"
        using mod_mod_cancel [of "2 ^ 32" "2 ^ 64" "sint x"] uint_sint [of x] by (simp add: take_bit_eq_mod)
      then show ?thesis by (simp add: unsigned_ucast_eq take_bit_eq_mod)
    qed
    with 1 Serves show ?thesis by (simp add: pool_config_of_def)
  qed
qed

text \<open>The exit code is 0 exactly after a signal that found the listener running, or closed as intended, and a shutdown in time. A
  listener that fails first, or a shutdown that does not finish, ends the process with code 1; without either it goes on.\<close>

lemma run_server_exit_code:
  "(snd (run_server Shutdown srv es) = Some 0 \<longleftrightarrow>
      (\<exists>pre post. es = pre @ Signal_received # post
         \<and> set pre \<subseteq> {Listener_started, Listener_returned None, Listener_returned (Some (Sentinel Http_ErrServerClosed))}
         \<and> Shutdown (srv_ShutdownTimeout srv) = None))
   \<and> snd (run_server Shutdown srv es) \<in> {None, Some 0, Some 1}"
proof (induction es)
  case Nil
  then show ?case by simp
next
  case (Cons e es)
  show ?case
  proof (cases e)
    case Listener_started
    with Cons show ?thesis by (fastforce simp: Cons_eq_append_conv Let_def case_prod_beta)
  next
    case Signal_received
    then show ?thesis
      by (auto simp: Cons_eq_append_conv split: option.splits)
  next
    case (Listener_returned err)
    show ?thesis
    proof (cases "err \<noteq> None \<and> err \<noteq> Some (Sentinel Http_ErrServerClosed)")
      case True
      with Listener_returned show ?thesis by (auto simp: Cons_eq_append_conv)
    next
      case False
      with Listener_returned Cons show ?thesis by (fastforce simp: Cons_eq_append_conv)
    qed
  qed
qed

end
