(* ===== verification/Order_Binding.thy ===== *)
theory Order_Binding
  imports Go_World
begin

section \<open>Binding the body of an order (\<open>ShouldBindJSON\<close>)\<close>

text \<open>
  \<open>c.ShouldBindJSON(&req)\<close> of the handler that places an order: \<open>encoding/json\<close> decodes the body into a
  \<open>CreateOrderRequest\<close>, then the \<open>binding\<close> tags are checked. The other theories leave the binding open (\<open>e_bind\<close>) and rely
  only on the tags; here it is written out, with the properties of \<open>encoding/json\<close> that a caller can see: names match
  whatever their case, a later member overwrites an earlier one, and an array is decoded into the slice that is
  already there, element by element.
\<close>

subsection \<open>Decoding\<close>

definition zero_line :: create_order_item_request where
  "zero_line = \<lparr>itemreq_ProductID = [], itemreq_Quantity = 0\<rparr>"

definition line_fields :: "create_order_item_request field list" where
  "line_fields = [StringField ''productId'' (\<lambda>v r. r\<lparr>itemreq_ProductID := v\<rparr>),
     IntField ''quantity'' (\<lambda>v r. r\<lparr>itemreq_Quantity := v\<rparr>)]"

text \<open>The first error is kept, and decoding goes on.\<close>

definition mismatch :: "foreign option \<Rightarrow> json \<Rightarrow> string \<Rightarrow> string \<Rightarrow> foreign option" where
  "mismatch err j path type = (case err of
       Some f \<Rightarrow> Some f
     | None \<Rightarrow> Some (ForeignError (''json: cannot unmarshal '' @ json_kind j @ '' into Go struct field '' @ path @ '' of type '' @ type)
         None))"

definition bind_line :: "json \<Rightarrow> create_order_item_request \<Rightarrow> foreign option \<Rightarrow> create_order_item_request \<times> foreign option" where
  "bind_line j line err = (case j of
       JNull \<Rightarrow> (line, err)
     | JObject kvs \<Rightarrow> decode_members ''CreateOrderItemRequest.items'' line_fields kvs line err
     | _ \<Rightarrow> (line, mismatch err j ''CreateOrderRequest.items'' ''models.CreateOrderItemRequest''))"

text \<open>The elements go into the slots of the slice from the first on; new slots are zero, and the slots after the last element keep
  what they hold.\<close>

fun bind_lines :: "json list \<Rightarrow> create_order_item_request list \<Rightarrow> foreign option
    \<Rightarrow> create_order_item_request list \<times> foreign option" where
  "bind_lines [] slots err = (slots, err)"
| "bind_lines (j # js) slots err =
     (let (line, err1) = bind_line j (case slots of [] \<Rightarrow> zero_line | s # ss \<Rightarrow> s) err;
          (lines, err2) = bind_lines js (drop 1 slots) err1
      in (line # lines, err2))"

record bound_order =
  bound_UserID :: string
  bound_slots :: "create_order_item_request list"
  bound_len :: nat

fun bind_member :: "string \<Rightarrow> json \<Rightarrow> bound_order \<Rightarrow> foreign option \<Rightarrow> bound_order \<times> foreign option" where
  "bind_member k j r err =
     (if fold_name k = ''USERID'' then
        (case j of
           JNull \<Rightarrow> (r, err)
         | JString s \<Rightarrow> (r\<lparr>bound_UserID := s\<rparr>, err)
         | _ \<Rightarrow> (r, mismatch err j ''CreateOrderRequest.userId'' ''string''))
      else if fold_name k = ''ITEMS'' then
        (case j of
           JNull \<Rightarrow> (r\<lparr>bound_slots := [], bound_len := 0\<rparr>, err)
         | JArray [] \<Rightarrow> (r\<lparr>bound_slots := [], bound_len := 0\<rparr>, err)
         | JArray js \<Rightarrow> (case bind_lines js (bound_slots r) err of
             (lines, err') \<Rightarrow> (r\<lparr>bound_slots := lines, bound_len := length js\<rparr>, err'))
         | _ \<Rightarrow> (r, mismatch err j ''CreateOrderRequest.items'' ''[]models.CreateOrderItemRequest''))
      else (r, err))"

fun bind_members :: "(string \<times> json) list \<Rightarrow> bound_order \<Rightarrow> foreign option \<Rightarrow> bound_order \<times> foreign option" where
  "bind_members [] r err = (r, err)"
| "bind_members ((k, j) # kvs) r err = (case bind_member k j r err of (r', err') \<Rightarrow> bind_members kvs r' err')"

definition nothing_bound :: bound_order where
  "nothing_bound = \<lparr>bound_UserID = [], bound_slots = [], bound_len = 0\<rparr>"

definition bound_request :: "bound_order \<Rightarrow> create_order_request" where
  "bound_request r = \<lparr>req_UserID = bound_UserID r, req_Items = take (bound_len r) (bound_slots r)\<rparr>"

definition decode_order :: "body \<Rightarrow> foreign + create_order_request" where
  "decode_order b = (case b of
       BadBody f \<Rightarrow> Inl f
     | JsonBody JNull \<Rightarrow> Inr (bound_request nothing_bound)
     | JsonBody (JObject kvs) \<Rightarrow> (case bind_members kvs nothing_bound None of
           (r, None) \<Rightarrow> Inr (bound_request r) | (r, Some f) \<Rightarrow> Inl f)
     | JsonBody j \<Rightarrow> Inl (ForeignError
         (''json: cannot unmarshal '' @ json_kind j @ '' into Go value of type models.CreateOrderRequest'') None))"

text \<open>The text of a violated tag is the validator's.\<close>

definition ShouldBindJSON :: "(create_order_request \<Rightarrow> foreign) \<Rightarrow> body \<Rightarrow> foreign + create_order_request" where
  "ShouldBindJSON violated b = (case decode_order b of
       Inl f \<Rightarrow> Inl f
     | Inr req \<Rightarrow> if order_binding_ok req then Inr req else Inl (violated req))"

definition binds_json :: "env \<Rightarrow> bool" where
  "binds_json E \<longleftrightarrow> (\<exists>violated. \<forall>b. e_bind E b = ShouldBindJSON violated b)"

lemma ShouldBindJSON_checked: "ShouldBindJSON violated b = Inr req \<Longrightarrow> order_binding_ok req"
  by (cases "decode_order b") (auto simp: ShouldBindJSON_def split: if_splits)

lemma binds_json_checked: "binds_json E \<Longrightarrow> binding_checked E"
  by (auto simp: binds_json_def binding_checked_def dest: ShouldBindJSON_checked)

subsection \<open>Which user an order is bound to\<close>

text \<open>The last member whose name matches \<open>userId\<close>, whatever its case, and whose value is not \<open>null\<close>.\<close>

fun named_user :: "(string \<times> json) list \<Rightarrow> string \<Rightarrow> string" where
  "named_user [] u = u"
| "named_user ((k, j) # kvs) u =
     named_user kvs (if fold_name k = ''USERID'' then (case j of JString s \<Rightarrow> s | _ \<Rightarrow> u) else u)"

lemma mismatch_Some [simp]: "\<exists>f. mismatch err j p t = Some f"
  by (simp add: mismatch_def split: option.split)

lemma bind_line_err: "bind_line j line (Some f) = (line', err) \<Longrightarrow> err = Some f"
  using decode_members_err_kept [of _ line_fields _ line f]
  by (auto simp: bind_line_def mismatch_def split: json.splits dest: arg_cong [where f = snd])

lemma bind_lines_err: "bind_lines js slots (Some f) = (lines, err) \<Longrightarrow> err = Some f"
  by (induction js arbitrary: slots lines err) (auto split: prod.splits dest: bind_line_err)

lemma bind_member_err: "bind_member k j r (Some f) = (r', err) \<Longrightarrow> err = Some f"
  by (auto simp: mismatch_def split: if_splits json.splits list.splits prod.splits dest: bind_lines_err simp del: bind_lines.simps)

lemma bind_members_err: "bind_members kvs r (Some f) = (r', err) \<Longrightarrow> err = Some f"
proof (induction kvs arbitrary: r)
  case (Cons kv kvs)
  obtain k j where kv: "kv = (k, j)" by fastforce
  obtain r1 err1 where step: "bind_member k j r (Some f) = (r1, err1)" by fastforce
  then have "err1 = Some f" by (rule bind_member_err)
  with Cons kv step show ?case by simp
qed simp

lemma bind_member_user:
  "bind_member k j r None = (r', None) \<Longrightarrow> bound_UserID r' = named_user [(k, j)] (bound_UserID r)"
  by (auto simp: mismatch_def split: if_splits json.splits list.splits prod.splits)

lemma bind_members_user:
  "bind_members kvs r None = (r', None) \<Longrightarrow> bound_UserID r' = named_user kvs (bound_UserID r)"
proof (induction kvs arbitrary: r)
  case (Cons kv kvs)
  obtain k j where kv: "kv = (k, j)" by fastforce
  obtain r1 err1 where step: "bind_member k j r None = (r1, err1)" by fastforce
  have "err1 = None"
  proof (cases err1)
    case (Some f)
    with Cons.prems kv step bind_members_err [of kvs r1 f r' None] show ?thesis by simp
  qed
  with Cons kv step bind_member_user [of k j r r1] show ?case by simp
qed simp

lemma decode_order_user:
  "decode_order (JsonBody (JObject kvs)) = Inr req \<Longrightarrow> req_UserID req = named_user kvs []"
  using bind_members_user [of kvs nothing_bound]
  by (auto simp: decode_order_def bound_request_def nothing_bound_def split: prod.splits option.splits)

lemma ShouldBindJSON_user:
  "ShouldBindJSON violated (JsonBody (JObject kvs)) = Inr req \<Longrightarrow> req_UserID req = named_user kvs []"
  by (auto simp: ShouldBindJSON_def decode_order_user split: sum.splits if_splits)

lemma named_user_append [simp]: "named_user (xs @ ys) u = named_user ys (named_user xs u)"
  by (induction xs u rule: named_user.induct) auto

lemma named_user_other: "\<forall>(k, j)\<in>set kvs. fold_name k \<noteq> ''USERID'' \<Longrightarrow> named_user kvs u = u"
  by (induction kvs u rule: named_user.induct) auto

subsection \<open>Round trip\<close>

text \<open>The JSON of a request, as a client writes it.\<close>

definition line_json :: "create_order_item_request \<Rightarrow> json" where
  "line_json line = JObject [(''productId'', JString (itemreq_ProductID line)), (''quantity'', json_int (itemreq_Quantity line))]"

lemma fold_order_names [simp]:
  "fold_name ''userId'' = ''USERID''" "fold_name ''items'' = ''ITEMS''"
  "fold_name ''productId'' = ''PRODUCTID''" "fold_name ''quantity'' = ''QUANTITY''"
  by code_simp+

lemma bind_line_json: "bind_line (line_json line) slot None = (line, None)"
  by (simp add: bind_line_def line_json_def line_fields_def find_field_def json_int_def)

lemma bind_lines_json: "bind_lines (map line_json lines) [] None = (lines, None)"
  by (induction lines) (simp_all add: bind_line_json)

definition request_json :: "create_order_request \<Rightarrow> json" where
  "request_json req = JObject [(''userId'', JString (req_UserID req)), (''items'', JArray (map line_json (req_Items req)))]"

lemma decode_order_json: "decode_order (JsonBody (request_json req)) = Inr req"
  by (cases "req_Items req")
    (simp_all add: decode_order_def request_json_def bind_line_json bind_lines_json bound_request_def nothing_bound_def)

lemma ShouldBindJSON_json: "order_binding_ok req \<Longrightarrow> ShouldBindJSON violated (JsonBody (request_json req)) = Inr req"
  by (simp add: ShouldBindJSON_def decode_order_json)

end
