(* ===== verification/Api_Gateway.thy ===== *)
theory Api_Gateway
  imports Go_World "HOL-Library.AList"
begin

section \<open>The API gateway (\<open>api-gateway\<close>)\<close>

text \<open>
  The front door of the platform, in JavaScript: the settings, \<open>authenticate\<close>, the routes, the client of
  \<open>services/httpClient.js\<close> with its retries, and the error handlers. A JavaScript object is the list of its own properties in
  their order, so that \<open>JSON.stringify\<close> is the identity; a missing property or body is \<open>None\<close>. The verification of a token
  (\<open>jsonwebtoken\<close>) and the query string that axios makes of a value are parameters.
\<close>

subsection \<open>What is not the program's\<close>

record js_packages =
  js_verify :: "string \<Rightarrow> string \<Rightarrow> string + json"     \<comment> \<open>token, secret: the error's message, or the payload\<close>
  js_params :: "json \<Rightarrow> (string \<times> string) list"        \<comment> \<open>the pairs of one query parameter\<close>
  js_text :: "json \<Rightarrow> string"                         \<comment> \<open>in a template, of what is no string\<close>

subsection \<open>Configuration (\<open>config/index.js\<close>)\<close>

text \<open>\<open>parseInt(s, 10)\<close>: white space, a sign and the longest run of digits; \<open>None\<close> is \<open>NaN\<close>.\<close>

definition js_space :: "char \<Rightarrow> bool" where
  "js_space c \<longleftrightarrow> c \<in> set [CHR '' '', CHR 0x09, CHR 0x0A, CHR 0x0B, CHR 0x0C, CHR 0x0D]"

definition js_digits :: "string \<Rightarrow> int option" where
  "js_digits s = (let ds = takeWhile is_digit s in if ds = [] then None else Some (int (digits_value ds)))"

definition parseInt :: "string \<Rightarrow> int option" where
  "parseInt s = (case dropWhile js_space s of
       [] \<Rightarrow> None
     | c # cs \<Rightarrow> if c = CHR ''-'' then map_option uminus (js_digits cs)
         else if c = CHR ''+'' then js_digits cs else js_digits (c # cs))"

text \<open>\<open>a || b\<close> on strings: the empty string counts as missing.\<close>

definition or_default :: "string option \<Rightarrow> string \<Rightarrow> string" where
  "or_default s d = (case s of None \<Rightarrow> d | Some t \<Rightarrow> if t = [] then d else t)"

text \<open>\<open>s.split(c)\<close> and \<open>s.trim()\<close>; white space is that of ASCII.\<close>

fun js_split :: "char \<Rightarrow> string \<Rightarrow> string list" where
  "js_split sep [] = [[]]"
| "js_split sep (c # cs) =
     (if c = sep then [] # js_split sep cs
      else case js_split sep cs of [] \<Rightarrow> [[c]] | w # ws \<Rightarrow> (c # w) # ws)"

abbreviation split_space :: "string \<Rightarrow> string list" where "split_space \<equiv> js_split (CHR '' '')"

definition js_trim :: "string \<Rightarrow> string" where
  "js_trim s = rev (dropWhile js_space (rev (dropWhile js_space s)))"

datatype cors_origins = Every_origin | Origins "string list"

record gw_config =
  cfg_env :: string
  cfg_port :: "int option"
  cfg_logLevel :: string
  cfg_jwtSecret :: "string option"
  cfg_corsAllowedOrigins :: cors_origins
  cfg_rate_windowMs :: "int option"
  cfg_rate_max :: "int option"
  cfg_services :: "(string \<times> string) list"
  cfg_healthPaths :: "(string \<times> string) list"
  cfg_timeoutMs :: "int option"
  cfg_retryAttempts :: "int option"
  cfg_retryDelayMs :: "int option"
  cfg_shutdownTimeoutMs :: "int option"

definition cors_of :: "string option \<Rightarrow> cors_origins" where
  "cors_of v = (case v of
       None \<Rightarrow> Every_origin
     | Some s \<Rightarrow> if s = [] \<or> s = ''*'' then Every_origin else Origins (map js_trim (js_split (CHR '','') s)))"

definition gw_load :: "(string \<Rightarrow> string option) \<Rightarrow> gw_config" where
  "gw_load vars = \<lparr>cfg_env = or_default (vars ''NODE_ENV'') ''development'',
     cfg_port = parseInt (or_default (vars ''PORT'') ''3000''),
     cfg_logLevel = or_default (vars ''LOG_LEVEL'') ''info'',
     cfg_jwtSecret = vars ''JWT_SECRET'',
     cfg_corsAllowedOrigins = cors_of (vars ''CORS_ALLOWED_ORIGINS''),
     cfg_rate_windowMs = parseInt (or_default (vars ''RATE_LIMIT_WINDOW_MS'') ''60000''),
     cfg_rate_max = parseInt (or_default (vars ''RATE_LIMIT_MAX_REQUESTS'') ''100''),
     cfg_services = [(''user'', or_default (vars ''USER_SERVICE_URL'') ''http://localhost:8081''),
       (''product'', or_default (vars ''PRODUCT_SERVICE_URL'') ''http://localhost:8000''),
       (''order'', or_default (vars ''ORDER_SERVICE_URL'') ''http://localhost:8082''),
       (''payment'', or_default (vars ''PAYMENT_SERVICE_URL'') ''http://localhost:8083''),
       (''notification'', or_default (vars ''NOTIFICATION_SERVICE_URL'') ''http://localhost:8084'')],
     cfg_healthPaths = [(''user'', ''/actuator/health''), (''product'', ''/health''), (''order'', ''/health''), (''payment'', ''/health''),
       (''notification'', ''/health'')],
     cfg_timeoutMs = parseInt (or_default (vars ''HTTP_TIMEOUT_MS'') ''3000''),
     cfg_retryAttempts = parseInt (or_default (vars ''HTTP_RETRY_ATTEMPTS'') ''2''),
     cfg_retryDelayMs = parseInt (or_default (vars ''HTTP_RETRY_DELAY_MS'') ''200''),
     cfg_shutdownTimeoutMs = parseInt (or_default (vars ''SHUTDOWN_TIMEOUT_MS'') ''10000'')\<rparr>"

subsection \<open>\<open>middleware/auth.js\<close>\<close>

definition gw_error :: "string \<Rightarrow> string \<Rightarrow> json" where
  "gw_error code message = JObject [(''error'', JString code), (''message'', JString message)]"

datatype auth_result = Denied int json | Allowed json

definition authenticate :: "gw_config \<Rightarrow> js_packages \<Rightarrow> string option \<Rightarrow> auth_result" where
  "authenticate cfg js authorization =
     (let parts = split_space (or_default authorization [])
      in if parts ! 0 \<noteq> ''Bearer'' \<or> length parts < 2 \<or> parts ! 1 = []
         then Denied 401 (gw_error ''missing_token'' ''Authorization header must be: Bearer <token>'')
         else case cfg_jwtSecret cfg of
             None \<Rightarrow> Denied 500 (gw_error ''server_misconfigured'' ''JWT_SECRET is not configured'')
           | Some secret \<Rightarrow>
               if secret = [] then Denied 500 (gw_error ''server_misconfigured'' ''JWT_SECRET is not configured'')
               else (case js_verify js (parts ! 1) secret of
                   Inl message \<Rightarrow> Denied 401 (gw_error ''invalid_token'' message)
                 | Inr user \<Rightarrow> Allowed user))"

text \<open>Whom it lets through: a header that starts with \<open>Bearer\<close> and a token that the secret verifies.\<close>

lemma authenticate_Allowed:
  assumes "authenticate cfg js authorization = Allowed user"
  obtains header token secret where "authorization = Some header" and "take 2 (split_space header) = [''Bearer'', token]"
    and "cfg_jwtSecret cfg = Some secret" and "js_verify js token secret = Inr user"
proof -
  let ?parts = "split_space (or_default authorization [])"
  from assms have parts: "?parts ! 0 = ''Bearer''" "\<not> length ?parts < 2"
    by (auto simp: authenticate_def Let_def split: if_splits)
  then obtain scheme token rest where split: "?parts = scheme # token # rest" by (cases ?parts; cases "tl ?parts") auto
  with assms obtain secret where "cfg_jwtSecret cfg = Some secret" "js_verify js token secret = Inr user"
    by (auto simp: authenticate_def Let_def split: if_splits option.splits sum.splits)
  moreover from parts(1) obtain header where "authorization = Some header" "or_default authorization [] = header"
    by (cases authorization) (auto simp: or_default_def)
  ultimately show thesis using parts(1) split by (intro that [of header token secret]) auto
qed

text \<open>\<open>req.user.sub\<close>.\<close>

definition subject :: "json \<Rightarrow> json option" where
  "subject user = (case user of JObject claims \<Rightarrow> map_of claims ''sub'' | _ \<Rightarrow> None)"

subsection \<open>\<open>services/httpClient.js\<close>\<close>

text \<open>How one exchange ends: a response, or an error of axios with its code.\<close>

datatype hop = Hop_response int json | Hop_failed string

datatype axios_result = Resolved int json | Rejected_response int json | Rejected_network string

definition validated :: "hop \<Rightarrow> axios_result" where
  "validated h = (case h of
       Hop_response status data \<Rightarrow> if status < 500 then Resolved status data else Rejected_response status data
     | Hop_failed code \<Rightarrow> Rejected_network code)"

fun js_retryable :: "axios_result \<Rightarrow> bool" where
  "js_retryable (Rejected_network code) = True"
| "js_retryable (Rejected_response status data) = (status \<in> {502, 503, 504})"
| "js_retryable (Resolved status data) = False"

definition below :: "nat \<Rightarrow> int option \<Rightarrow> bool" where
  "below n limit = (case limit of None \<Rightarrow> False | Some m \<Rightarrow> int n < m)"

text \<open>
  The interceptor: \<open>tried\<close> is \<open>__retryCount\<close>. An exchange is a function on the state of the other side; the waits between the
  exchanges are returned in order, \<open>None\<close> for \<open>NaN\<close>.
\<close>

function service_client :: "gw_config \<Rightarrow> ('s \<Rightarrow> hop \<times> 's) \<Rightarrow> nat \<Rightarrow> 's \<Rightarrow> axios_result \<times> int option list \<times> 's" where
  "service_client cfg send tried s =
     (case send s of (h, s1) \<Rightarrow>
        if js_retryable (validated h) \<and> below tried (cfg_retryAttempts cfg)
        then (case service_client cfg send (Suc tried) s1 of (result, waits, s2) \<Rightarrow>
                (result, map_option (\<lambda>ms. ms * 2 ^ tried) (cfg_retryDelayMs cfg) # waits, s2))
        else (validated h, [], s1))"
  by pat_completeness auto

termination
  by (relation "measure (\<lambda>(cfg, send, tried, s). case cfg_retryAttempts cfg of None \<Rightarrow> 0 | Some m \<Rightarrow> nat m - tried)")
    (auto simp: below_def split: option.splits)

declare service_client.simps [simp del]

subsection \<open>\<open>middleware/errorHandler.js\<close>\<close>

definition settled_reply :: "axios_result \<Rightarrow> int \<times> json" where
  "settled_reply result = (case result of
       Resolved status data \<Rightarrow> (status, data)
     | Rejected_response status data \<Rightarrow> (status, data)
     | Rejected_network code \<Rightarrow>
         if code = ''ECONNABORTED'' then (504, gw_error ''gateway_timeout'' ''Downstream service did not respond in time'')
         else (502, gw_error ''bad_gateway'' ''Downstream service is unreachable''))"

subsection \<open>\<open>routes/orders.js\<close>\<close>

record gw_request =
  gwr_authorization :: "string option"
  gwr_id :: string                      \<comment> \<open>\<open>req.id\<close>\<close>
  gwr_param_id :: string
  gwr_query :: "(string \<times> string) list"   \<comment> \<open>\<open>req.query\<close>, as axios writes it\<close>
  gwr_body :: "json option"

record service_call =
  call_method :: string
  call_path :: string
  call_query :: "(string \<times> string) list"
  call_request_id :: string
  call_body :: "json option"

text \<open>The own properties that \<open>...value\<close> copies.\<close>

definition spread :: "json option \<Rightarrow> (string \<times> json) list" where
  "spread v = (case v of
       Some (JObject kvs) \<Rightarrow> kvs
     | Some (JArray js) \<Rightarrow> zip (map show_nat [0..<length js]) js
     | Some (JString s) \<Rightarrow> zip (map show_nat [0..<length s]) (map (\<lambda>c. JString [c]) s)
     | _ \<Rightarrow> [])"

text \<open>Setting a property keeps the place it has; one that is \<open>undefined\<close> is not written.\<close>

definition set_property :: "string \<Rightarrow> json option \<Rightarrow> (string \<times> json) list \<Rightarrow> (string \<times> json) list" where
  "set_property k v kvs = (case v of None \<Rightarrow> filter (\<lambda>(k', j). k' \<noteq> k) kvs | Some j \<Rightarrow> AList.update k j kvs)"

definition order_payload :: "json option \<Rightarrow> json \<Rightarrow> json" where
  "order_payload request_body user = JObject (set_property ''userId'' (subject user) (spread request_body))"

definition post_order_call :: "gw_request \<Rightarrow> json \<Rightarrow> service_call" where
  "post_order_call req user = \<lparr>call_method = ''POST'', call_path = ''/api/v1/orders'', call_query = [],
     call_request_id = gwr_id req, call_body = Some (order_payload (gwr_body req) user)\<rparr>"

definition get_order_call :: "gw_request \<Rightarrow> json \<Rightarrow> service_call" where
  "get_order_call req user = \<lparr>call_method = ''GET'', call_path = ''/api/v1/orders/'' @ gwr_param_id req, call_query = [],
     call_request_id = gwr_id req, call_body = None\<rparr>"

definition list_orders_call :: "js_packages \<Rightarrow> gw_request \<Rightarrow> json \<Rightarrow> service_call" where
  "list_orders_call js req user = \<lparr>call_method = ''GET'', call_path = ''/api/v1/orders'',
     call_query = (case subject user of None \<Rightarrow> [] | Some v \<Rightarrow> js_params js v),
     call_request_id = gwr_id req, call_body = None\<rparr>"

text \<open>A route behind \<open>authenticate\<close>: the call it makes for the user of the token, and the reply.\<close>

definition authenticated_route ::
  "gw_config \<Rightarrow> js_packages \<Rightarrow> (gw_request \<Rightarrow> json \<Rightarrow> service_call) \<Rightarrow> (service_call \<Rightarrow> 's \<Rightarrow> hop \<times> 's) \<Rightarrow> gw_request \<Rightarrow> 's
    \<Rightarrow> (int \<times> json) \<times> 's" where
  "authenticated_route cfg js make_call send req s =
     (case authenticate cfg js (gwr_authorization req) of
        Denied status data \<Rightarrow> ((status, data), s)
      | Allowed user \<Rightarrow> (case service_client cfg (send (make_call req user)) 0 s of
            (result, waits, s') \<Rightarrow> (settled_reply result, s')))"

text \<open>\<open>routes/users.js\<close> and \<open>routes/products.js\<close>: login, registration and the catalog need no token and pass no request id on.\<close>

definition public_route ::
  "gw_config \<Rightarrow> (gw_request \<Rightarrow> service_call) \<Rightarrow> (service_call \<Rightarrow> 's \<Rightarrow> hop \<times> 's) \<Rightarrow> gw_request \<Rightarrow> 's \<Rightarrow> (int \<times> json) \<times> 's" where
  "public_route cfg make_call send req s =
     (case service_client cfg (send (make_call req)) 0 s of (result, waits, s') \<Rightarrow> (settled_reply result, s'))"

definition plain_call :: "string \<Rightarrow> string \<Rightarrow> service_call" where
  "plain_call meth path = \<lparr>call_method = meth, call_path = path, call_query = [], call_request_id = [], call_body = None\<rparr>"

definition login_call :: "gw_request \<Rightarrow> service_call" where
  "login_call req = (plain_call ''POST'' ''/api/v1/auth/login'')\<lparr>call_body := gwr_body req\<rparr>"

definition register_call :: "gw_request \<Rightarrow> service_call" where
  "register_call req = (plain_call ''POST'' ''/api/v1/auth/register'')\<lparr>call_body := gwr_body req\<rparr>"

text \<open>A value in a template string.\<close>

definition template_text :: "js_packages \<Rightarrow> json option \<Rightarrow> string" where
  "template_text js v = (case v of None \<Rightarrow> ''undefined'' | Some (JString s) \<Rightarrow> s | Some j \<Rightarrow> js_text js j)"

definition me_call :: "js_packages \<Rightarrow> gw_request \<Rightarrow> json \<Rightarrow> service_call" where
  "me_call js req user = (plain_call ''GET'' (''/api/v1/users/'' @ template_text js (subject user)))\<lparr>call_request_id := gwr_id req\<rparr>"

definition user_call :: "gw_request \<Rightarrow> json \<Rightarrow> service_call" where
  "user_call req user = (plain_call ''GET'' (''/api/v1/users/'' @ gwr_param_id req))\<lparr>call_request_id := gwr_id req\<rparr>"

definition products_call :: "gw_request \<Rightarrow> service_call" where
  "products_call req = (plain_call ''GET'' ''/api/v1/products'')\<lparr>call_query := gwr_query req\<rparr>"

definition product_call :: "gw_request \<Rightarrow> service_call" where
  "product_call req = plain_call ''GET'' (''/api/v1/products/'' @ gwr_param_id req)"

definition auth_login where "auth_login cfg = public_route cfg login_call"
definition auth_register where "auth_register cfg = public_route cfg register_call"
definition users_me where "users_me cfg js = authenticated_route cfg js (me_call js)"
definition users_get where "users_get cfg js = authenticated_route cfg js user_call"
definition products_list where "products_list cfg = public_route cfg products_call"
definition products_get where "products_get cfg = public_route cfg product_call"

text \<open>\<open>routes/health.js\<close>: \<open>/ready\<close> asks the services side by side, each with the client and its retries, and counts every answer below
  500 as up.\<close>

definition health_call :: "gw_config \<Rightarrow> string \<Rightarrow> service_call" where
  "health_call cfg name = plain_call ''GET'' (case map_of (cfg_healthPaths cfg) name of
     None \<Rightarrow> ''/health'' | Some path \<Rightarrow> or_default (Some path) ''/health'')"

definition gw_ready :: "gw_config \<Rightarrow> (string \<Rightarrow> service_call \<Rightarrow> 's \<Rightarrow> hop \<times> 's) \<Rightarrow> (string \<Rightarrow> 's) \<Rightarrow> (int \<times> json) \<times> (string \<Rightarrow> 's)" where
  "gw_ready cfg send states =
     (let ends = map (\<lambda>(name, url). (name, service_client cfg (send name (health_call cfg name)) 0 (states name))) (cfg_services cfg);
          checks = map (\<lambda>(name, result, waits, s'). (name, case result of Resolved status data \<Rightarrow> True | _ \<Rightarrow> False)) ends;
          up = list_all snd checks;
          text = (\<lambda>b yes no. JString (if b then yes else no))
      in ((if up then 200 else 503,
           JObject [(''status'', text up ''UP'' ''DEGRADED''),
             (''dependencies'', JObject (map (\<lambda>(name, b). (name, text b ''UP'' ''DOWN'')) checks))]),
          \<lambda>name. case map_of ends name of None \<Rightarrow> states name | Some (result, waits, s') \<Rightarrow> s'))"

definition orders_post where "orders_post cfg js = authenticated_route cfg js post_order_call"
definition orders_get where "orders_get cfg js = authenticated_route cfg js get_order_call"
definition orders_list where "orders_list cfg js = authenticated_route cfg js (list_orders_call js)"

text \<open>The id of a request, and the reply to a path without a route.\<close>

definition genReqId :: "string option \<Rightarrow> string \<Rightarrow> string" where
  "genReqId existing fresh = or_default existing fresh"

definition notFoundHandler :: "string \<Rightarrow> string \<Rightarrow> int \<times> json" where
  "notFoundHandler meth path = (404, gw_error ''not_found'' (''Route '' @ meth @ '' '' @ path @ '' not found''))"

subsection \<open>The retries\<close>

definition max_exchanges :: "gw_config \<Rightarrow> nat" where
  "max_exchanges cfg = (case cfg_retryAttempts cfg of None \<Rightarrow> 1 | Some m \<Rightarrow> Suc (nat m))"

fun repeated :: "nat \<Rightarrow> ('s \<Rightarrow> hop \<times> 's) \<Rightarrow> 's \<Rightarrow> 's" where
  "repeated 0 send s = s"
| "repeated (Suc n) send s = repeated n send (snd (send s))"

lemma service_client_exchanges:
  assumes "service_client cfg send tried s = (result, waits, s')"
  shows "\<exists>n. s' = repeated (Suc n) send s \<and> length waits = n \<and> n \<le> max_exchanges cfg - Suc tried
    \<and> result = validated (fst (send (repeated n send s)))
    \<and> (\<forall>i<n. js_retryable (validated (fst (send (repeated i send s)))))
    \<and> (js_retryable result \<longrightarrow> n = max_exchanges cfg - Suc tried)
    \<and> waits = map (\<lambda>i. map_option (\<lambda>ms. ms * 2 ^ (tried + i)) (cfg_retryDelayMs cfg)) [0..<n]"
  using assms
proof (induction cfg send tried s arbitrary: result waits s' rule: service_client.induct)
  case (1 cfg send tried s)
  obtain h s1 where sent: "send s = (h, s1)" by fastforce
  show ?case
  proof (cases "js_retryable (validated h) \<and> below tried (cfg_retryAttempts cfg)")
    case True
    obtain result1 waits1 s2 where rest: "service_client cfg send (Suc tried) s1 = (result1, waits1, s2)" by (metis surj_pair)
    from 1(1) [OF sent [symmetric] True rest] obtain n where n: "s2 = repeated (Suc n) send s1" "length waits1 = n"
      "n \<le> max_exchanges cfg - Suc (Suc tried)" "result1 = validated (fst (send (repeated n send s1)))"
      "\<forall>i<n. js_retryable (validated (fst (send (repeated i send s1))))" "js_retryable result1 \<longrightarrow> n = max_exchanges cfg - Suc (Suc tried)"
      "waits1 = map (\<lambda>i. map_option (\<lambda>ms. ms * 2 ^ (Suc tried + i)) (cfg_retryDelayMs cfg)) [0..<n]" by blast
    have now: "result = result1" "waits = map_option (\<lambda>ms. ms * 2 ^ tried) (cfg_retryDelayMs cfg) # waits1" "s' = s2"
      using 1(2) True rest by (simp_all add: service_client.simps [of cfg send tried s] sent)
    have more: "Suc tried < max_exchanges cfg" using True by (auto simp: below_def max_exchanges_def split: option.splits)
    have retried: "\<forall>i<Suc n. js_retryable (validated (fst (send (repeated i send s))))"
      using n(5) True sent by (auto simp: less_Suc_eq_0_disj)
    have "[0..<Suc n] = 0 # map Suc [0..<n]" by (simp add: map_Suc_upt upt_conv_Cons del: upt_Suc)
    then have "waits = map (\<lambda>i. map_option (\<lambda>ms. ms * 2 ^ (tried + i)) (cfg_retryDelayMs cfg)) [0..<Suc n]"
      by (simp add: now(2) n(7) o_def del: upt_Suc)
    moreover have "s' = repeated (Suc (Suc n)) send s" "length waits = Suc n" "Suc n \<le> max_exchanges cfg - Suc tried"
      "result = validated (fst (send (repeated (Suc n) send s)))"
      using n(1-4) now more by (simp_all add: sent)
    moreover have "js_retryable result \<longrightarrow> Suc n = max_exchanges cfg - Suc tried" using n(6) now(1) more by auto
    ultimately show ?thesis using retried by blast
  next
    case False
    with 1(2) have now: "result = validated h" "waits = []" "s' = s1"
      by (simp_all add: service_client.simps [of cfg send tried s] sent split: if_splits)
    with False sent show ?thesis
      by (intro exI [of _ 0]) (auto simp: below_def max_exchanges_def split: option.splits)
  qed
qed


text \<open>The gateway is ready when every service gave an answer below 500, whatever it says, to one of the attempts.\<close>

lemma service_client_Resolved:
  assumes "fst (service_client cfg send tried s) = Resolved status data"
  shows "status < 500"
proof -
  obtain waits s' where "service_client cfg send tried s = (Resolved status data, waits, s')"
    using assms by (metis prod.collapse)
  from service_client_exchanges [OF this] show ?thesis by (auto simp: validated_def split: hop.splits if_splits)
qed

lemma gw_ready_200:
  "fst (fst (gw_ready cfg send states)) = 200 \<longleftrightarrow> (\<forall>(name, url)\<in>set (cfg_services cfg).
     \<exists>status data. fst (service_client cfg (send name (health_call cfg name)) 0 (states name)) = Resolved status data \<and> status < 500)"
proof -
  have ends: "(case r of Resolved status data \<Rightarrow> True | _ \<Rightarrow> False)
      \<longleftrightarrow> (\<exists>status data. r = Resolved status data \<and> status < 500)" if "\<And>status data. r = Resolved status data \<Longrightarrow> status < 500" for r
    using that by (cases r) auto
  have "(case fst (service_client cfg (send name (health_call cfg name)) 0 (states name)) of
        Resolved status data \<Rightarrow> True | _ \<Rightarrow> False)
      \<longleftrightarrow> (\<exists>status data. fst (service_client cfg (send name (health_call cfg name)) 0 (states name)) = Resolved status data \<and> status < 500)"
    for name by (rule ends) (rule service_client_Resolved)
  then show ?thesis by (auto simp: gw_ready_def Let_def list_all_iff case_prod_unfold)
qed

text \<open>
  What the gateway relies on of the service behind it is what one exchange does to it, counted. The contract then holds
  for a call, whatever its outcome and however often it was sent.
\<close>

locale upstream =
  fixes send :: "'s \<Rightarrow> hop \<times> 's"
    and effect :: "nat \<Rightarrow> 's \<Rightarrow> 's \<Rightarrow> bool"
  assumes none: "effect 0 s s"
    and one: "send s = (h, s') \<Longrightarrow> effect 1 s s'"
    and more: "effect m s s1 \<Longrightarrow> effect n s1 s2 \<Longrightarrow> effect (m + n) s s2"
begin

lemma repeated_effect: "effect n s (repeated n send s)"
proof (induction n arbitrary: s)
  case 0
  then show ?case by (simp add: none)
next
  case (Suc n)
  have "effect 1 s (snd (send s))" by (rule one [of s "fst (send s)"]) simp
  with more [OF this Suc] show ?case by simp
qed

lemma call_effect:
  assumes "service_client cfg send 0 s = (result, waits, s')"
  obtains k where "effect (Suc k) s s'" and "k \<le> max_exchanges cfg - Suc 0" and "length waits = k"
proof -
  from service_client_exchanges [OF assms] obtain k where "s' = repeated (Suc k) send s" "length waits = k"
    "k \<le> max_exchanges cfg - Suc 0" by blast
  with that [of k] repeated_effect [of "Suc k" s] show thesis by simp
qed

end

end
