(* ===== verification/Gateway_Orders.thy ===== *)
theory Gateway_Orders
  imports Order_Server Order_Binding Api_Gateway
begin

section \<open>Orders through the gateway\<close>

text \<open>
  The gateway and the order service together: a call of the gateway arrives at the route table of \<open>main.go\<close>, runs through the
  middleware, and its response goes back, unless the connection is refused or breaks before the response is read. A
  path is taken literally: the escaping of URLs is not modelled.
\<close>

datatype link = Link_up | Link_refused string | Link_reply_lost string

definition gin_request :: "service_call \<Rightarrow> string \<Rightarrow> gin_context" where
  "gin_request call param = \<lparr>ctx_method = call_method call, ctx_path = call_path call, ctx_header_request_id = call_request_id call,
     ctx_param_id = param, ctx_query_userId = (case map_of (call_query call) ''userId'' of None \<Rightarrow> [] | Some v \<Rightarrow> v),
     ctx_body = (case call_body call of None \<Rightarrow> BadBody (ForeignError ''EOF'' None) | Some j \<Rightarrow> JsonBody j),
     ctx_keys = [], ctx_status = 200, ctx_headers = [], ctx_json = None\<rparr>"

definition orders_path :: string where "orders_path = ''/api/v1/orders''"

definition order_endpoint :: "service_call \<Rightarrow> (endpoint \<times> string) option" where
  "order_endpoint call =
     (let path = call_path call; param = drop (length orders_path + 1) path
      in if path = orders_path then
           (if call_method call = ''POST'' then Some (POST_orders, [])
            else if call_method call = ''GET'' then Some (GET_orders, []) else None)
         else if call_method call = ''GET'' \<and> path = orders_path @ ''/'' @ param \<and> param \<noteq> [] \<and> CHR ''/'' \<notin> set param
         then Some (GET_orders_id, param) else None)"

definition response_data :: "gin_context \<Rightarrow> json" where
  "response_data c = (case ctx_json c of None \<Rightarrow> JString [] | Some j \<Rightarrow> j)"

text \<open>The state of an exchange: how many there have been, and the world of the order service.\<close>

definition order_exchange ::
  "env \<Rightarrow> downstream \<Rightarrow> recovery \<Rightarrow> (nat \<Rightarrow> link) \<Rightarrow> service_call \<Rightarrow> nat \<times> world \<Rightarrow> hop \<times> (nat \<times> world)" where
  "order_exchange E d recovery link call = (\<lambda>(n, w).
     case link n of
       Link_refused code \<Rightarrow> (Hop_failed code, (Suc n, w))
     | fate \<Rightarrow> (case order_endpoint call of
           None \<Rightarrow> (case fate of Link_reply_lost code \<Rightarrow> Hop_failed code | _ \<Rightarrow> Hop_response 404 (JString ''404 page not found''),
             (Suc n, w))
         | Some (ep, param) \<Rightarrow> (case chain E d recovery ep (w, gin_request call param) of (r, (w', c')) \<Rightarrow>
             (case fate of Link_reply_lost code \<Rightarrow> Hop_failed code | _ \<Rightarrow> Hop_response (sint (ctx_status c')) (response_data c'),
              (Suc n, w')))))"

subsection \<open>One request to place an order, with its body\<close>

lemma logged_quiet:
  "quiet w (w\<lparr>w_nows := k, w_trace := w_trace w @ [EvLog lvl msg attrs]\<rparr>)" "quiet w (w\<lparr>w_nows := k\<rparr>)"
  "quiet w (w\<lparr>w_uuids := k\<rparr>)" "quiet w (w\<lparr>w_uuids := k, w_nows := j\<rparr>)"
  by (simp_all add: observed_state.untouched_def ok_world_def)

lemma chain_run:
  assumes "recovers recovery" and "chain E d recovery ep (w, c) = (r, (w', c'))"
  obtains w0 w1 r1 c1 where "quiet w w0" and "handler_of E d ep (w0, with_id (identified E w c) c) = (r1, (w1, c1))"
    and "quiet w1 w'" and "r1 = Ret () \<Longrightarrow> c' = c1" and "r1 \<noteq> Ret () \<Longrightarrow> ctx_status c' = 500"
proof -
  define wa where "wa = (if ctx_header_request_id c = [] then w\<lparr>w_uuids := Suc (w_uuids w)\<rparr> else w)"
  let ?c = "with_id (identified E w c) c" and ?w0 = "wa\<lparr>w_nows := Suc (w_nows wa)\<rparr>"
  let ?m = "RequestID E (StructuredLogging E (handler_of E d ep))"
  have start: "quiet w ?w0" using logged_quiet(2-4) by (simp add: wa_def)
  have id: "?m (w, c) = StructuredLogging E (handler_of E d ep) (wa, ?c)" by (simp add: RequestID_eq wa_def)
  obtain r1 w1 c1 where run: "handler_of E d ep (?w0, ?c) = (r1, (w1, c1))" by (metis surj_pair)
  show thesis
  proof (cases r1)
    case (Ret x)
    then have run': "handler_of E d ep (?w0, ?c) = (Ret (), (w1, c1))" using run by (cases x) simp
    let ?w2 = "w1\<lparr>w_nows := Suc (w_nows w1), w_trace := w_trace w1
      @ [EvLog LevelInfo ''request_completed'' (request_attrs c1 (time_Sub (e_now E (w_nows w1)) (e_now E (w_nows wa))))]\<rparr>"
    have "?m (w, c) = (Ret (), (?w2, c1))"
      using StructuredLogging_Ret [where m = "handler_of E d ep", OF run'] by (simp add: id)
    then have "chain E d recovery ep (w, c) = (Ret (), (?w2, c1))"
      unfolding chain_def by (rule recovers_Ret [where m = ?m, OF assms(1)])
    with assms(2) have "w' = ?w2" "c' = c1" by auto
    with that [OF start run'] logged_quiet(1) show thesis by simp
  next
    case (Panic p)
    then have run': "handler_of E d ep (?w0, ?c) = (Panic p, (w1, c1))" using run by simp
    have "?m (w, c) = (Panic p, (w1, c1))"
      using StructuredLogging_Panic [where m = "handler_of E d ep", OF run'] by (simp add: id)
    from recovers_Panic [where m = ?m and s = "(w, c)", OF assms(1) this] assms(2) have "w' = w1" "ctx_status c' = 500"
      by (auto simp: chain_def)
    with that [OF start run'] show thesis by (simp add: observed_state.untouched_def)
  qed
qed

lemma with_id_simps [simp]:
  "ctx_body (with_id i c) = ctx_body c" "ctx_param_id (with_id i c) = ctx_param_id c" "ctx_query_userId (with_id i c) = ctx_query_userId c"
  by (simp_all add: with_id_def)

lemma writeServiceError_world: "writeServiceError E e od (w, c) = (r, (w', c')) \<Longrightarrow> w' = w"
  by (auto simp: writeServiceError_def Let_def handler_simps split: if_splits)

lemma handled_order_effect:
  assumes "ok_world w" and "handle_CreateOrder E (order_app E d) (w, c) = (r, (w', c'))"
  obtains (Nothing) "ok_world w'" and "stored w' = stored w"
    | (Placed) req od where "ok_world w'" and "e_bind E (ctx_body c) = Inr req" and "order_for (order_app E d) req od"
      and "placed (e_timestamptz E) od (stored w) (stored w')"
proof -
  have effect: thesis if "e_bind E (ctx_body c) = Inr req" and "CreateOrder (order_app E d) req w = (r1, w')" for req r1
    using assms(1) that(2) by (cases rule: app.CreateOrder_effect) (use that(1) Nothing Placed in blast)+
  from assms(2) show thesis
    by (cases rule: handle_CreateOrder_E) (use assms(1) Nothing in simp, (erule (1) effect)+)
qed

text \<open>What one request through the middleware does: nothing to the orders, or it adds one, whose owner its body names.\<close>

definition adds_for :: "env \<Rightarrow> string \<Rightarrow> nat \<Rightarrow> world \<Rightarrow> world \<Rightarrow> bool" where
  "adds_for E owner n w w' \<longleftrightarrow> (ok_world w \<longrightarrow> ok_world w' \<and> stored w \<subseteq>\<^sub>m stored w'
     \<and> finite (dom (stored w') - dom (stored w)) \<and> card (dom (stored w') - dom (stored w)) \<le> n
     \<and> (\<forall>i row its. stored w' i = Some (row, its) \<longrightarrow> stored w i = None \<longrightarrow> e_uuid_parse E owner = Some (row_user_id row)))"

lemma adds_for_quiet: "quiet w w' \<Longrightarrow> adds_for E owner n w w'"
  by (simp add: adds_for_def observed_state.untouched_def)

lemma adds_for_trans:
  assumes "adds_for E owner m w1 w2" and "adds_for E owner n w2 w3"
  shows "adds_for E owner (m + n) w1 w3"
  unfolding adds_for_def
proof (intro impI)
  assume "ok_world w1"
  with assms have le: "stored w1 \<subseteq>\<^sub>m stored w2" "stored w2 \<subseteq>\<^sub>m stored w3" and ok: "ok_world w3"
    and fin: "finite (dom (stored w2) - dom (stored w1))" "finite (dom (stored w3) - dom (stored w2))"
    and card: "card (dom (stored w2) - dom (stored w1)) \<le> m" "card (dom (stored w3) - dom (stored w2)) \<le> n"
    and own: "\<forall>i row its. stored w2 i = Some (row, its) \<longrightarrow> stored w1 i = None \<longrightarrow> e_uuid_parse E owner = Some (row_user_id row)"
      "\<forall>i row its. stored w3 i = Some (row, its) \<longrightarrow> stored w2 i = None \<longrightarrow> e_uuid_parse E owner = Some (row_user_id row)"
    by (simp_all add: adds_for_def)
  have new: "dom (stored w3) - dom (stored w1) \<subseteq> (dom (stored w2) - dom (stored w1)) \<union> (dom (stored w3) - dom (stored w2))" by blast
  have "card (dom (stored w3) - dom (stored w1)) \<le> m + n"
    using card_mono [OF finite_UnI [OF fin] new] card_Un_le [of "dom (stored w2) - dom (stored w1)" "dom (stored w3) - dom (stored w2)"] card
    by linarith
  moreover have "finite (dom (stored w3) - dom (stored w1))" using fin new by (meson finite_UnI finite_subset)
  moreover have "e_uuid_parse E owner = Some (row_user_id row)" if "stored w3 i = Some (row, its)" "stored w1 i = None" for i row its
  proof (cases "stored w2 i")
    case None
    with own(2) that show ?thesis by blast
  next
    case (Some x)
    with le(2) that(1) have "stored w2 i = Some (row, its)" by (auto simp: map_le_def dom_def)
    with own(1) that(2) show ?thesis by blast
  qed
  ultimately show "ok_world w3 \<and> stored w1 \<subseteq>\<^sub>m stored w3 \<and> finite (dom (stored w3) - dom (stored w1))
     \<and> card (dom (stored w3) - dom (stored w1)) \<le> m + n
     \<and> (\<forall>i row its. stored w3 i = Some (row, its) \<longrightarrow> stored w1 i = None \<longrightarrow> e_uuid_parse E owner = Some (row_user_id row))"
    using ok map_le_trans [OF le] by blast
qed

lemma placed_adds:
  assumes "ok_world w'" and "order_for (order_app E d) req od" and "placed (e_timestamptz E) od (stored w) (stored w')"
  shows "adds_for E (req_UserID req) 1 w w'"
proof -
  from assms(3) obtain row its row' where new: "stored w (order_ID od) = None"
    and rows: "order_rows (e_timestamptz E) od = Some (row, its)" "settled_row row row'"
    and st: "stored w' = (stored w)(order_ID od \<mapsto> (row', mset its))" by (auto simp: placed_def)
  from rows have "row_user_id row' = order_UserID od"
    by (auto simp: order_rows_def encode_order_def settled_row_def set_status_def split: option.splits)
  moreover have "e_uuid_parse E (req_UserID req) = Some (order_UserID od)" using assms(2) by (simp add: order_for_def)
  moreover have "dom (stored w') - dom (stored w) = {order_ID od}" using new by (auto simp: st)
  ultimately show ?thesis using assms(1) new by (auto simp: adds_for_def st map_le_def)
qed

lemma order_request_adds:
  assumes "recovers recovery" and "binds_json E" and "chain E d recovery POST_orders (w, c) = (r, (w', c'))"
    and "ctx_body c = JsonBody (JObject kvs)"
  shows "adds_for E (named_user kvs []) 1 w w'"
  using assms(1,3)
proof (cases rule: chain_run)
  case (1 w0 w1 r1 c1)
  have "adds_for E (named_user kvs []) 1 w0 w1"
  proof (cases "ok_world w0")
    case True
    from True 1(2) [simplified] show ?thesis
    proof (cases rule: handled_order_effect)
      case Nothing
      with True show ?thesis by (simp add: adds_for_def)
    next
      case (Placed req od)
      from assms(2) obtain violated where "e_bind E (ctx_body c) = ShouldBindJSON violated (ctx_body c)" by (auto simp: binds_json_def)
      with Placed(2) assms(4) have "req_UserID req = named_user kvs []" using ShouldBindJSON_user [of violated kvs req] by simp
      with placed_adds [OF Placed(1,3,4)] show ?thesis by simp
    qed
  qed (simp add: adds_for_def)
  from adds_for_trans [OF adds_for_quiet [where n = 0, OF 1(1)] adds_for_trans [OF this adds_for_quiet [where n = 0, OF 1(3)]]]
  show ?thesis by simp
qed

subsection \<open>The orders of a call\<close>

lemma exchange_adds:
  assumes "recovers recovery" and "binds_json E" and "order_exchange E d recovery link (post_order_call req user) (n, w) = (h, (n', w'))"
  shows "n' = Suc n \<and> adds_for E (named_user (set_property ''userId'' (subject user) (spread (gwr_body req))) []) 1 w w'"
proof -
  have "order_endpoint (post_order_call req user) = Some (POST_orders, [])"
    by (simp add: order_endpoint_def post_order_call_def orders_path_def)
  moreover have "ctx_body (gin_request (post_order_call req user) []) = JsonBody (JObject
      (set_property ''userId'' (subject user) (spread (gwr_body req))))"
    by (simp add: gin_request_def post_order_call_def order_payload_def)
  moreover obtain r w1 c1 where run: "chain E d recovery POST_orders (w, gin_request (post_order_call req user) []) = (r, (w1, c1))"
    by (metis surj_pair)
  ultimately have "w' = w1 \<or> w' = w" and "n' = Suc n"
    and "adds_for E (named_user (set_property ''userId'' (subject user) (spread (gwr_body req))) []) 1 w w1"
    using assms(3) order_request_adds [OF assms(1,2) run]
    by (auto simp: order_exchange_def split: link.splits)
  then show ?thesis by (auto simp: adds_for_def)
qed

text \<open>The contract of the order service towards the gateway.\<close>

definition placing :: "env \<Rightarrow> recovery \<Rightarrow> string \<Rightarrow> nat \<Rightarrow> nat \<times> world \<Rightarrow> nat \<times> world \<Rightarrow> bool" where
  "placing E recovery owner k s s' \<longleftrightarrow> (recovers recovery \<and> binds_json E \<longrightarrow>
     fst s' = fst s + k \<and> adds_for E owner k (snd s) (snd s'))"

definition payload_user :: "gw_request \<Rightarrow> json \<Rightarrow> string" where
  "payload_user req user = named_user (set_property ''userId'' (subject user) (spread (gwr_body req))) []"

interpretation order_calls: upstream "order_exchange E d recovery link (post_order_call req user)"
  "placing E recovery (payload_user req user)" for E d recovery link req user
proof unfold_locales
  show "placing E recovery (payload_user req user) 0 s s" for s by (simp add: placing_def adds_for_def)
  show "placing E recovery (payload_user req user) 1 s s'"
    if "order_exchange E d recovery link (post_order_call req user) s = (h, s')" for s h s'
    using that exchange_adds [of recovery E d link req user "fst s" "snd s" h "fst s'" "snd s'"]
    by (simp add: placing_def payload_user_def)
  show "placing E recovery (payload_user req user) (m + n) s s2"
    if "placing E recovery (payload_user req user) m s s1" "placing E recovery (payload_user req user) n s1 s2" for m n s s1 s2
    using that adds_for_trans unfolding placing_def by fastforce
qed

text \<open>The properties of an object have distinct names. If none but \<open>userId\<close> itself reads \<open>userId\<close> in another case, the user named is
  the subject.\<close>

definition plain_user_name :: "(string \<times> json) list \<Rightarrow> bool" where
  "plain_user_name kvs \<longleftrightarrow> distinct (map fst kvs) \<and> (\<forall>(k, j)\<in>set kvs. fold_name k = ''USERID'' \<longrightarrow> k = ''userId'')"

lemma named_user_update:
  "plain_user_name kvs \<Longrightarrow> named_user (AList.update ''userId'' (JString s) kvs) u = s"
proof (induction kvs arbitrary: u)
  case (Cons kv kvs)
  obtain k j where kv: "kv = (k, j)" by fastforce
  show ?case
  proof (cases "k = ''userId''")
    case True
    with Cons.prems kv have "\<forall>(k, j)\<in>set kvs. fold_name k \<noteq> ''USERID''"
      unfolding plain_user_name_def kv True by (fastforce intro: rev_image_eqI)
    with kv True named_user_other show ?thesis by simp
  next
    case False
    with Cons kv show ?thesis by (auto simp: plain_user_name_def)
  qed
qed simp

lemma orders_placed:
  assumes "recovers recovery" and "binds_json E" and "ok_world w" and "plain_user_name (spread (gwr_body req))"
    and "orders_post cfg js (order_exchange E d recovery link) req (n, w) = (reply, (n', w'))"
    and "authenticate cfg js (gwr_authorization req) = Allowed user"
  shows "ok_world w' \<and> n' \<le> n + max_exchanges cfg \<and> stored w \<subseteq>\<^sub>m stored w'
    \<and> card (dom (stored w') - dom (stored w)) \<le> n' - n
    \<and> (\<forall>i row its sub. stored w' i = Some (row, its) \<longrightarrow> stored w i = None \<longrightarrow> subject user = Some (JString sub)
        \<longrightarrow> e_uuid_parse E sub = Some (row_user_id row))"
proof -
  let ?send = "order_exchange E d recovery link (post_order_call req user)"
  let ?user = "payload_user req user"
  obtain result waits where run: "service_client cfg ?send 0 (n, w) = (result, waits, (n', w'))"
    using assms(5,6) by (auto simp: orders_post_def authenticated_route_def split: prod.splits)
  from order_calls.call_effect [OF run] obtain k where "placing E recovery ?user (Suc k) (n, w) (n', w')"
    and k: "k \<le> max_exchanges cfg - Suc 0" by blast
  with assms(1,2) have n': "n' = n + Suc k" and adds: "adds_for E ?user (Suc k) w w'" by (simp_all add: placing_def)
  from adds assms(3) have kept: "ok_world w'" "stored w \<subseteq>\<^sub>m stored w'" "card (dom (stored w') - dom (stored w)) \<le> Suc k"
    and own: "\<forall>i row its. stored w' i = Some (row, its) \<longrightarrow> stored w i = None \<longrightarrow> e_uuid_parse E ?user = Some (row_user_id row)"
    by (simp_all add: adds_for_def)
  have "?user = sub" if "subject user = Some (JString sub)" for sub
    using named_user_update [OF assms(4)] that by (simp add: payload_user_def set_property_def)
  with own have "\<forall>i row its sub. stored w' i = Some (row, its) \<longrightarrow> stored w i = None \<longrightarrow> subject user = Some (JString sub)
      \<longrightarrow> e_uuid_parse E sub = Some (row_user_id row)" by metis
  moreover have "n' \<le> n + max_exchanges cfg" using n' k by (simp add: max_exchanges_def split: option.splits)
  ultimately show ?thesis using kept n' by simp
qed


subsection \<open>The shop with the binding written out\<close>

definition gin_env :: env where
  "gin_env = shop_env\<lparr>e_bind := ShouldBindJSON (\<lambda>req. ForeignError ''validation failed'' None)\<rparr>"

definition first_order :: "nat \<Rightarrow> order_t" where
  "first_order t = shop_order\<lparr>order_CreatedAt := int t, order_UpdatedAt := int t\<rparr>"

definition first_db :: "nat \<Rightarrow> database" where
  "first_db t = \<lparr>db_orders = [\<lparr>row_id = 1, row_user_id = 1, row_status = ''CONFIRMED'', row_total_cents = 3998, row_currency = ''USD'',
       row_created_at = int t, row_updated_at = int (Suc t)\<rparr>],
     db_items = [\<lparr>irow_id = 2, irow_order_id = 1, irow_product_id = 2, irow_sku = ''SKU-MOUSE'', irow_quantity = 2,
       irow_unit_price_cents = 1999\<rparr>]\<rparr>"

definition second_order :: "nat \<Rightarrow> order_t" where
  "second_order t = shop_order\<lparr>order_ID := 3, order_Items := [\<lparr>item_ID = 4, item_ProductID = 2, item_SKU = ''SKU-MOUSE'',
     item_Quantity = 2, item_UnitPriceCents = 1999\<rparr>], order_CreatedAt := int t, order_UpdatedAt := int t\<rparr>"

definition shop_charge :: "string \<Rightarrow> http_request" where
  "shop_charge orderID = charge_post (ds_payments shop_clients)
     \<lparr>charge_OrderID = orderID, charge_UserID = ''1'', charge_AmountCents = 3998, charge_Currency = ''USD''\<rparr>"

lemma small_ids [simp]: "show_nat (Suc 0) = ''1''" "show_nat 3 = ''3''" "show_nat 2 = ''2''"
  by code_simp+

lemma gin_first:
  assumes "w_db w = empty_db" and "w_uuids w = 0"
  shows "fst (CreateOrder (order_app gin_env shop_clients) shop_request w) = Ret (Some (first_order (w_nows w)), None)
    \<and> w_db (snd (CreateOrder (order_app gin_env shop_clients) shop_request w)) = first_db (w_nows w)
    \<and> w_uuids (snd (CreateOrder (order_app gin_env shop_clients) shop_request w)) = 2
    \<and> charges (snd (CreateOrder (order_app gin_env shop_clients) shop_request w)) = charges w @ [shop_charge ''1'']"
  using assms by (simp add: gin_env_def first_order_def first_db_def shop_charge_def concrete_app_simps del: decode_body.simps)

lemma gin_second:
  assumes "w_db w = first_db t" and "w_uuids w = 2"
  shows "fst (CreateOrder (order_app gin_env shop_clients) shop_request w) = Ret (Some (second_order (w_nows w)), None)
    \<and> map row_id (db_orders (w_db (snd (CreateOrder (order_app gin_env shop_clients) shop_request w)))) = [1, 3]
    \<and> map row_status (db_orders (w_db (snd (CreateOrder (order_app gin_env shop_clients) shop_request w)))) = [''CONFIRMED'', ''CONFIRMED'']
    \<and> charges (snd (CreateOrder (order_app gin_env shop_clients) shop_request w)) = charges w @ [shop_charge ''3'']"
  using assms by (simp add: gin_env_def second_order_def first_db_def shop_charge_def concrete_app_simps del: decode_body.simps)


lemma chain_created:
  assumes "recovers recovery" and "e_bind E (ctx_body c) = Inr req" and "ctx_header_request_id c \<noteq> []"
    and "CreateOrder (order_app E d) req (w\<lparr>w_nows := Suc (w_nows w)\<rparr>) = (Ret (Some od, None), w1)"
  obtains es c' where "chain E d recovery POST_orders (w, c) = (Ret (), (w1\<lparr>w_nows := Suc (w_nows w1), w_trace := w_trace w1 @ es\<rparr>, c'))"
    and "posts_of es = []" and "ctx_status c' = 201" and "ctx_json c' = Some (order_json E od)"
proof -
  let ?m = "RequestID E (StructuredLogging E (handler_of E d POST_orders))" and ?c = "with_id (identified E w c) c"
  let ?c1 = "?c\<lparr>ctx_status := 201, ctx_json := Some (order_json E od)\<rparr>"
  have "handler_of E d POST_orders (w\<lparr>w_nows := Suc (w_nows w)\<rparr>, ?c) = (Ret (), (w1, ?c1))"
    using assms(2,4) by (simp add: handle_CreateOrder_def io_bind_lift handler_simps order_json_ptr_def)
  from StructuredLogging_Ret [where m = "handler_of E d POST_orders", OF this]
  have "?m (w, c) = (Ret (), (w1\<lparr>w_nows := Suc (w_nows w1), w_trace := w_trace w1 @ [EvLog LevelInfo ''request_completed''
      (request_attrs ?c1 (time_Sub (e_now E (w_nows w1)) (e_now E (w_nows w))))]\<rparr>, ?c1))"
    using assms(3) by (simp add: RequestID_eq)
  from recovers_Ret [where m = ?m, OF assms(1) this] show thesis
    by (intro that [where c' = ?c1]) (auto simp: chain_def)
qed

subsection \<open>Requests of a client\<close>

text \<open>The gateway with its defaults and a secret; \<open>plain_js\<close> stands for the packages: a token is the text of its subject.\<close>

definition plain_config :: gw_config where
  "plain_config = gw_load (\<lambda>k. if k = ''JWT_SECRET'' then Some ''secret'' else None)"

definition plain_js :: js_packages where
  "plain_js = \<lparr>js_verify = \<lambda>token secret. if secret = ''secret'' then Inr (JObject [(''sub'', JString token)]) else Inl ''invalid signature'',
     js_params = \<lambda>v. case v of JString s \<Rightarrow> [(''userId'', s)] | _ \<Rightarrow> [], js_text = \<lambda>j. []\<rparr>"

definition plain_request :: "string \<Rightarrow> (string \<times> json) list \<Rightarrow> gw_request" where
  "plain_request token kvs = \<lparr>gwr_authorization = Some (''Bearer '' @ token), gwr_id = ''r1'', gwr_param_id = ''1'', gwr_query = [],
     gwr_body = Some (JObject kvs)\<rparr>"

definition items_json :: json where
  "items_json = JArray (map line_json (req_Items shop_request))"

lemma parseInt_2: "parseInt ''2'' = Some 2"
  by code_simp

lemma plain_config_simps [simp]:
  "cfg_jwtSecret plain_config = Some ''secret''" "cfg_retryAttempts plain_config = Some 2"
  by (simp_all add: plain_config_def gw_load_def or_default_def parseInt_2)

lemma plain_authenticated:
  "authenticate plain_config plain_js (gwr_authorization (plain_request ''1'' kvs)) = Allowed (JObject [(''sub'', JString ''1'')])"
  "authenticate plain_config plain_js (gwr_authorization (plain_request ''9'' kvs)) = Allowed (JObject [(''sub'', JString ''9'')])"
  by (simp_all add: authenticate_def plain_request_def plain_js_def or_default_def)

lemma items_bound: "bind_lines (map line_json (req_Items shop_request)) [] None = (req_Items shop_request, None)"
  by (rule bind_lines_json)

lemma shop_order_ok: "order_binding_ok shop_request"
  by (simp add: shop_request_def order_binding_ok_def item_binding_ok_def)

lemma ordered_lines:
  assumes "order_binding_ok \<lparr>req_UserID = u, req_Items = lines\<rparr>" and "subject user = Some (JString u)"
  shows "ShouldBindJSON violated (JsonBody (order_payload (Some (JObject [(''items'', JArray (map line_json lines))])) user))
    = Inr \<lparr>req_UserID = u, req_Items = lines\<rparr>"
  using assms bind_lines_json [of lines]
  by (cases lines) (auto simp: ShouldBindJSON_def decode_order_def order_payload_def spread_def set_property_def
      bound_request_def nothing_bound_def)

lemma ordered_items:
  "ShouldBindJSON violated (JsonBody (order_payload (Some (JObject [(''items'', items_json)])) (JObject [(''sub'', JString ''1'')])))
     = Inr shop_request"
  using ordered_lines [of "''1''" "req_Items shop_request" "JObject [(''sub'', JString ''1'')]"] shop_order_ok
  by (simp add: subject_def items_json_def shop_request_def)

lemma gin_bind: "e_bind gin_env b = ShouldBindJSON (\<lambda>req. ForeignError ''validation failed'' None) b"
  by (simp add: gin_env_def)

lemma exchange_created:
  assumes "recovers recovery" and "\<And>code. link n \<noteq> Link_refused code"
    and "e_bind E (ctx_body (gin_request (post_order_call req user) [])) = Inr r" and "gwr_id req \<noteq> []"
    and "CreateOrder (order_app E d) r (w\<lparr>w_nows := Suc (w_nows w)\<rparr>) = (Ret (Some od, None), w1)"
  obtains es where "order_exchange E d recovery link (post_order_call req user) (n, w)
      = (case link n of Link_reply_lost code \<Rightarrow> Hop_failed code | _ \<Rightarrow> Hop_response 201 (order_json E od),
         (Suc n, w1\<lparr>w_nows := Suc (w_nows w1), w_trace := w_trace w1 @ es\<rparr>))"
    and "posts_of es = []"
proof -
  have "order_endpoint (post_order_call req user) = Some (POST_orders, [])"
    by (simp add: order_endpoint_def post_order_call_def orders_path_def)
  moreover have "ctx_header_request_id (gin_request (post_order_call req user) []) \<noteq> []"
    using assms(4) by (simp add: gin_request_def post_order_call_def)
  from chain_created [OF assms(1,3) this assms(5)] obtain es c' where
    "chain E d recovery POST_orders (w, gin_request (post_order_call req user) [])
      = (Ret (), (w1\<lparr>w_nows := Suc (w_nows w1), w_trace := w_trace w1 @ es\<rparr>, c'))"
    "posts_of es = []" "ctx_status c' = 201" "ctx_json c' = Some (order_json E od)" by blast
  ultimately show thesis using assms(2)
    by (intro that [of es]) (simp_all add: order_exchange_def response_data_def split: link.split)
qed

definition lost_once :: "nat \<Rightarrow> link" where
  "lost_once n = (if n = 0 then Link_reply_lost ''ECONNABORTED'' else Link_up)"

text \<open>C10. One order becomes two: the gateway repeats a POST whose reply it did not get in time. In a run in which only one reply is late, the
  caller asks for one order and is told of one, while two orders are stored as confirmed and two charges are sent, under different
  idempotency keys.\<close>

theorem gateway_retry_duplicates_order:
  "\<exists>data w'. orders_post plain_config plain_js (order_exchange gin_env shop_clients catch_all lost_once)
      (plain_request ''1'' [(''items'', items_json)]) (0, start_world empty_db) = ((201, data), (2, w'))
    \<and> map row_id (db_orders (w_db w')) = [1, 3] \<and> map row_status (db_orders (w_db w')) = [OrderStatusConfirmed, OrderStatusConfirmed]
    \<and> map (\<lambda>rq. map_of (rq_headers rq) ''Idempotency-Key'') (charges w') = [Some ''1'', Some ''3'']"
proof -
  let ?req = "plain_request ''1'' [(''items'', items_json)]" and ?user = "JObject [(''sub'', JString ''1'')]"
  let ?send = "order_exchange gin_env shop_clients catch_all lost_once (post_order_call ?req ?user)"
  have bind: "e_bind gin_env (ctx_body (gin_request (post_order_call ?req ?user) [])) = Inr shop_request"
    using ordered_items by (simp add: gin_bind gin_request_def post_order_call_def plain_request_def)
  have id: "gwr_id ?req \<noteq> []" by (simp add: plain_request_def)
  let ?w = "(start_world empty_db)\<lparr>w_nows := 1\<rparr>"
  obtain od1 w1 where one: "CreateOrder (order_app gin_env shop_clients) shop_request ?w = (Ret (Some od1, None), w1)"
    "w_db w1 = first_db 1" "w_uuids w1 = 2" "charges w1 = [shop_charge ''1'']"
    using gin_first [of ?w] by (cases "CreateOrder (order_app gin_env shop_clients) shop_request ?w") (auto simp: start_world_def)
  obtain es1 where first: "?send (0, start_world empty_db)
      = (Hop_failed ''ECONNABORTED'', (1, w1\<lparr>w_nows := Suc (w_nows w1), w_trace := w_trace w1 @ es1\<rparr>))" "posts_of es1 = []"
    using exchange_created [where w = "start_world empty_db" and n = 0 and link = lost_once and d = shop_clients, OF catch_all_recovers _ bind id] one(1)
    by (auto simp: lost_once_def start_world_def)
  define w2 where "w2 = w1\<lparr>w_nows := Suc (w_nows w1), w_trace := w_trace w1 @ es1\<rparr>"
  have w2: "w_db w2 = first_db 1" "w_uuids w2 = 2" "charges w2 = [shop_charge ''1'']" using one first(2) by (simp_all add: w2_def)
  let ?w3 = "w2\<lparr>w_nows := Suc (w_nows w2)\<rparr>"
  obtain od2 w4 where two: "CreateOrder (order_app gin_env shop_clients) shop_request ?w3 = (Ret (Some od2, None), w4)"
    "map row_id (db_orders (w_db w4)) = [1, 3]" "map row_status (db_orders (w_db w4)) = [''CONFIRMED'', ''CONFIRMED'']"
    "charges w4 = [shop_charge ''1'', shop_charge ''3'']"
    using gin_second [of ?w3 1] w2 by (cases "CreateOrder (order_app gin_env shop_clients) shop_request ?w3") auto
  obtain es2 where second: "?send (1, w2) = (Hop_response 201 (order_json gin_env od2),
      (2, w4\<lparr>w_nows := Suc (w_nows w4), w_trace := w_trace w4 @ es2\<rparr>))" "posts_of es2 = []"
    using exchange_created [where w = w2 and n = 1 and link = lost_once and d = shop_clients, OF catch_all_recovers _ bind id two(1)]
    by (auto simp: lost_once_def numeral_2_eq_2)
  have "service_client plain_config ?send 0 (0, start_world empty_db) = (Resolved 201 (order_json gin_env od2),
      [map_option (\<lambda>ms. ms * 2 ^ 0) (cfg_retryDelayMs plain_config)], (2, w4\<lparr>w_nows := Suc (w_nows w4), w_trace := w_trace w4 @ es2\<rparr>))"
    using first(1) second(1)
    by (simp add: service_client.simps [of _ _ 0] service_client.simps [of _ _ "Suc 0"] w2_def validated_def below_def)
  then show ?thesis using two second(2)
    by (simp add: orders_post_def authenticated_route_def plain_authenticated settled_reply_def status_defs shop_charge_def charge_post_def)
qed

text \<open>C11. An order for someone else: \<open>encoding/json\<close> takes \<open>USERID\<close> for \<open>userId\<close> and lets the later member win. So the order service binds
  the forged body of an attacker, who sends \<open>userId\<close> first and the victim's id under \<open>USERID\<close> last, to exactly the request that it
  binds the victim's own order to, although the gateway has put the attacker's subject in its place.\<close>

theorem forged_order_is_the_victims:
  assumes "subject attacker = Some (JString a)" and "subject victim = Some (JString v)"
  shows "ShouldBindJSON violated (JsonBody (order_payload
      (Some (JObject [(''userId'', x), (''items'', items), (''USERID'', JString v)])) attacker))
    = ShouldBindJSON violated (JsonBody (order_payload (Some (JObject [(''items'', items)])) victim))"
proof -
  have fold: "fold_name ''USERID'' = ''USERID''" by code_simp
  show ?thesis
    using assms by (cases items) (auto simp: ShouldBindJSON_def decode_order_def order_payload_def spread_def set_property_def fold
      bound_request_def nothing_bound_def mismatch_def split: prod.splits option.splits list.splits)
qed


subsection \<open>Reading an order\<close>

lemma GetOrder_answered:
  assumes "\<And>k. e_query E k = QueryOk" and "stored w i = Some (row, its)"
  obtains irows w' where "GetOrder (order_app E d) i w = (Ret (Inr (order_of_row row (map item_of_row irows))), w')"
    and "mset irows = its" and "stored w' = stored w"
proof -
  have "select_order i (w_db w) = Some row" and its: "its = mset (select_items (e_rank E (Suc (w_queries w))) i (w_db w))"
    using assms(2) by (auto simp: stored_of_def mset_select_items)
  then show thesis
    by (intro that [of "select_items (e_rank E (Suc (w_queries w))) i (w_db w)" "w\<lparr>w_queries := Suc (Suc (w_queries w)),
        w_trace := w_trace w @ [EvDb (DbSelectOrder i), EvDb (DbSelectItems i)]\<rparr>"])
      (simp_all add: GetOrder_def GetByID_def getItems_def run_query_def bindIO_def assms(1))
qed

text \<open>C35. Who may read an order: everyone who has a valid token. Whatever the subject and the role of the token, the gateway answers the id
  of any stored order with the whole order, whoever it belongs to.\<close>

theorem gateway_reads_any_order:
  assumes "recovers recovery" and "\<And>k. e_query E k = QueryOk" and "ok_world w" and "link n = Link_up"
    and "authenticate cfg js (gwr_authorization req) = Allowed user"
    and "e_uuid_parse E (gwr_param_id req) = Some i" and "gwr_param_id req \<noteq> []" and "CHR ''/'' \<notin> set (gwr_param_id req)"
    and "stored w i = Some (row, its)"
  shows "\<exists>irows w'. orders_get cfg js (order_exchange E d recovery link) req (n, w)
      = ((200, order_json E (order_of_row row (map item_of_row irows))), (Suc n, w'))
    \<and> mset irows = its \<and> stored w' = stored w"
proof -
  let ?call = "get_order_call req user" and ?c = "gin_request (get_order_call req user) (gwr_param_id req)"
  have ep: "order_endpoint ?call = Some (GET_orders_id, gwr_param_id req)"
    using assms(7,8) by (simp add: order_endpoint_def get_order_call_def orders_path_def Let_def)
  obtain r w' c' where run: "chain E d recovery GET_orders_id (w, ?c) = (r, (w', c'))" by (metis surj_pair)
  from assms(1) run obtain irows where "ctx_status c' = 200" and its: "mset irows = its" and st: "stored w' = stored w"
    and "ctx_json c' = Some (order_json E (order_of_row row (map item_of_row irows)))"
  proof (cases rule: chain_run)
    case (1 w0 w1 r1 c1)
    have w0: "stored w0 = stored w" "ok_world w0" using 1(1) assms(3) by (simp_all add: observed_state.untouched_def)
    from GetOrder_answered [of E w0 i row its d] assms(2,9) w0(1) obtain irows w2 where
      get: "GetOrder (order_app E d) i w0 = (Ret (Inr (order_of_row row (map item_of_row irows))), w2)" "mset irows = its"
        "stored w2 = stored w0" by metis
    have "ctx_param_id ?c = gwr_param_id req" by (simp add: gin_request_def)
    with 1(2) get(1) assms(6) have r1: "r1 = Ret ()" "w1 = w2"
      "c1 = (with_id (identified E w ?c) ?c)\<lparr>ctx_status := 200, ctx_json := Some (order_json E (order_of_row row (map item_of_row irows)))\<rparr>"
      by (auto simp: handle_GetOrder_def io_bind_lift handler_simps)
    have "preserves quiet (GetOrder (order_app E d) i)" by (rule quiet_reads)
    from preservesD [OF this get(1)] have "ok_world w1" using w0(2) r1(2) by (simp add: observed_state.untouched_def)
    with 1(3) have "stored w' = stored w1" by (simp add: observed_state.untouched_def)
    with that [of irows] get(2,3) r1 w0(1) 1(4) show thesis by simp
  qed
  then have "order_exchange E d recovery link ?call (n, w)
      = (Hop_response 200 (order_json E (order_of_row row (map item_of_row irows))), (Suc n, w'))"
    using run by (simp add: order_exchange_def ep assms(4) response_data_def)
  then have "service_client cfg (order_exchange E d recovery link ?call) 0 (n, w)
      = (Resolved 200 (order_json E (order_of_row row (map item_of_row irows))), [], (Suc n, w'))"
    by (simp add: service_client.simps [of _ _ 0] validated_def)
  with its st show ?thesis by (auto simp: orders_get_def authenticated_route_def assms(5) settled_reply_def)
qed

text \<open>The attacker of the witness is the subject 9, whom the shop does not even know as a user.\<close>

definition forged_body :: "(string \<times> json) list" where
  "forged_body = [(''userId'', JString ''9''), (''items'', items_json), (''USERID'', JString ''1'')]"

lemma single_order:
  assumes "authenticate cfg js (gwr_authorization req) = Allowed user" and "gwr_id req \<noteq> []"
    and "e_bind gin_env (ctx_body (gin_request (post_order_call req user) [])) = Inr shop_request"
  shows "\<exists>data w'. orders_post cfg js (order_exchange gin_env shop_clients catch_all (\<lambda>n. Link_up)) req (0, start_world empty_db)
      = ((201, data), (1, w')) \<and> w_db w' = first_db 1"
proof -
  let ?w = "(start_world empty_db)\<lparr>w_nows := 1\<rparr>"
  obtain od1 w1 where one: "CreateOrder (order_app gin_env shop_clients) shop_request ?w = (Ret (Some od1, None), w1)"
    "w_db w1 = first_db 1"
    using gin_first [of ?w] by (cases "CreateOrder (order_app gin_env shop_clients) shop_request ?w") (auto simp: start_world_def)
  then have run: "CreateOrder (order_app gin_env shop_clients) shop_request ((start_world empty_db)\<lparr>w_nows := Suc (w_nows (start_world empty_db))\<rparr>)
      = (Ret (Some od1, None), w1)" by (simp add: start_world_def)
  obtain es where "order_exchange gin_env shop_clients catch_all (\<lambda>n. Link_up) (post_order_call req user) (0, start_world empty_db)
      = (Hop_response 201 (order_json gin_env od1), (1, w1\<lparr>w_nows := Suc (w_nows w1), w_trace := w_trace w1 @ es\<rparr>))"
    using exchange_created [where link = "\<lambda>n. Link_up" and n = 0 and d = shop_clients, OF catch_all_recovers _ assms(3,2) run] by auto
  with one(2) show ?thesis
    by (simp add: orders_post_def authenticated_route_def assms(1) service_client.simps [of _ _ 0] validated_def settled_reply_def)
qed

theorem forged_order_is_the_victims_witness:
  "\<exists>data w'. orders_post plain_config plain_js (order_exchange gin_env shop_clients catch_all (\<lambda>n. Link_up))
      (plain_request ''9'' forged_body) (0, start_world empty_db) = ((201, data), (1, w'))
    \<and> map row_user_id (db_orders (w_db w')) = [1]"
proof -
  let ?user = "JObject [(''sub'', JString ''9'')]"
  have "ShouldBindJSON violated (JsonBody (order_payload (Some (JObject forged_body)) ?user)) = Inr shop_request" for violated
    unfolding forged_body_def
    by (subst forged_order_is_the_victims [where victim = "JObject [(''sub'', JString ''1'')]" and a = "''9''"])
      (simp_all add: subject_def ordered_items)
  then have "e_bind gin_env (ctx_body (gin_request (post_order_call (plain_request ''9'' forged_body) ?user) [])) = Inr shop_request"
    by (simp add: gin_bind gin_request_def post_order_call_def plain_request_def)
  from single_order [OF plain_authenticated(2) _ this] show ?thesis by (fastforce simp: plain_request_def first_db_def)
qed

lemma gin_binds_json: "binds_json gin_env"
  by (auto simp: binds_json_def gin_bind)

lemma fold_items_user: "fold_name ''items'' \<noteq> ''USERID''"
  by simp


lemma shop_world_ok: "ok_world shop_world"
  using app.CreateOrder_effect [OF start_world_ok shop_run] by blast

lemma shop_world_stored: "stored shop_world 1 = Some (\<lparr>row_id = 1, row_user_id = 1, row_status = ''CONFIRMED'', row_total_cents = 3998,
    row_currency = ''USD'', row_created_at = 0, row_updated_at = 1\<rparr>, {#\<lparr>irow_id = 2, irow_order_id = 1, irow_product_id = 2,
    irow_sku = ''SKU-MOUSE'', irow_quantity = 2, irow_unit_price_cents = 1999\<rparr>#})"
  by (simp add: stored_of_def select_order_def shop_db)

text \<open>The subject 9 reads the order of the user 1.\<close>

theorem gateway_reads_any_order_witness:
  "\<exists>data w'. orders_get plain_config plain_js (order_exchange gin_env shop_clients catch_all (\<lambda>n. Link_up)) (plain_request ''9'' [])
      (0, shop_world) = ((200, data), (1, w'))"
proof -
  have "e_query gin_env k = QueryOk" for k by (simp add: gin_env_def shop_env_def calm_env_def)
  moreover have "e_uuid_parse gin_env (gwr_param_id (plain_request ''9'' [])) = Some 1"
    using shop_parse by (simp add: gin_env_def plain_request_def)
  ultimately show ?thesis
    using gateway_reads_any_order [OF catch_all_recovers _ shop_world_ok refl plain_authenticated(2) [of "[]"] _ _ _ shop_world_stored,
        where E = gin_env and n = 0 and d = shop_clients]
    by (auto simp: plain_request_def)
qed

end
