(* ===== verification/User_Service.thy ===== *)
theory User_Service
  imports Service_Clients
begin

section \<open>The user service (\<open>user-service\<close>)\<close>

text \<open>
  Accounts and tokens: the table \<open>users\<close>, \<open>UserService\<close>, the two controllers and \<open>GlobalExceptionHandler\<close>. A registration is
  two calls of the database, the check of the address and the \<open>INSERT\<close> at the commit, between which other requests run. The
  password encoder, the format of an address, the signing of tokens and the texts of ids and times belong to Spring, jjwt
  and Java; the model keeps every token that was issued, with its account.
\<close>

subsection \<open>Data (\<open>User.java\<close>, \<open>V1__init_users_table.sql\<close>)\<close>

datatype user_role = CUSTOMER | ADMIN | SUPPORT
datatype user_status = ACTIVE | SUSPENDED | DELETED

record user_row =
  usr_id :: uuid
  usr_email :: string
  usr_password_hash :: string
  usr_first_name :: string
  usr_last_name :: string
  usr_role :: user_role
  usr_status :: user_status
  usr_created_at :: time
  usr_updated_at :: time

fun role_name :: "user_role \<Rightarrow> string" where
  "role_name CUSTOMER = ''CUSTOMER''" | "role_name ADMIN = ''ADMIN''" | "role_name SUPPORT = ''SUPPORT''"

fun user_status_name :: "user_status \<Rightarrow> string" where
  "user_status_name ACTIVE = ''ACTIVE''" | "user_status_name SUSPENDED = ''SUSPENDED''" | "user_status_name DELETED = ''DELETED''"

definition user_row_fits :: "user_row \<Rightarrow> bool" where
  "user_row_fits u \<longleftrightarrow> utf8_length (usr_email u) \<le> 255 \<and> utf8_length (usr_password_hash u) \<le> 255
     \<and> utf8_length (usr_first_name u) \<le> 100 \<and> utf8_length (usr_last_name u) \<le> 100
     \<and> CHR 0x00 \<notin> set (usr_email u @ usr_password_hash u @ usr_first_name u @ usr_last_name u)"

record register_request =
  reg_email :: string
  reg_password :: string
  reg_first_name :: string
  reg_last_name :: string

record login_request =
  log_email :: string
  log_password :: string

text \<open>The table, and the tokens issued so far, each with the account it was issued to.\<close>

record user_store =
  us_users :: "user_row list"
  us_tokens :: "(string \<times> uuid) list"

subsection \<open>What is not the program's\<close>

record spring =
  sp_encode :: "nat \<Rightarrow> string \<Rightarrow> string"      \<comment> \<open>salt, password\<close>
  sp_matches :: "string \<Rightarrow> string \<Rightarrow> bool"
  sp_token :: "string \<Rightarrow> string \<Rightarrow> time \<Rightarrow> string"  \<comment> \<open>subject, role, now\<close>
  sp_blank :: "string \<Rightarrow> bool"
  sp_email :: "string \<Rightarrow> bool"
  sp_uuid_parse :: "string \<Rightarrow> uuid option"
  sp_uuid_text :: "uuid \<Rightarrow> string"
  sp_time_text :: "time \<Rightarrow> string"
  sp_now :: time                                   \<comment> \<open>the clock when an error is written\<close>

subsection \<open>Requests and replies\<close>

text \<open>The length of a Java string: a character outside the basic plane, four bytes in UTF-8, counts twice.\<close>

definition java_length :: "string \<Rightarrow> nat" where
  "java_length s = utf8_length s + length (filter (\<lambda>c. 240 \<le> (of_char c :: nat)) s)"

definition register_valid :: "spring \<Rightarrow> register_request \<Rightarrow> bool" where
  "register_valid sp r \<longleftrightarrow> \<not> sp_blank sp (reg_email r) \<and> sp_email sp (reg_email r) \<and> \<not> sp_blank sp (reg_password r)
     \<and> 8 \<le> java_length (reg_password r) \<and> \<not> sp_blank sp (reg_first_name r) \<and> \<not> sp_blank sp (reg_last_name r)"

definition login_valid :: "spring \<Rightarrow> login_request \<Rightarrow> bool" where
  "login_valid sp r \<longleftrightarrow> \<not> sp_blank sp (log_email r) \<and> sp_email sp (log_email r) \<and> \<not> sp_blank sp (log_password r)"

definition user_response :: "spring \<Rightarrow> user_row \<Rightarrow> json" where
  "user_response sp u = JObject
     [(''id'', JString (sp_uuid_text sp (usr_id u))), (''email'', JString (usr_email u)),
      (''firstName'', JString (usr_first_name u)), (''lastName'', JString (usr_last_name u)),
      (''role'', JString (role_name (usr_role u))), (''status'', JString (user_status_name (usr_status u))),
      (''createdAt'', JString (sp_time_text sp (usr_created_at u)))]"

definition auth_response :: "spring \<Rightarrow> string \<Rightarrow> int \<Rightarrow> user_row \<Rightarrow> json" where
  "auth_response sp token expiresInMs u = JObject
     [(''accessToken'', JString token), (''tokenType'', JString ''Bearer''), (''expiresInMs'', JNumber (show_int expiresInMs)),
      (''user'', user_response sp u)]"

text \<open>\<open>GlobalExceptionHandler\<close>.\<close>

datatype user_error = Email_exists string | Invalid_credentials | User_not_found uuid | Invalid_argument string | Other_exception

definition error_map :: "spring \<Rightarrow> int \<Rightarrow> string \<Rightarrow> string \<Rightarrow> int \<times> json" where
  "error_map sp status code message = (status, JObject [(''timestamp'', JString (sp_time_text sp (sp_now sp))),
     (''status'', JNumber (show_int status)), (''error'', JString code), (''message'', JString message)])"

fun handle_exception :: "spring \<Rightarrow> user_error \<Rightarrow> int \<times> json" where
  "handle_exception sp (Email_exists email) = error_map sp 409 ''email_already_exists''
     (''An account with email '' @ [CHR 0x27] @ email @ [CHR 0x27] @ '' already exists'')"
| "handle_exception sp Invalid_credentials = error_map sp 401 ''invalid_credentials'' ''Invalid email or password''"
| "handle_exception sp (User_not_found i) = error_map sp 404 ''user_not_found'' (''User '' @ sp_uuid_text sp i @ '' not found'')"
| "handle_exception sp (Invalid_argument text) = error_map sp 400 ''validation_error'' text"
| "handle_exception sp Other_exception = error_map sp 500 ''internal_error'' ''An unexpected error occurred''"

subsection \<open>\<open>UserService\<close>\<close>

definition new_user :: "spring \<Rightarrow> nat \<Rightarrow> uuid \<Rightarrow> time \<Rightarrow> time \<Rightarrow> register_request \<Rightarrow> user_row" where
  "new_user sp salt i t t' r = \<lparr>usr_id = i, usr_email = reg_email r, usr_password_hash = sp_encode sp salt (reg_password r),
     usr_first_name = reg_first_name r, usr_last_name = reg_last_name r, usr_role = CUSTOMER, usr_status = ACTIVE,
     usr_created_at = t, usr_updated_at = t'\<rparr>"

text \<open>The first half of \<open>register\<close>, up to the check, and the second, which ends with the commit.\<close>

definition register_check :: "spring \<Rightarrow> nat \<Rightarrow> uuid \<Rightarrow> time \<Rightarrow> time \<Rightarrow> register_request \<Rightarrow> user_store \<Rightarrow> user_error + user_row" where
  "register_check sp salt i t t' r st =
     (if reg_email r \<in> usr_email ` set (us_users st) then Inl (Email_exists (reg_email r)) else Inr (new_user sp salt i t t' r))"

definition generateToken :: "spring \<Rightarrow> time \<Rightarrow> user_row \<Rightarrow> string" where
  "generateToken sp now u = sp_token sp (sp_uuid_text sp (usr_id u)) (role_name (usr_role u)) now"

definition register_commit :: "spring \<Rightarrow> int \<Rightarrow> time \<Rightarrow> user_row \<Rightarrow> user_store \<Rightarrow> (user_error + json) \<times> user_store" where
  "register_commit sp expirationMs now u st =
     (if usr_id u \<in> usr_id ` set (us_users st) \<or> usr_email u \<in> usr_email ` set (us_users st) \<or> \<not> user_row_fits u
      then (Inl Other_exception, st)
      else (Inr (auth_response sp (generateToken sp now u) expirationMs u),
        \<lparr>us_users = us_users st @ [u], us_tokens = us_tokens st @ [(generateToken sp now u, usr_id u)]\<rparr>))"

definition login :: "spring \<Rightarrow> int \<Rightarrow> time \<Rightarrow> login_request \<Rightarrow> user_store \<Rightarrow> (user_error + json) \<times> user_store" where
  "login sp expirationMs now r st =
     (case find (\<lambda>u. usr_email u = log_email r) (us_users st) of
        None \<Rightarrow> (Inl Invalid_credentials, st)
      | Some u \<Rightarrow>
          if \<not> sp_matches sp (log_password r) (usr_password_hash u) then (Inl Invalid_credentials, st)
          else if usr_status u \<noteq> ACTIVE then (Inl Invalid_credentials, st)
          else (Inr (auth_response sp (generateToken sp now u) expirationMs u),
            st\<lparr>us_tokens := us_tokens st @ [(generateToken sp now u, usr_id u)]\<rparr>))"

definition getById :: "uuid \<Rightarrow> user_store \<Rightarrow> user_error + user_row" where
  "getById i st = (case find (\<lambda>u. usr_id u = i) (us_users st) of None \<Rightarrow> Inl (User_not_found i) | Some u \<Rightarrow> Inr u)"

subsection \<open>The controllers\<close>

definition getUser :: "spring \<Rightarrow> string \<Rightarrow> user_store \<Rightarrow> int \<times> json" where
  "getUser sp i st = (case sp_uuid_parse sp i of
       None \<Rightarrow> handle_exception sp Other_exception
     | Some u \<Rightarrow> (case getById u st of Inl e \<Rightarrow> handle_exception sp e | Inr row \<Rightarrow> (200, user_response sp row)))"

definition post_login :: "spring \<Rightarrow> int \<Rightarrow> time \<Rightarrow> (login_request \<Rightarrow> string) \<Rightarrow> login_request \<Rightarrow> user_store \<Rightarrow> (int \<times> json) \<times> user_store" where
  "post_login sp expirationMs now violation r st =
     (if \<not> login_valid sp r then (handle_exception sp (Invalid_argument (violation r)), st)
      else case login sp expirationMs now r st of
          (Inl e, st') \<Rightarrow> (handle_exception sp e, st') | (Inr data, st') \<Rightarrow> ((200, data), st'))"

subsection \<open>The accounts over time\<close>

text \<open>
  The states of the service, with the registrations that have passed the check. No request changes the status or the role of
  an account; an operator may, in the database.
\<close>

definition set_account :: "uuid \<Rightarrow> user_status \<Rightarrow> user_role \<Rightarrow> user_row \<Rightarrow> user_row" where
  "set_account i stat r u = (if usr_id u = i then u\<lparr>usr_status := stat, usr_role := r\<rparr> else u)"

inductive accounts :: "spring \<Rightarrow> user_row list \<Rightarrow> user_store \<Rightarrow> user_row list \<Rightarrow> bool" for sp init where
  start: "accounts sp init \<lparr>us_users = init, us_tokens = []\<rparr> []"
| check: "accounts sp init st pending \<Longrightarrow> register_valid sp r \<Longrightarrow> register_check sp salt i t t' r st = Inr u
    \<Longrightarrow> accounts sp init st (u # pending)"
| commit: "accounts sp init st (before @ u # after) \<Longrightarrow> register_commit sp ms now u st = (res, st')
    \<Longrightarrow> accounts sp init st' (before @ after)"
| logged_in: "accounts sp init st pending \<Longrightarrow> login_valid sp r \<Longrightarrow> login sp ms now r st = (res, st') \<Longrightarrow> accounts sp init st' pending"
| operator: "accounts sp init st pending \<Longrightarrow>
    accounts sp init (st\<lparr>us_users := map (set_account i stat r) (us_users st)\<rparr>) pending"

definition accounts_ok :: "user_store \<Rightarrow> bool" where
  "accounts_ok st \<longleftrightarrow> distinct (map usr_id (us_users st)) \<and> distinct (map usr_email (us_users st))
     \<and> (\<forall>(token, i)\<in>set (us_tokens st). i \<in> set (map usr_id (us_users st)))"

lemma set_account_keys [simp]:
  "usr_id (set_account i stat r u) = usr_id u" "usr_id \<circ> set_account i stat r = usr_id" "usr_email \<circ> set_account i stat r = usr_email"
  by (auto simp: set_account_def)

lemma find_user: "find P (us_users st) = Some u \<Longrightarrow> u \<in> set (us_users st) \<and> P u"
  by (auto simp: find_Some_iff)

text \<open>What a token was issued for: the id of its account, whose role and whose activity were checked at the time.\<close>

definition token_of :: "spring \<Rightarrow> string \<times> uuid \<Rightarrow> bool" where
  "token_of sp entry \<longleftrightarrow> (\<exists>role now. fst entry = sp_token sp (sp_uuid_text sp (snd entry)) role now)"

lemma token_of_generated [simp]: "token_of sp (generateToken sp now u, usr_id u)"
  by (auto simp: token_of_def generateToken_def)

lemma register_commit_ok:
  assumes "accounts_ok st" and "register_commit sp ms now u st = (res, st')"
  shows "accounts_ok st' \<and> (\<forall>entry\<in>set (us_tokens st'). entry \<in> set (us_tokens st) \<or> token_of sp entry)"
  using assms by (auto simp: register_commit_def accounts_ok_def split: if_splits)

lemma login_ok:
  assumes "accounts_ok st" and "login sp ms now r st = (res, st')"
  shows "accounts_ok st' \<and> (\<forall>entry\<in>set (us_tokens st'). entry \<in> set (us_tokens st) \<or> token_of sp entry)"
  using assms
  by (auto simp: login_def accounts_ok_def dest!: find_user split: option.splits if_splits)

lemma accounts_invariant:
  assumes "accounts sp init st pending" and "distinct (map usr_id init)" and "distinct (map usr_email init)"
  shows "accounts_ok st \<and> (\<forall>entry\<in>set (us_tokens st). token_of sp entry)"
  using assms
proof (induction rule: accounts.induct)
  case start
  then show ?case by (simp add: accounts_ok_def)
next
  case (commit st before u after ms now res st')
  with register_commit_ok [of st sp ms now u res st'] show ?case by blast
next
  case (logged_in st pending r ms now res st')
  with login_ok [of st sp ms now r res st'] show ?case by blast
next
  case (operator st pending i stat r)
  then show ?case by (simp add: accounts_ok_def)
qed simp


subsection \<open>Who gets a token\<close>

text \<open>A login succeeds exactly for an active account with this address and a password that matches.\<close>

lemma login_found:
  "accounts_ok st \<Longrightarrow> u \<in> set (us_users st) \<Longrightarrow> find (\<lambda>x. usr_email x = usr_email u) (us_users st) = Some u"
  by (rule find_key) (simp_all add: accounts_ok_def)

lemma login_decision:
  assumes "accounts_ok st"
  shows "(\<exists>data st'. login sp ms now r st = (Inr data, st')) \<longleftrightarrow> (\<exists>u\<in>set (us_users st). usr_email u = log_email r
    \<and> sp_matches sp (log_password r) (usr_password_hash u) \<and> usr_status u = ACTIVE)"
proof
  assume "\<exists>data st'. login sp ms now r st = (Inr data, st')"
  then show "\<exists>u\<in>set (us_users st). usr_email u = log_email r \<and> sp_matches sp (log_password r) (usr_password_hash u) \<and> usr_status u = ACTIVE"
    by (auto simp: login_def dest: find_user split: option.splits if_splits)
next
  assume "\<exists>u\<in>set (us_users st). usr_email u = log_email r \<and> sp_matches sp (log_password r) (usr_password_hash u) \<and> usr_status u = ACTIVE"
  then obtain u where "u \<in> set (us_users st)" "usr_email u = log_email r" "sp_matches sp (log_password r) (usr_password_hash u)"
    "usr_status u = ACTIVE" by blast
  moreover from this have "find (\<lambda>x. usr_email x = log_email r) (us_users st) = Some u" using login_found [OF assms, of u] by simp
  ultimately show "\<exists>data st'. login sp ms now r st = (Inr data, st')" by (simp add: login_def)
qed

lemma login_refused: "accounts_ok st \<Longrightarrow> u \<in> set (us_users st) \<Longrightarrow> usr_status u \<noteq> ACTIVE \<Longrightarrow>
    login sp ms now \<lparr>log_email = usr_email u, log_password = pw\<rparr> st = (Inl Invalid_credentials, st)"
  by (simp add: login_def login_found)

lemma getById_found: "accounts_ok st \<Longrightarrow> u \<in> set (us_users st) \<Longrightarrow> getById (usr_id u) st = Inr u"
  using find_key [of usr_id "us_users st" u] by (simp add: getById_def accounts_ok_def)

lemma getUser_200: "getUser sp i st = (200, data) \<Longrightarrow> \<exists>u\<in>set (us_users st). sp_uuid_parse sp i = Some (usr_id u) \<and> data = user_response sp u"
  by (auto simp: getUser_def getById_def error_map_def split: option.splits dest: find_user)

text \<open>Two registrations of one address that both pass the check: the one that commits second gets a 500, not the 409 of an address that exists.\<close>

lemma registration_race:
  assumes "register_check sp s1 i1 t1 t1' r1 st = Inr u1" and "register_check sp s2 i2 t2 t2' r2 st = Inr u2"
    and "reg_email r1 = reg_email r2" and "register_commit sp ms now u1 st = (Inr data, st1)"
  shows "register_commit sp ms' now' u2 st1 = (Inl Other_exception, st1) \<and> fst (handle_exception sp Other_exception) = 500"
  using assms by (auto simp: register_check_def register_commit_def new_user_def error_map_def split: if_splits)

end
