(* ===== verification/Gateway_Users.thy ===== *)
theory Gateway_Users
  imports Gateway_Orders User_Service
begin

section \<open>Accounts through the gateway\<close>

text \<open>
  Registration, login and lookup as a customer sees them: a call of the gateway arrives at the controllers of the user service,
  and the reply goes back unless the connection breaks, as between gateway and order service. The reading of bodies by Jackson is
  a parameter; \<open>None\<close> is a body that it rejects, which the handler of all other exceptions answers.
\<close>

subsection \<open>The controllers behind the gateway\<close>

definition post_register ::
  "spring \<Rightarrow> int \<Rightarrow> time \<Rightarrow> (register_request \<Rightarrow> string) \<Rightarrow> nat \<Rightarrow> uuid \<Rightarrow> time \<Rightarrow> time \<Rightarrow> register_request \<Rightarrow> user_store \<Rightarrow> (int \<times> json) \<times> user_store" where
  "post_register sp expirationMs now violation salt i t t' r st =
     (if \<not> register_valid sp r then (handle_exception sp (Invalid_argument (violation r)), st)
      else (case register_check sp salt i t t' r st of
          Inl e \<Rightarrow> (handle_exception sp e, st)
        | Inr u \<Rightarrow> (case register_commit sp expirationMs now u st of
              (Inl e, st') \<Rightarrow> (handle_exception sp e, st') | (Inr data, st') \<Rightarrow> ((201, data), st'))))"

record user_env =
  ue_expirationMs :: int
  ue_now :: "nat \<Rightarrow> time"
  ue_salt :: "nat \<Rightarrow> nat"
  ue_id :: "nat \<Rightarrow> uuid"
  ue_read_login :: "json option \<Rightarrow> login_request option"
  ue_read_register :: "json option \<Rightarrow> register_request option"
  ue_login_violation :: "login_request \<Rightarrow> string"
  ue_register_violation :: "register_request \<Rightarrow> string"

definition users_path :: string where "users_path = ''/api/v1/users/''"

definition user_reply :: "spring \<Rightarrow> user_env \<Rightarrow> nat \<Rightarrow> service_call \<Rightarrow> user_store \<Rightarrow> (int \<times> json) \<times> user_store" where
  "user_reply sp U n call st =
     (let i = drop (length users_path) (call_path call) in
      if call_method call = ''POST'' \<and> call_path call = ''/api/v1/auth/login'' then
        (case ue_read_login U (call_body call) of
           None \<Rightarrow> (handle_exception sp Other_exception, st)
         | Some r \<Rightarrow> post_login sp (ue_expirationMs U) (ue_now U n) (ue_login_violation U) r st)
      else if call_method call = ''POST'' \<and> call_path call = ''/api/v1/auth/register'' then
        (case ue_read_register U (call_body call) of
           None \<Rightarrow> (handle_exception sp Other_exception, st)
         | Some r \<Rightarrow> post_register sp (ue_expirationMs U) (ue_now U n) (ue_register_violation U) (ue_salt U n) (ue_id U n)
             (ue_now U n) (ue_now U n) r st)
      else if call_method call = ''GET'' \<and> call_path call = users_path @ i \<and> i \<noteq> [] \<and> CHR ''/'' \<notin> set i
        then (getUser sp i st, st)
      else (handle_exception sp Other_exception, st))"

definition user_exchange ::
  "spring \<Rightarrow> user_env \<Rightarrow> (nat \<Rightarrow> link) \<Rightarrow> service_call \<Rightarrow> nat \<times> user_store \<Rightarrow> hop \<times> (nat \<times> user_store)" where
  "user_exchange sp U link call = (\<lambda>(n, st).
     case link n of
       Link_refused code \<Rightarrow> (Hop_failed code, (Suc n, st))
     | fate \<Rightarrow> (case user_reply sp U n call st of ((status, data), st') \<Rightarrow>
         (case fate of Link_reply_lost code \<Rightarrow> Hop_failed code | _ \<Rightarrow> Hop_response status data, (Suc n, st'))))"

text \<open>What one exchange does to the accounts: nothing, a login or a registration. The retries of the gateway repeat it.\<close>

definition account_step :: "spring \<Rightarrow> user_store \<Rightarrow> user_store \<Rightarrow> bool" where
  "account_step sp st st' \<longleftrightarrow> (\<forall>init. accounts sp init st [] \<longrightarrow> accounts sp init st' [])
     \<and> set (us_users st) \<subseteq> set (us_users st') \<and> set (us_tokens st) \<subseteq> set (us_tokens st')"

lemma account_step_refl: "account_step sp st st"
  by (simp add: account_step_def)

lemma account_step_trans: "account_step sp st st1 \<Longrightarrow> account_step sp st1 st2 \<Longrightarrow> account_step sp st st2"
  by (auto simp: account_step_def)

lemma login_account_step:
  assumes "login_valid sp r" and "login sp ms now r st = (res, st')"
  shows "account_step sp st st'"
proof -
  have "set (us_users st) \<subseteq> set (us_users st') \<and> set (us_tokens st) \<subseteq> set (us_tokens st')"
    using assms(2) by (auto simp: login_def split: option.splits if_splits)
  moreover have "accounts sp init st [] \<Longrightarrow> accounts sp init st' []" for init
    using accounts.logged_in [OF _ assms] by blast
  ultimately show ?thesis by (simp add: account_step_def)
qed

lemma register_account_step:
  assumes "register_valid sp r" and "register_check sp salt i t t' r st = Inr u" and "register_commit sp ms now u st = (res, st')"
  shows "account_step sp st st'"
proof -
  have "set (us_users st) \<subseteq> set (us_users st') \<and> set (us_tokens st) \<subseteq> set (us_tokens st')"
    using assms(3) by (auto simp: register_commit_def split: if_splits)
  moreover have "accounts sp init st' []" if "accounts sp init st []" for init
  proof -
    from accounts.check [OF that assms(1,2)] have "accounts sp init st ([] @ u # [])" by simp
    from accounts.commit [OF this assms(3)] show ?thesis by simp
  qed
  ultimately show ?thesis by (simp add: account_step_def)
qed

lemma post_login_step: "post_login sp ms now v r st = (reply, st') \<Longrightarrow> account_step sp st st'"
  using login_account_step [of sp r ms now st] account_step_refl [of sp st]
  by (auto simp: post_login_def split: if_splits prod.splits sum.splits)

lemma post_register_step: "post_register sp ms now v salt i t t' r st = (reply, st') \<Longrightarrow> account_step sp st st'"
  using register_account_step [of sp r salt i t t' st _ ms now] account_step_refl [of sp st]
  by (auto simp: post_register_def split: if_splits prod.splits sum.splits)

lemma user_reply_step: "user_reply sp U n call st = (reply, st') \<Longrightarrow> account_step sp st st'"
  using account_step_refl [of sp st]
  by (auto simp: user_reply_def Let_def split: if_splits option.splits dest: post_login_step post_register_step)

definition accounts_effect :: "spring \<Rightarrow> nat \<Rightarrow> nat \<times> user_store \<Rightarrow> nat \<times> user_store \<Rightarrow> bool" where
  "accounts_effect sp k s s' \<longleftrightarrow> fst s' = fst s + k \<and> account_step sp (snd s) (snd s')"

interpretation user_calls: upstream "user_exchange sp U link call" "accounts_effect sp" for sp U link call
proof unfold_locales
  show "accounts_effect sp 0 s s" for s by (simp add: accounts_effect_def account_step_refl)
  show "accounts_effect sp 1 s s'" if "user_exchange sp U link call s = (h, s')" for s h s'
    using that user_reply_step [of sp U "fst s" call "snd s"] account_step_refl [of sp "snd s"]
    by (auto simp: accounts_effect_def user_exchange_def split: link.splits prod.splits)
  show "accounts_effect sp (m + n) s s2" if "accounts_effect sp m s s1" "accounts_effect sp n s1 s2" for m n s s1 s2
    using that account_step_trans by (auto simp: accounts_effect_def)
qed

text \<open>So every public route of the gateway keeps the accounts reachable, whatever breaks and however often it repeats.\<close>

lemma public_accounts:
  assumes "public_route cfg make_call (user_exchange sp U link) req (n, st) = (reply, (n', st'))"
  shows "account_step sp st st' \<and> n < n' \<and> n' \<le> n + max_exchanges cfg"
proof -
  obtain result waits where "service_client cfg (user_exchange sp U link (make_call req)) 0 (n, st) = (result, waits, (n', st'))"
    using assms by (auto simp: public_route_def split: prod.splits)
  from user_calls.call_effect [OF this] obtain k where "accounts_effect sp (Suc k) (n, st) (n', st')" "k \<le> max_exchanges cfg - Suc 0"
    by blast
  then show ?thesis by (auto simp: accounts_effect_def max_exchanges_def split: option.splits)
qed

subsection \<open>Login and registration\<close>

lemma login_through:
  assumes "accounts_ok st" and "u \<in> set (us_users st)" and "usr_status u = ACTIVE"
    and "ue_read_login U (gwr_body req) = Some r" and "login_valid sp r" and "log_email r = usr_email u"
    and "sp_matches sp (log_password r) (usr_password_hash u)" and "link n = Link_up"
  shows "auth_login cfg (user_exchange sp U link) req (n, st)
    = ((200, auth_response sp (generateToken sp (ue_now U n) u) (ue_expirationMs U) u),
       (Suc n, st\<lparr>us_tokens := us_tokens st @ [(generateToken sp (ue_now U n) u, usr_id u)]\<rparr>))"
proof -
  have "find (\<lambda>x. usr_email x = log_email r) (us_users st) = Some u" using login_found [OF assms(1,2)] by (simp add: assms(6))
  then have "user_reply sp U n (login_call req) st
      = ((200, auth_response sp (generateToken sp (ue_now U n) u) (ue_expirationMs U) u),
         st\<lparr>us_tokens := us_tokens st @ [(generateToken sp (ue_now U n) u, usr_id u)]\<rparr>)"
    using assms(3-5,7) by (simp add: user_reply_def login_call_def plain_call_def post_login_def login_def)
  with assms(8) show ?thesis
    by (simp add: auth_login_def public_route_def service_client.simps [of _ _ 0] user_exchange_def validated_def settled_reply_def)
qed

text \<open>What a registration makes of a free address.\<close>

lemma post_register_new:
  assumes "register_valid sp r" and "reg_email r \<notin> usr_email ` set (us_users st)" and "i \<notin> usr_id ` set (us_users st)"
    and "user_row_fits (new_user sp salt i t t' r)"
  shows "post_register sp ms now v salt i t t' r st
    = ((201, auth_response sp (generateToken sp now (new_user sp salt i t t' r)) ms (new_user sp salt i t t' r)),
       \<lparr>us_users = us_users st @ [new_user sp salt i t t' r],
        us_tokens = us_tokens st @ [(generateToken sp now (new_user sp salt i t t' r), i)]\<rparr>)"
  using assms by (simp add: post_register_def register_check_def register_commit_def new_user_def)

lemma post_register_taken:
  "register_valid sp r \<Longrightarrow> reg_email r \<in> usr_email ` set (us_users st) \<Longrightarrow>
    post_register sp ms now v salt i t t' r st = (handle_exception sp (Email_exists (reg_email r)), st)"
  by (simp add: post_register_def register_check_def)

lemma handle_exception_not_201: "handle_exception sp e \<noteq> (201, data)"
  by (cases e) (simp_all add: error_map_def)

text \<open>A new account can log in with its password, if the encoder matches what it encoded.\<close>

lemma registered_can_login:
  assumes "register_valid sp r" and "accounts_ok st" and "post_register sp ms now v salt i t t' r st = ((201, data), st')"
    and "sp_matches sp (reg_password r) (sp_encode sp salt (reg_password r))"
  shows "\<exists>data' st''. login sp ms' now' \<lparr>log_email = reg_email r, log_password = reg_password r\<rparr> st' = (Inr data', st'')"
proof -
  let ?u = "new_user sp salt i t t' r"
  from assms(1,3) obtain u where check: "register_check sp salt i t t' r st = Inr u" and commit: "register_commit sp ms now u st = (Inr data, st')"
    by (auto simp: post_register_def handle_exception_not_201 simp del: handle_exception.simps split: sum.splits prod.splits)
  then have u: "u = ?u" and "us_users st' = us_users st @ [?u]"
    by (auto simp: register_check_def register_commit_def split: if_splits)
  moreover have "accounts_ok st'" using register_commit_ok [OF assms(2) commit] by blast
  ultimately show ?thesis using login_decision [of st' sp ms' now'] assms(4) by (force simp: new_user_def)
qed

text \<open>A registration whose reply is late is repeated, and then the customer is told that the address is taken, by the account that he
  has just got.\<close>

lemma registration_repeated:
  assumes "ue_read_register U (gwr_body req) = Some r" and "register_valid sp r"
    and "reg_email r \<notin> usr_email ` set (us_users st)" and "ue_id U n \<notin> usr_id ` set (us_users st)"
    and "user_row_fits (new_user sp (ue_salt U n) (ue_id U n) (ue_now U n) (ue_now U n) r)"
    and "link n = Link_reply_lost code" and "link (Suc n) = Link_up" and "below 0 (cfg_retryAttempts cfg)"
  shows "\<exists>st'. auth_register cfg (user_exchange sp U link) req (n, st)
      = (handle_exception sp (Email_exists (reg_email r)), (Suc (Suc n), st'))
    \<and> us_users st' = us_users st @ [new_user sp (ue_salt U n) (ue_id U n) (ue_now U n) (ue_now U n) r]"
proof -
  let ?call = "register_call req" and ?u = "new_user sp (ue_salt U n) (ue_id U n) (ue_now U n) (ue_now U n) r"
  note first = post_register_new [OF assms(2-5), of "ue_expirationMs U" "ue_now U n" "ue_register_violation U"]
  define st1 where "st1 = snd (user_reply sp U n ?call st)"
  have reg: "user_reply sp U k ?call x = post_register sp (ue_expirationMs U) (ue_now U k) (ue_register_violation U) (ue_salt U k) (ue_id U k)
      (ue_now U k) (ue_now U k) r x" for k x
    using assms(1) by (simp add: user_reply_def register_call_def plain_call_def)
  have users: "us_users st1 = us_users st @ [?u]" by (simp add: st1_def reg first)
  then have "reg_email r \<in> usr_email ` set (us_users st1)" by (simp add: new_user_def)
  note second = post_register_taken [OF assms(2) this]
  have "user_exchange sp U link ?call (n, st) = (Hop_failed code, (Suc n, st1))"
    using assms(6) by (simp add: user_exchange_def st1_def split: prod.split)
  moreover have "user_exchange sp U link ?call (Suc n, st1)
      = (Hop_response 409 (snd (handle_exception sp (Email_exists (reg_email r)))), (Suc (Suc n), st1))"
    using assms(7) by (simp add: user_exchange_def reg second error_map_def)
  ultimately have "auth_register cfg (user_exchange sp U link) req (n, st)
      = (handle_exception sp (Email_exists (reg_email r)), (Suc (Suc n), st1))"
    using assms(8) by (simp add: auth_register_def public_route_def service_client.simps [of _ _ 0] service_client.simps [of _ _ "Suc 0"]
        validated_def settled_reply_def error_map_def)
  with users show ?thesis by blast
qed

text \<open>Who may read an account: everyone who has a valid token.\<close>

lemma users_get_any:
  assumes "authenticate cfg js (gwr_authorization req) = Allowed user" and "accounts_ok st" and "u \<in> set (us_users st)"
    and "sp_uuid_parse sp (gwr_param_id req) = Some (usr_id u)" and "gwr_param_id req \<noteq> []" and "CHR ''/'' \<notin> set (gwr_param_id req)"
    and "link n = Link_up"
  shows "users_get cfg js (user_exchange sp U link) req (n, st) = ((200, user_response sp u), (Suc n, st))"
proof -
  have "user_reply sp U n (user_call req user) st = ((200, user_response sp u), st)"
    using assms(4-6) getById_found [OF assms(2,3)]
    by (simp add: user_reply_def Let_def user_call_def plain_call_def users_path_def getUser_def)
  with assms(1,7) show ?thesis
    by (simp add: users_get_def authenticated_route_def user_exchange_def service_client.simps [of _ _ 0] validated_def settled_reply_def)
qed

end
