(* ===== verification/Product_Service.thy ===== *)
theory Product_Service
  imports Service_Clients
begin

section \<open>The product service (\<open>product-service\<close>)\<close>

text \<open>
  The catalog that prices the orders: the table \<open>products\<close>, the request schemas, the functions of
  \<open>services/product_service.py\<close> and the exception handlers of \<open>main.py\<close>. A function that reads a row and writes it back is two
  statements, between which other requests run. The reading of request bodies is pydantic's and begins where a schema has
  its values; a text is its UTF-8 bytes and its length counts characters.
\<close>

subsection \<open>Data (\<open>models.py\<close>, \<open>schemas/product.py\<close>, \<open>migrations\<close>)\<close>

record product_row =
  prod_id :: uuid
  prod_sku :: string
  prod_name :: string
  prod_description :: "string option"
  prod_category :: string
  prod_price_cents :: int
  prod_currency :: string
  prod_stock_quantity :: int
  prod_is_active :: bool
  prod_created_at :: time
  prod_updated_at :: time

record product_create =
  new_sku :: string
  new_name :: string
  new_description :: "string option"
  new_category :: string
  new_price_cents :: int
  new_currency :: string
  new_stock_quantity :: int

text \<open>A field of an update is unset (\<open>None\<close>), null (\<open>Some None\<close>) or a value.\<close>

record product_update =
  upd_name :: "string option option"
  upd_description :: "string option option"
  upd_category :: "string option option"
  upd_price_cents :: "int option option"
  upd_stock_quantity :: "int option option"
  upd_is_active :: "bool option option"

definition text_between :: "nat \<Rightarrow> nat \<Rightarrow> string \<Rightarrow> bool" where
  "text_between lo hi s \<longleftrightarrow> lo \<le> utf8_length s \<and> utf8_length s \<le> hi"

definition optional :: "('a \<Rightarrow> bool) \<Rightarrow> 'a option \<Rightarrow> bool" where
  "optional P x \<longleftrightarrow> (case x of None \<Rightarrow> True | Some y \<Rightarrow> P y)"

definition create_valid :: "product_create \<Rightarrow> bool" where
  "create_valid c \<longleftrightarrow> text_between 1 64 (new_sku c) \<and> text_between 1 255 (new_name c)
     \<and> optional (text_between 0 2000) (new_description c) \<and> text_between 1 100 (new_category c) \<and> 0 < new_price_cents c
     \<and> text_between 3 3 (new_currency c) \<and> 0 \<le> new_stock_quantity c"

definition update_valid :: "product_update \<Rightarrow> bool" where
  "update_valid u \<longleftrightarrow> optional (optional (text_between 1 255)) (upd_name u)
     \<and> optional (optional (\<lambda>n. 0 < n)) (upd_price_cents u) \<and> optional (optional (\<lambda>n. 0 \<le> n)) (upd_stock_quantity u)"

text \<open>What the column types accept.\<close>

definition product_row_fits :: "product_row \<Rightarrow> bool" where
  "product_row_fits p \<longleftrightarrow> utf8_length (prod_sku p) \<le> 64 \<and> utf8_length (prod_name p) \<le> 255
     \<and> optional (\<lambda>s. utf8_length s \<le> 2000) (prod_description p) \<and> utf8_length (prod_category p) \<le> 100
     \<and> in_int4 (prod_price_cents p) \<and> utf8_length (prod_currency p) \<le> 3 \<and> in_int4 (prod_stock_quantity p)
     \<and> CHR 0x00 \<notin> set (prod_sku p @ prod_name p @ prod_category p @ prod_currency p)
     \<and> optional (\<lambda>s. CHR 0x00 \<notin> set s) (prod_description p)"

subsection \<open>\<open>services/product_service.py\<close>\<close>

text \<open>The exceptions that \<open>main.py\<close> handles, and every other one.\<close>

datatype product_error = ProductNotFoundError uuid | DuplicateSkuError string | Unhandled_exception

definition get_product :: "uuid \<Rightarrow> product_row list \<Rightarrow> product_error + product_row" where
  "get_product i rows = (case find (\<lambda>p. prod_id p = i) rows of None \<Rightarrow> Inl (ProductNotFoundError i) | Some p \<Rightarrow> Inr p)"

definition created_row :: "product_create \<Rightarrow> uuid \<Rightarrow> time \<Rightarrow> time \<Rightarrow> product_row" where
  "created_row c i t t' = \<lparr>prod_id = i, prod_sku = new_sku c, prod_name = new_name c, prod_description = new_description c,
     prod_category = new_category c, prod_price_cents = new_price_cents c, prod_currency = new_currency c,
     prod_stock_quantity = new_stock_quantity c, prod_is_active = True, prod_created_at = t, prod_updated_at = t'\<rparr>"

definition create_product ::
  "product_create \<Rightarrow> uuid \<Rightarrow> time \<Rightarrow> time \<Rightarrow> product_row list \<Rightarrow> product_error + product_row \<times> product_row list" where
  "create_product c i t t' rows =
     (let p = created_row c i t t' in
      if \<not> product_row_fits p then Inl Unhandled_exception
      else if i \<in> prod_id ` set rows \<or> new_sku c \<in> prod_sku ` set rows then Inl (DuplicateSkuError (new_sku c))
      else Inr (p, rows @ [p]))"

text \<open>The assignments of an update to the row that was read: what remains set are the columns whose value differs.\<close>

definition net_change :: "'a option option \<Rightarrow> 'a option \<Rightarrow> 'a option option" where
  "net_change new old = (if new = Some old then None else new)"

definition net_update :: "product_update \<Rightarrow> product_row \<Rightarrow> product_update" where
  "net_update u p = \<lparr>upd_name = net_change (upd_name u) (Some (prod_name p)),
     upd_description = net_change (upd_description u) (prod_description p),
     upd_category = net_change (upd_category u) (Some (prod_category p)),
     upd_price_cents = net_change (upd_price_cents u) (Some (prod_price_cents p)),
     upd_stock_quantity = net_change (upd_stock_quantity u) (Some (prod_stock_quantity p)),
     upd_is_active = net_change (upd_is_active u) (Some (prod_is_active p))\<rparr>"

definition nothing_set :: product_update where
  "nothing_set = \<lparr>upd_name = None, upd_description = None, upd_category = None, upd_price_cents = None,
     upd_stock_quantity = None, upd_is_active = None\<rparr>"

definition column :: "'a option option \<Rightarrow> 'a \<Rightarrow> 'a" where
  "column new old = (case new of Some (Some v) \<Rightarrow> v | _ \<Rightarrow> old)"

definition updated_row :: "product_update \<Rightarrow> time \<Rightarrow> product_row \<Rightarrow> product_row" where
  "updated_row u t p = p\<lparr>prod_name := column (upd_name u) (prod_name p),
     prod_description := (case upd_description u of None \<Rightarrow> prod_description p | Some d \<Rightarrow> d),
     prod_category := column (upd_category u) (prod_category p), prod_price_cents := column (upd_price_cents u) (prod_price_cents p),
     prod_stock_quantity := column (upd_stock_quantity u) (prod_stock_quantity p),
     prod_is_active := column (upd_is_active u) (prod_is_active p), prod_updated_at := t\<rparr>"

definition sets_null :: "product_update \<Rightarrow> bool" where
  "sets_null u \<longleftrightarrow> upd_name u = Some None \<or> upd_category u = Some None \<or> upd_price_cents u = Some None
     \<or> upd_stock_quantity u = Some None \<or> upd_is_active u = Some None"

text \<open>The \<open>commit\<close> of an update: no statement when nothing is set, else an \<open>UPDATE\<close> of the set columns of the row as it is now.
  A null or a value that does not fit makes it fail.\<close>

definition commit_update :: "product_update \<Rightarrow> uuid \<Rightarrow> time \<Rightarrow> product_row list \<Rightarrow> product_error + product_row list" where
  "commit_update u i t rows =
     (let rows' = map (\<lambda>p. if prod_id p = i then updated_row u t p else p) rows in
      if u = nothing_set then Inr rows
      else if sets_null u \<or> \<not> list_all product_row_fits rows' then Inl Unhandled_exception
      else Inr rows')"

definition deactivation :: product_update where
  "deactivation = nothing_set\<lparr>upd_is_active := Some (Some False)\<rparr>"

text \<open>Without other requests between the two statements.\<close>

definition update_product :: "product_update \<Rightarrow> uuid \<Rightarrow> time \<Rightarrow> product_row list \<Rightarrow> product_error + product_row list" where
  "update_product u i t rows = (case get_product i rows of
       Inl e \<Rightarrow> Inl e | Inr p \<Rightarrow> commit_update (net_update u p) i t rows)"

definition delete_product :: "uuid \<Rightarrow> time \<Rightarrow> product_row list \<Rightarrow> product_error + product_row list" where
  "delete_product = update_product deactivation"

text \<open>\<open>list_products\<close>: \<open>rank\<close> is the order in which the database returns products of the same age.\<close>

definition matching_products :: "(uuid \<Rightarrow> nat) \<Rightarrow> string option \<Rightarrow> bool \<Rightarrow> product_row list \<Rightarrow> product_row list" where
  "matching_products rank category active_only rows =
     sort_key (\<lambda>p. - prod_created_at p) (sort_key (rank \<circ> prod_id)
       (filter (\<lambda>p. (case category of None \<Rightarrow> True | Some c \<Rightarrow> c = [] \<or> prod_category p = c) \<and> (active_only \<longrightarrow> prod_is_active p)) rows))"

definition list_products ::
  "(uuid \<Rightarrow> nat) \<Rightarrow> string option \<Rightarrow> bool \<Rightarrow> nat \<Rightarrow> nat \<Rightarrow> product_row list \<Rightarrow> product_row list \<times> nat" where
  "list_products rank category active_only page page_size rows =
     (let ps = matching_products rank category active_only rows
      in (take page_size (drop ((page - 1) * page_size) ps), length ps))"

subsection \<open>Replies (\<open>routers/products.py\<close>, \<open>main.py\<close>)\<close>

record python =
  py_uuid_parse :: "string \<Rightarrow> uuid option"
  py_uuid_text :: "uuid \<Rightarrow> string"
  py_time_text :: "time \<Rightarrow> string"

definition json_text :: "string option \<Rightarrow> json" where
  "json_text t = (case t of None \<Rightarrow> JNull | Some s \<Rightarrow> JString s)"

definition product_json :: "python \<Rightarrow> product_row \<Rightarrow> json" where
  "product_json py p = JObject
     [(''id'', JString (py_uuid_text py (prod_id p))), (''sku'', JString (prod_sku p)), (''name'', JString (prod_name p)),
      (''description'', json_text (prod_description p)), (''category'', JString (prod_category p)),
      (''price_cents'', JNumber (show_int (prod_price_cents p))), (''currency'', JString (prod_currency p)),
      (''stock_quantity'', JNumber (show_int (prod_stock_quantity p))), (''is_active'', JBool (prod_is_active p)),
      (''created_at'', JString (py_time_text py (prod_created_at p))), (''updated_at'', JString (py_time_text py (prod_updated_at p)))]"

fun product_error_reply :: "python \<Rightarrow> product_error \<Rightarrow> int \<times> json" where
  "product_error_reply py (ProductNotFoundError i) = (404, JObject [(''error'', JString ''product_not_found''),
     (''message'', JString (''Product '' @ py_uuid_text py i @ '' not found''))])"
| "product_error_reply py (DuplicateSkuError sku) = (409, JObject [(''error'', JString ''duplicate_sku''),
     (''message'', JString (''Product with SKU '' @ [CHR 0x27] @ sku @ [CHR 0x27] @ '' already exists''))])"
| "product_error_reply py Unhandled_exception = (500, JString ''Internal Server Error'')"

text \<open>A path parameter that is no UUID is answered by FastAPI with a 422.\<close>

definition http_get_product :: "python \<Rightarrow> json \<Rightarrow> string \<Rightarrow> product_row list \<Rightarrow> int \<times> json" where
  "http_get_product py unprocessable pid rows = (case py_uuid_parse py pid of
       None \<Rightarrow> (422, unprocessable)
     | Some i \<Rightarrow> (case get_product i rows of Inl e \<Rightarrow> product_error_reply py e | Inr p \<Rightarrow> (200, product_json py p)))"

text \<open>The other routes. \<open>unprocessable\<close> is the reply of FastAPI to a request that a schema rejects.\<close>

definition http_list_products ::
  "python \<Rightarrow> json \<Rightarrow> nat \<Rightarrow> (uuid \<Rightarrow> nat) \<Rightarrow> string option \<Rightarrow> int \<Rightarrow> int \<Rightarrow> product_row list \<Rightarrow> int \<times> json" where
  "http_list_products py unprocessable max_page_size rank category page page_size rows =
     (if page < 1 \<or> page_size < 1 \<or> int max_page_size < page_size then (422, unprocessable)
      else (case list_products rank category True (nat page) (nat page_size) rows of (items, number) \<Rightarrow>
        (200, JObject [(''items'', JArray (map (product_json py) items)), (''total'', JNumber (show_nat number)),
           (''page'', JNumber (show_int page)), (''page_size'', JNumber (show_int page_size))])))"

definition http_create_product ::
  "python \<Rightarrow> json \<Rightarrow> product_create \<Rightarrow> uuid \<Rightarrow> time \<Rightarrow> time \<Rightarrow> product_row list \<Rightarrow> (int \<times> json) \<times> product_row list" where
  "http_create_product py unprocessable c i t t' rows =
     (if \<not> create_valid c then ((422, unprocessable), rows)
      else (case create_product c i t t' rows of
          Inl e \<Rightarrow> (product_error_reply py e, rows) | Inr (p, rows') \<Rightarrow> ((201, product_json py p), rows')))"

text \<open>After the commit the row is read again.\<close>

definition http_update_product ::
  "python \<Rightarrow> json \<Rightarrow> string \<Rightarrow> product_update \<Rightarrow> time \<Rightarrow> product_row list \<Rightarrow> (int \<times> json) \<times> product_row list" where
  "http_update_product py unprocessable pid u t rows =
     (case py_uuid_parse py pid of
        None \<Rightarrow> ((422, unprocessable), rows)
      | Some i \<Rightarrow>
          if \<not> update_valid u then ((422, unprocessable), rows)
          else (case update_product u i t rows of
              Inl e \<Rightarrow> (product_error_reply py e, rows)
            | Inr rows' \<Rightarrow> (case get_product i rows' of
                Inl e \<Rightarrow> (product_error_reply py e, rows') | Inr p \<Rightarrow> ((200, product_json py p), rows'))))"

definition http_delete_product ::
  "python \<Rightarrow> json \<Rightarrow> string \<Rightarrow> time \<Rightarrow> product_row list \<Rightarrow> (int \<times> json option) \<times> product_row list" where
  "http_delete_product py unprocessable pid t rows =
     (case py_uuid_parse py pid of
        None \<Rightarrow> ((422, Some unprocessable), rows)
      | Some i \<Rightarrow> (case delete_product i t rows of
          Inl e \<Rightarrow> (case product_error_reply py e of (status, data) \<Rightarrow> ((status, Some data), rows))
        | Inr rows' \<Rightarrow> ((204, None), rows')))"

subsection \<open>The catalog over time\<close>

text \<open>
  The states of the table with the updates that have read their row and not committed yet. A request may fail at any moment,
  which drops its update.
\<close>

inductive catalog :: "product_row list \<Rightarrow> product_row list \<Rightarrow> (uuid \<times> product_update) list \<Rightarrow> bool" for init where
  start: "catalog init init []"
| create: "catalog init rows pending \<Longrightarrow> create_valid c \<Longrightarrow> create_product c i t t' rows = Inr (p, rows') \<Longrightarrow> catalog init rows' pending"
| read: "catalog init rows pending \<Longrightarrow> update_valid u \<or> u = deactivation \<Longrightarrow> get_product i rows = Inr p
    \<Longrightarrow> catalog init rows ((i, net_update u p) # pending)"
| commit: "catalog init rows (before @ (i, u) # after) \<Longrightarrow> commit_update u i t rows = Inr rows' \<Longrightarrow> catalog init rows' (before @ after)"
| failed: "catalog init rows (before @ x # after) \<Longrightarrow> catalog init rows (before @ after)"

definition product_ok :: "product_row \<Rightarrow> bool" where
  "product_ok p \<longleftrightarrow> product_row_fits p \<and> 0 < prod_price_cents p \<and> 0 \<le> prod_stock_quantity p \<and> prod_sku p \<noteq> []"

definition catalog_ok :: "product_row list \<Rightarrow> bool" where
  "catalog_ok rows \<longleftrightarrow> distinct (map prod_id rows) \<and> distinct (map prod_sku rows) \<and> list_all product_ok rows"

text \<open>What an update never touches.\<close>

definition same_product :: "product_row \<Rightarrow> product_row \<Rightarrow> bool" where
  "same_product p q \<longleftrightarrow> prod_id q = prod_id p \<and> prod_sku q = prod_sku p \<and> prod_currency q = prod_currency p
     \<and> prod_created_at q = prod_created_at p"

lemma updated_same [simp]: "same_product p (updated_row u t p)" "same_product p p"
  by (simp_all add: same_product_def updated_row_def)

lemma updated_row_key [simp]: "prod_id (updated_row u t p) = prod_id p" "prod_sku (updated_row u t p) = prod_sku p"
  by (simp_all add: updated_row_def)

lemma net_change_valid: "optional P new \<Longrightarrow> optional P (net_change new old)"
  by (simp add: net_change_def optional_def)

lemma net_update_valid: "update_valid u \<Longrightarrow> update_valid (net_update u p)"
  by (simp add: update_valid_def net_update_def net_change_valid)

lemma deactivation_valid: "update_valid deactivation"
  by (simp add: deactivation_def nothing_set_def update_valid_def optional_def)

lemma updated_row_ok: "product_ok p \<Longrightarrow> update_valid u \<Longrightarrow> product_row_fits (updated_row u t p) \<Longrightarrow> product_ok (updated_row u t p)"
  by (auto simp: product_ok_def update_valid_def optional_def updated_row_def column_def split: option.splits)

lemma created_ok:
  assumes "catalog_ok rows" and "create_valid c" and "create_product c i t t' rows = Inr (p, rows')"
  shows "rows' = rows @ [p] \<and> catalog_ok rows'"
proof -
  have "new_sku c \<noteq> []" using assms(2) by (auto simp: create_valid_def text_between_def utf8_length_def)
  with assms show ?thesis
    by (auto simp: create_product_def Let_def catalog_ok_def product_ok_def created_row_def create_valid_def split: if_splits)
qed

lemma commit_ok:
  assumes "catalog_ok rows" and "update_valid u" and "commit_update u i t rows = Inr rows'"
  shows "catalog_ok rows' \<and> list_all2 same_product rows rows'"
proof (cases "u = nothing_set")
  case True
  with assms show ?thesis by (auto simp: commit_update_def list_all2_same)
next
  case False
  let ?f = "\<lambda>p. if prod_id p = i then updated_row u t p else p"
  from False assms(3) have rows': "rows' = map ?f rows" and fits: "list_all product_row_fits (map ?f rows)"
    by (auto simp: commit_update_def Let_def split: if_splits)
  have "map prod_id rows' = map prod_id rows" "map prod_sku rows' = map prod_sku rows" by (simp_all add: rows')
  moreover have "list_all product_ok rows'"
    using assms(1,2) fits unfolding rows' by (auto simp: catalog_ok_def list_all_iff intro!: updated_row_ok)
  moreover have "list_all2 same_product rows rows'" by (simp add: rows' list_all2_map2 list_all2_same)
  ultimately show ?thesis using assms(1) by (simp add: catalog_ok_def)
qed

lemma catalog_kept:
  assumes "catalog init rows pending" and "catalog_ok init"
  shows "catalog_ok rows \<and> (\<forall>(i, u)\<in>set pending. update_valid u) \<and> (\<exists>old new. rows = old @ new \<and> list_all2 same_product init old)"
  using assms
proof (induction rule: catalog.induct)
  case start
  have "\<exists>old new. init = old @ new \<and> list_all2 same_product init old"
    by (intro exI [of _ init] exI [of _ "[]"]) (simp add: list_all2_same)
  with start show ?case by (intro conjI) simp_all
next
  case (create rows pending c i t t' p rows')
  with created_ok [of rows c i t t' p rows'] show ?case by fastforce
next
  case (read rows pending u i p)
  with net_update_valid deactivation_valid show ?case by auto
next
  case (commit rows before i u after t rows')
  then obtain old new where rows: "rows = old @ new" "list_all2 same_product init old" by auto
  from commit commit_ok [of rows u i t rows'] have step: "catalog_ok rows'" "list_all2 same_product rows rows'" by auto
  then obtain old' new' where rows': "rows' = old' @ new'" "list_all2 same_product old old'"
    unfolding rows(1) by (auto simp: list_all2_append1)
  have "list_all2 same_product init old'"
    using list_all2_trans [of same_product same_product same_product, OF _ rows(2) rows'(2)] by (simp add: same_product_def)
  with step(1) rows'(1) commit show ?case by auto
next
  case (failed rows before x after)
  then show ?case by auto
qed

text \<open>C33. The catalog: whatever requests overlap, no two products have one id or one SKU, every price is positive and every stock is not
  negative, and a product that was ever there stays, under its id, its SKU, its currency and its creation time, in its
  place: nothing deletes a row.\<close>

theorem catalog_invariant:
  assumes "catalog init rows pending" and "catalog_ok init"
  shows "distinct (map prod_id rows) \<and> distinct (map prod_sku rows)
    \<and> (\<forall>p\<in>set rows. 0 < prod_price_cents p \<and> prod_price_cents p < 2 ^ 31 \<and> 0 \<le> prod_stock_quantity p \<and> prod_stock_quantity p < 2 ^ 31)
    \<and> (\<exists>old new. rows = old @ new \<and> list_all2 same_product init old)"
  using catalog_kept [OF assms] by (auto simp: catalog_ok_def product_ok_def product_row_fits_def in_int4_def list_all_iff)


subsection \<open>The answer the order service reads\<close>

definition info_of :: "python \<Rightarrow> product_row \<Rightarrow> product_info" where
  "info_of py p = \<lparr>product_ID = py_uuid_text py (prod_id p), product_SKU = prod_sku p, product_Name = prod_name p,
     product_PriceCents = word_of_int (prod_price_cents p), product_StockQuantity = word_of_int (prod_stock_quantity p),
     product_IsActive = prod_is_active p\<rparr>"

lemma int4_64: "in_int4 i \<Longrightarrow> in_int64 i"
  by (simp add: in_int4_def in_int64_def)

lemma fits_int64:
  assumes "product_row_fits p"
  shows "in_int64 (prod_price_cents p)" "in_int64 (prod_stock_quantity p)"
  using assms by (simp_all add: product_row_fits_def int4_64)

lemma product_json_response:
  "product_row_fits p \<Longrightarrow> product_json py p = product_response_json (info_of py p) (json_text (prod_description p)) (JString (prod_category p))
     (JString (prod_currency p)) (JString (py_time_text py (prod_created_at p))) (JString (py_time_text py (prod_updated_at p)))"
  by (simp add: product_json_def product_response_json_def info_of_def json_int_def sint_word_of_int64 fits_int64)

lemma decode_product_json:
  "product_row_fits p \<Longrightarrow> decode_body ''client'' ''ProductInfo'' product_fields zero_product (JsonBody (product_json py p)) = Inr (info_of py p)"
  by (simp only: product_json_response decode_product_response)

lemma get_product_Inr: "get_product i rows = Inr p \<Longrightarrow> p \<in> set rows \<and> prod_id p = i"
  by (auto simp: get_product_def find_Some_iff split: option.splits)

lemma product_error_reply_status: "fst (product_error_reply py e) \<noteq> 200"
  by (cases e) simp_all

lemma http_get_product_200:
  "http_get_product py un pid rows = (200, j) \<Longrightarrow> \<exists>p. p \<in> set rows \<and> py_uuid_parse py pid = Some (prod_id p) \<and> j = product_json py p"
proof (cases "py_uuid_parse py pid")
  case (Some i)
  assume reply: "http_get_product py un pid rows = (200, j)"
  show ?thesis
  proof (cases "get_product i rows")
    case (Inl e)
    with reply Some product_error_reply_status [of py e] show ?thesis by (simp add: http_get_product_def)
  next
    case (Inr p)
    with reply Some get_product_Inr [OF Inr] show ?thesis by (auto simp: http_get_product_def)
  qed
qed (simp add: http_get_product_def)

subsection \<open>What a customer reads back\<close>

lemma get_product_present: "catalog_ok rows \<Longrightarrow> p \<in> set rows \<Longrightarrow> get_product (prod_id p) rows = Inr p"
  using find_key [of prod_id rows p] by (simp add: get_product_def catalog_ok_def)

text \<open>A product that was created is found under its id.\<close>

lemma created_readable:
  assumes "catalog_ok rows" and "http_create_product py un c i t t' rows = ((201, j), rows')" and "py_uuid_parse py pid = Some i"
  shows "http_get_product py un pid rows' = (200, j)"
proof -
  from assms(2) product_error_reply.simps obtain p where valid: "create_valid c" and made: "create_product c i t t' rows = Inr (p, rows')"
    and j: "j = product_json py p"
    by (auto simp: http_create_product_def split: if_splits sum.splits elim!: product_error_reply.elims)
  from created_ok [OF assms(1) valid made] have "catalog_ok rows'" "p \<in> set rows'" by auto
  moreover have "prod_id p = i" using made by (auto simp: create_product_def Let_def created_row_def split: if_splits)
  ultimately have "get_product i rows' = Inr p" using get_product_present [of rows' p] by simp
  with assms(3) j show ?thesis by (simp add: http_get_product_def)
qed

text \<open>A product that was deleted is still found, but is not active: the order service refuses it, and lists do not show it.\<close>

lemma deleted_inactive:
  assumes "catalog_ok rows" and "p \<in> set rows" and "delete_product (prod_id p) t rows = Inr rows'"
  shows "\<exists>q. get_product (prod_id p) rows' = Inr q \<and> \<not> prod_is_active q \<and> same_product p q
    \<and> (\<forall>rank category page len. q \<notin> set (fst (list_products rank category True page len rows')))"
proof -
  let ?u = "net_update deactivation p"
  have commit: "commit_update ?u (prod_id p) t rows = Inr rows'"
    using assms(3) get_product_present [OF assms(1,2)] by (simp add: delete_product_def update_product_def)
  have "update_valid ?u" by (rule net_update_valid) (rule deactivation_valid)
  from commit_ok [OF assms(1) this commit] have ok: "catalog_ok rows'" by blast
  obtain q where q: "q \<in> set rows'" "prod_id q = prod_id p" "\<not> prod_is_active q" "same_product p q"
  proof (cases "?u = nothing_set")
    case True
    then have "\<not> prod_is_active p"
      by (auto simp: net_update_def nothing_set_def deactivation_def net_change_def split: if_splits)
    moreover from True commit have "rows' = rows" by (simp add: commit_update_def)
    ultimately show thesis using that [of p] assms(2) by simp
  next
    case False
    with commit have rows': "rows' = map (\<lambda>x. if prod_id x = prod_id p then updated_row ?u t x else x) rows"
      by (auto simp: commit_update_def Let_def split: if_splits)
    have "updated_row ?u t p \<in> set rows'" using assms(2) by (auto simp: rows')
    moreover have "\<not> prod_is_active (updated_row ?u t p)"
      by (auto simp: updated_row_def net_update_def deactivation_def nothing_set_def net_change_def column_def)
    ultimately show thesis using that [of "updated_row ?u t p"] by simp
  qed
  from get_product_present [OF ok q(1)] q(2) have "get_product (prod_id p) rows' = Inr q" by simp
  moreover have "q \<notin> set (fst (list_products rank category True page len rows'))" for rank category page len
    using q(3) by (auto simp: list_products_def matching_products_def Let_def dest!: in_set_takeD in_set_dropD)
  ultimately show ?thesis using q(3,4) by blast
qed

subsection \<open>Pages\<close>

text \<open>With one order of the rows, the pages are the matching products, each once; but products of one age have no order, and then two
  pages may show the same product and never another.\<close>

lemma pages_concat:
  "concat (map (\<lambda>k. fst (list_products rank category active_only (Suc k) len rows)) [0..<n])
     = take (n * len) (matching_products rank category active_only rows)"
proof (induction n)
  case (Suc n)
  let ?ps = "matching_products rank category active_only rows"
  have "take (len + n * len) ?ps = take (n * len) ?ps @ take len (drop (n * len) ?ps)"
    using take_add [of "n * len" len ?ps] by (simp only: add.commute)
  with Suc show ?case by (simp add: list_products_def Let_def)
qed simp

definition seed_product :: "uuid \<Rightarrow> string \<Rightarrow> int \<Rightarrow> int \<Rightarrow> product_row" where
  "seed_product i sku price stock = \<lparr>prod_id = i, prod_sku = sku, prod_name = sku, prod_description = None, prod_category = ''electronics'',
     prod_price_cents = price, prod_currency = ''USD'', prod_stock_quantity = stock, prod_is_active = True, prod_created_at = 0,
     prod_updated_at = 0\<rparr>"

definition seed_catalog :: "product_row list" where
  "seed_catalog = [seed_product 2 ''SKU-MOUSE'' 1999 10, seed_product 3 ''SKU-KEYBOARD'' 8999 80]"

lemma seed_catalog_ok: "catalog_ok seed_catalog"
  by (simp add: seed_catalog_def seed_product_def catalog_ok_def product_ok_def product_row_fits_def optional_def in_int4_def
      utf8_length_def utf8_continuation_def)

lemma pages_may_repeat:
  "map prod_id (fst (list_products (\<lambda>i. if i = 2 then 0 else 1) None True 1 1 seed_catalog)) = [2]
   \<and> map prod_id (fst (list_products (\<lambda>i. if i = 2 then 1 else 0) None True 2 1 seed_catalog)) = [2]"
  by (simp add: list_products_def matching_products_def seed_catalog_def seed_product_def sort_key_def insort_key.simps)

text \<open>An update with an explicit null passes the schema and ends in a 500.\<close>

lemma null_update_fails:
  "update_valid (nothing_set\<lparr>upd_price_cents := Some None\<rparr>)
   \<and> update_product (nothing_set\<lparr>upd_price_cents := Some None\<rparr>) 2 t seed_catalog = Inl Unhandled_exception"
  by (simp add: update_valid_def optional_def nothing_set_def update_product_def get_product_def seed_catalog_def seed_product_def
      net_update_def net_change_def commit_update_def sets_null_def)

theorem catalog_invariant_witness:
  "\<exists>rows p. create_product \<lparr>new_sku = ''SKU-CUP'', new_name = ''Cup'', new_description = None, new_category = ''home'', new_price_cents = 700,
      new_currency = ''USD'', new_stock_quantity = 5\<rparr> 4 1 1 seed_catalog = Inr (p, rows)
    \<and> distinct (map prod_sku rows) \<and> (\<forall>p\<in>set rows. 0 < prod_price_cents p) \<and> length rows = 3"
proof -
  let ?c = "\<lparr>new_sku = ''SKU-CUP'', new_name = ''Cup'', new_description = None, new_category = ''home'', new_price_cents = 700,
      new_currency = ''USD'', new_stock_quantity = 5\<rparr>"
  let ?rows = "seed_catalog @ [created_row ?c 4 1 1]"
  have created: "create_product ?c 4 1 1 seed_catalog = Inr (created_row ?c 4 1 1, ?rows)"
    by (simp add: create_product_def Let_def created_row_def product_row_fits_def optional_def in_int4_def utf8_length_def utf8_continuation_def
        seed_catalog_def seed_product_def)
  have "create_valid ?c" by (simp add: create_valid_def text_between_def optional_def utf8_length_def utf8_continuation_def)
  from catalog.create [OF catalog.start this created] have "catalog seed_catalog ?rows []" .
  from catalog_invariant [OF this seed_catalog_ok] created show ?thesis
    by (intro exI [of _ ?rows] exI [of _ "created_row ?c 4 1 1"]) (simp add: seed_catalog_def)
qed

end
