(* ===== verification/Platform.thy ===== *)
theory Platform
  imports Gateway_Users Product_Service
begin

section \<open>The platform\<close>

text \<open>
  The services together: an order goes through the gateway to the order service, which asks the user service and the product
  service. What is relied on of the signature of tokens and of the network is stated in predicates: a token that the
  gateway accepts was issued by the user service, and a 200 that reaches the order service is the answer of the service that
  was asked, from the state it had then.
\<close>

definition genuine_tokens :: "js_packages \<Rightarrow> gw_config \<Rightarrow> spring \<Rightarrow> user_store \<Rightarrow> bool" where
  "genuine_tokens js cfg sp st \<longleftrightarrow> (\<forall>secret token user. cfg_jwtSecret cfg = Some secret \<longrightarrow> js_verify js token secret = Inr user \<longrightarrow>
     (\<exists>i. (token, i) \<in> set (us_tokens st) \<and> subject user = Some (JString (sp_uuid_text sp i))))"

definition serves_users :: "env \<Rightarrow> downstream \<Rightarrow> spring \<Rightarrow> (nat \<Rightarrow> user_store) \<Rightarrow> bool" where
  "serves_users E d sp users \<longleftrightarrow> (\<forall>n i b. e_net E n (get_request (user_url (ds_users d) i)) = Inr (200, b) \<longrightarrow>
     (\<exists>data. getUser sp i (users n) = (200, data) \<and> b = JsonBody data))"

definition serves_products :: "env \<Rightarrow> downstream \<Rightarrow> python \<Rightarrow> json \<Rightarrow> (nat \<Rightarrow> product_row list) \<Rightarrow> bool" where
  "serves_products E d py un products \<longleftrightarrow> (\<forall>n pid b. e_net E n (get_request (product_url (ds_products d) pid)) = Inr (200, b) \<longrightarrow>
     (\<exists>data. http_get_product py un pid (products n) = (200, data) \<and> b = JsonBody data))"

text \<open>Where two libraries read one text as an id, they read the same id; and each reads what it has written.\<close>

definition ids_agree :: "env \<Rightarrow> spring \<Rightarrow> python \<Rightarrow> bool" where
  "ids_agree E sp py \<longleftrightarrow> (\<forall>s i j. sp_uuid_parse sp s = Some i \<longrightarrow> e_uuid_parse E s = Some j \<longrightarrow> i = j)
     \<and> (\<forall>i. e_uuid_parse E (sp_uuid_text sp i) = Some i) \<and> (\<forall>i. e_uuid_parse E (py_uuid_text py i) = Some i)"

text \<open>C6. Who owns an order: whatever requests the gateway lets through, every order that is new belongs to an account that exists in the user
  service and that was issued the very token the request carries, provided that no property of the body reads \<open>userId\<close> in another
  case.\<close>

theorem order_owner_holds_token:
  assumes "accounts sp init st pending" and "distinct (map usr_id init)" and "distinct (map usr_email init)"
    and "genuine_tokens js cfg sp st" and "ids_agree E sp py"
    and "recovers recovery" and "binds_json E" and "ok_world w" and "plain_user_name (spread (gwr_body req))"
    and "orders_post cfg js (order_exchange E d recovery link) req (n, w) = (reply, (n', w'))"
    and "stored w' i = Some (row, its)" and "stored w i = None"
  shows "\<exists>u\<in>set (us_users st). usr_id u = row_user_id row
    \<and> (\<exists>token header. (token, usr_id u) \<in> set (us_tokens st) \<and> gwr_authorization req = Some header
        \<and> take 2 (split_space header) = [''Bearer'', token])"
proof (cases "authenticate cfg js (gwr_authorization req)")
  case (Denied status data)
  with assms(10) have "w' = w" by (auto simp: orders_post_def authenticated_route_def)
  with assms(11,12) show ?thesis by simp
next
  case (Allowed user)
  then obtain header token secret where header: "gwr_authorization req = Some header" "take 2 (split_space header) = [''Bearer'', token]"
    and token: "cfg_jwtSecret cfg = Some secret" "js_verify js token secret = Inr user"
    by (rule authenticate_Allowed)
  with assms(4) obtain a where a: "(token, a) \<in> set (us_tokens st)" "subject user = Some (JString (sp_uuid_text sp a))"
    unfolding genuine_tokens_def by blast
  from orders_placed [OF assms(6-10) Allowed] a(2) assms(11,12) have "e_uuid_parse E (sp_uuid_text sp a) = Some (row_user_id row)" by blast
  with assms(5) have "a = row_user_id row" by (simp add: ids_agree_def)
  moreover obtain u where "u \<in> set (us_users st)" "usr_id u = a"
    using accounts_invariant [OF assms(1-3)] a(1) by (fastforce simp: accounts_ok_def)
  ultimately show ?thesis using a(1) header by (intro bexI [of _ u]) auto
qed


lemma CreateOrder_verified:
  "CreateOrder S req w = (Ret (Some od, err), w') \<Longrightarrow> \<exists>w1. svc_users S (req_UserID req) w = (Ret None, w1)"
  by (auto simp: CreateOrder_def bindIO_def ret_def split: option.splits prod.splits outcome.splits if_splits)

lemma served_product:
  assumes "serves_products E d py un products" and "ids_agree E sp py" and "\<And>k. \<exists>pending. catalog init (products k) pending"
    and "catalog_ok init" and "fetched_line (order_app E d) line it"
  shows "\<exists>k. \<exists>p\<in>set (products k). prod_id p = item_ProductID it \<and> item_SKU it = prod_sku p \<and> item_Quantity it = itemreq_Quantity line
    \<and> sint (item_UnitPriceCents it) = prod_price_cents p \<and> prod_is_active p \<and> sint (itemreq_Quantity line) \<le> prod_stock_quantity p
    \<and> product_ok p"
proof -
  from assms(5) obtain info wa wb where "GetProduct E (ds_products d) (itemreq_ProductID line) wa = (Ret (Inr info), wb)"
    and priced: "priced_as (order_app E d) info line it" by (auto simp: fetched_line_def)
  from GetProduct_answer [OF this(1)] obtain k b where
    net: "e_net E k (get_request (product_url (ds_products d) (itemreq_ProductID line))) = Inr (200, b)"
    and info: "decode_body ''client'' ''ProductInfo'' product_fields zero_product b = Inr info" by blast
  from assms(1) net obtain data where "http_get_product py un (itemreq_ProductID line) (products k) = (200, data)" "b = JsonBody data"
    unfolding serves_products_def by blast
  from http_get_product_200 [OF this(1)] this(2) obtain p where p: "p \<in> set (products k)" "b = JsonBody (product_json py p)" by blast
  have ok: "product_ok p" using assms(3) [of k] catalog_kept [OF _ assms(4)] p(1) by (auto simp: catalog_ok_def list_all_iff)
  then have fits: "product_row_fits p" by (simp add: product_ok_def)
  with info p(2) have "info = info_of py p" by (simp add: decode_product_json)
  with priced assms(2) fits show ?thesis
    by (intro exI [of _ k] bexI [of _ p])
      (use p(1) ok in \<open>auto simp: priced_as_def info_of_def ids_agree_def sint_word_of_int64 fits_int64\<close>)
qed

text \<open>C8. What an accepted order rests on: its user has an account in the user service, and every item is a product of the catalog, active, with
  the SKU and the price of its row, in a quantity not above the stock; prices are positive. The rows are those of the moment
  the service answered.\<close>

theorem order_backed_by_services:
  assumes "ok_world w" and "CreateOrder (order_app E d) req w = (Ret (Some od, err), w')"
    and "serves_users E d sp users" and "serves_products E d py un products" and "ids_agree E sp py"
    and "\<And>k. \<exists>pending. catalog init (products k) pending" and "catalog_ok init"
  shows "(\<exists>k. \<exists>u\<in>set (us_users (users k)). usr_id u = order_UserID od)
    \<and> list_all2 (\<lambda>line it. \<exists>k. \<exists>p\<in>set (products k). prod_id p = item_ProductID it \<and> prod_is_active p \<and> item_SKU it = prod_sku p
        \<and> sint (item_UnitPriceCents it) = prod_price_cents p \<and> 0 < prod_price_cents p
        \<and> item_Quantity it = itemreq_Quantity line \<and> sint (item_Quantity it) \<le> prod_stock_quantity p) (req_Items req) (order_Items od)"
proof -
  from assms(1,2) have od: "e_uuid_parse E (req_UserID req) = Some (order_UserID od)"
    and items: "list_all2 (fetched_line (order_app E d)) (req_Items req) (order_Items od)"
    by (cases rule: app.CreateOrder_E; simp add: order_for_def)+
  from CreateOrder_verified [OF assms(2)] obtain w1 where "VerifyUserExists E (ds_users d) (req_UserID req) w = (Ret None, w1)" by auto
  from VerifyUserExists_answer [OF this] assms(3) obtain k data where "getUser sp (req_UserID req) (users k) = (200, data)"
    unfolding serves_users_def by blast
  from getUser_200 [OF this] obtain u where "u \<in> set (us_users (users k))" "sp_uuid_parse sp (req_UserID req) = Some (usr_id u)" by blast
  with od assms(5) have "\<exists>k. \<exists>u\<in>set (us_users (users k)). usr_id u = order_UserID od" unfolding ids_agree_def by metis
  moreover have "\<exists>k. \<exists>p\<in>set (products k). prod_id p = item_ProductID it \<and> prod_is_active p \<and> item_SKU it = prod_sku p
        \<and> sint (item_UnitPriceCents it) = prod_price_cents p \<and> 0 < prod_price_cents p
        \<and> item_Quantity it = itemreq_Quantity line \<and> sint (item_Quantity it) \<le> prod_stock_quantity p"
    if "fetched_line (order_app E d) line it" for line it
    using served_product [OF assms(4-7) that] by (fastforce simp: product_ok_def)
  ultimately show ?thesis using items by (auto elim: list.rel_mono_strong)
qed

text \<open>C36. A suspended or deleted account: no password logs it in, yet the user service answers 200 for its id, and the order service takes
  that answer for an account that may order.\<close>

theorem suspended_account_may_order:
  assumes "accounts_ok st" and "u \<in> set (us_users st)" and "usr_status u \<noteq> ACTIVE"
    and "sp_uuid_parse sp text = Some (usr_id u)"
    and "0 \<le> sint (rc_retryAttempts c)" and "e_new_request E (user_url c text) = None"
    and "e_net E (w_exchanges w) (get_request (user_url c text)) = Inr (word_of_int (fst (getUser sp text st)), JsonBody (snd (getUser sp text st)))"
  shows "(\<forall>ms now pw. fst (login sp ms now \<lparr>log_email = usr_email u, log_password = pw\<rparr> st) = Inl Invalid_credentials)
    \<and> getUser sp text st = (200, user_response sp u) \<and> fst (VerifyUserExists E c text w) = Ret None"
proof -
  have "getUser sp text st = (200, user_response sp u)" using assms(4) getById_found [OF assms(1,2)] by (simp add: getUser_def)
  with login_refused [OF assms(1-3)] VerifyUserExists_ignores_body [OF assms(5,6)] assms(7) show ?thesis by simp
qed


subsection \<open>A small platform\<close>

text \<open>Ids are decimal numbers; a token is the text of its subject, and a password is its own hash. They stand for the packages.\<close>

definition plain_spring :: spring where
  "plain_spring = \<lparr>sp_encode = \<lambda>salt pw. pw, sp_matches = (=), sp_token = \<lambda>subject role now. subject, sp_blank = \<lambda>s. s = [],
     sp_email = \<lambda>s. CHR ''@'' \<in> set s, sp_uuid_parse = decimal_uuid_parse, sp_uuid_text = decimal_uuid_string,
     sp_time_text = show_int, sp_now = 0\<rparr>"

definition plain_python :: python where
  "plain_python = \<lparr>py_uuid_parse = decimal_uuid_parse, py_uuid_text = decimal_uuid_string, py_time_text = show_int\<rparr>"

definition account :: "uuid \<Rightarrow> string \<Rightarrow> user_status \<Rightarrow> user_row" where
  "account i email stat = \<lparr>usr_id = i, usr_email = email, usr_password_hash = ''Password123!'', usr_first_name = ''Jane'', usr_last_name = ''Doe'',
     usr_role = CUSTOMER, usr_status = stat, usr_created_at = 0, usr_updated_at = 0\<rparr>"

definition seed_accounts :: "user_row list" where
  "seed_accounts = [account 1 ''jane@shop'' ACTIVE, account 3 ''sam@shop'' SUSPENDED]"

definition jane_logged_in :: user_store where
  "jane_logged_in = \<lparr>us_users = seed_accounts, us_tokens = [(''1'', 1)]\<rparr>"

lemma seed_accounts_distinct: "distinct (map usr_id seed_accounts)" "distinct (map usr_email seed_accounts)"
  by (simp_all add: seed_accounts_def account_def)

lemma decimal_one: "decimal_uuid_string 1 = ''1''"
  by (simp add: decimal_uuid_string_def)

lemma jane_reachable: "accounts plain_spring seed_accounts jane_logged_in []"
proof -
  let ?r = "\<lparr>log_email = ''jane@shop'', log_password = ''Password123!''\<rparr>" and ?st = "\<lparr>us_users = seed_accounts, us_tokens = []\<rparr>"
  obtain res where run: "login plain_spring 0 0 ?r ?st = (res, jane_logged_in)"
    by (simp add: login_def seed_accounts_def account_def plain_spring_def jane_logged_in_def generateToken_def decimal_one)
  show ?thesis
    by (rule accounts.logged_in [OF accounts.start _ run]) (simp add: login_valid_def plain_spring_def)
qed

definition strict_js :: js_packages where
  "strict_js = plain_js\<lparr>js_verify := \<lambda>token secret. if token = ''1'' then Inr (JObject [(''sub'', JString token)]) else Inl ''invalid signature''\<rparr>"

lemma ids_agree_plain: "e_uuid_parse E = decimal_uuid_parse \<Longrightarrow> ids_agree E plain_spring plain_python"
  by (simp add: ids_agree_def plain_spring_def plain_python_def)

lemma gin_uuid_parse: "e_uuid_parse gin_env = decimal_uuid_parse"
  by (simp add: gin_env_def shop_env_def calm_env_def)

theorem order_owner_holds_token_witness:
  "\<exists>data w' row its. orders_post plain_config strict_js (order_exchange gin_env shop_clients catch_all (\<lambda>n. Link_up))
      (plain_request ''1'' [(''items'', items_json)]) (0, start_world empty_db) = ((201, data), (1, w'))
    \<and> stored w' 1 = Some (row, its) \<and> (\<exists>u\<in>set seed_accounts. usr_id u = row_user_id row)"
proof -
  let ?req = "plain_request ''1'' [(''items'', items_json)]" and ?user = "JObject [(''sub'', JString ''1'')]"
  have auth: "authenticate plain_config strict_js (gwr_authorization ?req) = Allowed ?user"
    by (simp add: authenticate_def plain_request_def strict_js_def or_default_def)
  have "e_bind gin_env (ctx_body (gin_request (post_order_call ?req ?user) [])) = Inr shop_request"
    using ordered_items by (simp add: gin_bind gin_request_def post_order_call_def plain_request_def)
  from single_order [OF auth _ this] have "\<exists>data w'. orders_post plain_config strict_js (order_exchange gin_env shop_clients catch_all (\<lambda>n. Link_up)) ?req
      (0, start_world empty_db) = ((201, data), (1, w')) \<and> w_db w' = first_db 1" by (simp add: plain_request_def)
  then obtain data w' where
    run: "orders_post plain_config strict_js (order_exchange gin_env shop_clients catch_all (\<lambda>n. Link_up)) ?req (0, start_world empty_db)
      = ((201, data), (1, w'))" and db: "w_db w' = first_db 1" by blast
  obtain row its where st: "stored w' 1 = Some (row, its)" by (simp add: db stored_of_def select_order_def first_db_def)
  have "genuine_tokens strict_js plain_config plain_spring jane_logged_in"
    by (auto simp: genuine_tokens_def strict_js_def jane_logged_in_def subject_def plain_spring_def decimal_one split: if_splits)
  moreover have "plain_user_name (spread (gwr_body ?req))" by (simp add: plain_user_name_def spread_def plain_request_def)
  moreover have "stored (start_world empty_db) 1 = None" by (simp add: start_world_def empty_db_def stored_of_def select_order_def)
  ultimately have "\<exists>u\<in>set (us_users jane_logged_in). usr_id u = row_user_id row"
    using order_owner_holds_token [OF jane_reachable seed_accounts_distinct _ ids_agree_plain [OF gin_uuid_parse] catch_all_recovers
      gin_binds_json start_world_ok _ run st] by blast
  with run st show ?thesis by (auto simp: jane_logged_in_def)
qed

definition mouse :: product_row where
  "mouse = seed_product 2 ''SKU-MOUSE'' 1999 10"

definition platform_net :: "nat \<Rightarrow> http_request \<Rightarrow> foreign + (goint \<times> body)" where
  "platform_net n rq = Inr (
     if rq_method rq = ''POST''
     then (201, JsonBody (JObject [(''transactionId'', JString ''tx-1''), (''status'', JString ''SUCCEEDED'')]))
     else if rq_url rq = ''http://users/api/v1/users/1'' then (200, JsonBody (user_response plain_spring (account 1 ''jane@shop'' ACTIVE)))
     else if rq_url rq = ''http://products/api/v1/products/2'' then (200, JsonBody (product_json plain_python mouse))
     else (404, JsonBody JNull))"

definition platform_env :: env where
  "platform_env = shop_env\<lparr>e_net := platform_net\<rparr>"

lemma decode_mouse: "decode_body ''client'' ''ProductInfo'' product_fields zero_product (JsonBody (product_json plain_python mouse))
    = Inr \<lparr>product_ID = ''2'', product_SKU = ''SKU-MOUSE'', product_Name = ''SKU-MOUSE'', product_PriceCents = 1999, product_StockQuantity = 10,
        product_IsActive = True\<rparr>"
proof -
  have "product_row_fits mouse"
    by (simp add: mouse_def seed_product_def product_row_fits_def optional_def in_int4_def utf8_length_def utf8_continuation_def)
  then show ?thesis
    by (simp only: decode_product_json) (simp add: info_of_def mouse_def seed_product_def plain_python_def decimal_uuid_string_def)
qed

lemma platform_created: "fst (CreateOrder (order_app platform_env shop_clients) shop_request (start_world empty_db)) = Ret (Some shop_order, None)"
  by (simp add: platform_env_def platform_net_def decode_mouse concrete_app_simps del: decode_body.simps)

theorem order_backed_by_services_witness:
  "\<exists>w'. CreateOrder (order_app platform_env shop_clients) shop_request (start_world empty_db) = (Ret (Some shop_order, None), w')
    \<and> (\<exists>u\<in>set seed_accounts. usr_id u = order_UserID shop_order)
    \<and> (\<forall>it\<in>set (order_Items shop_order). \<exists>p\<in>set seed_catalog. sint (item_UnitPriceCents it) = prod_price_cents p)"
proof -
  obtain w' where run: "CreateOrder (order_app platform_env shop_clients) shop_request (start_world empty_db) = (Ret (Some shop_order, None), w')"
    using platform_created by (metis prod.collapse)
  have users: "serves_users platform_env shop_clients plain_spring (\<lambda>n. jane_logged_in)"
    by (auto simp: serves_users_def platform_env_def platform_net_def get_request_def user_url_def shop_clients_def NewResilientClient_def
        getUser_def getById_def jane_logged_in_def seed_accounts_def account_def plain_spring_def decimal_uuid_parse_def is_digit_def
        digits_value_def digit_value_def)
  have products: "serves_products platform_env shop_clients plain_python JNull (\<lambda>n. seed_catalog)"
    by (auto simp: serves_products_def platform_env_def platform_net_def get_request_def product_url_def shop_clients_def NewResilientClient_def
        http_get_product_def get_product_def mouse_def seed_catalog_def seed_product_def plain_python_def decimal_uuid_parse_def is_digit_def
        digits_value_def digit_value_def)
  have "ids_agree platform_env plain_spring plain_python"
    by (rule ids_agree_plain) (simp add: platform_env_def shop_env_def calm_env_def)
  from order_backed_by_services [OF start_world_ok run users products this _ seed_catalog_ok] catalog.start
  have "(\<exists>u\<in>set seed_accounts. usr_id u = order_UserID shop_order)
    \<and> list_all2 (\<lambda>line it. \<exists>p\<in>set seed_catalog. sint (item_UnitPriceCents it) = prod_price_cents p) (req_Items shop_request) (order_Items shop_order)"
    by (fastforce simp: jane_logged_in_def elim!: list.rel_mono_strong)
  with run show ?thesis by (auto simp: list_all2_conv_all_nth in_set_conv_nth)
qed

theorem suspended_account_may_order_witness:
  "fst (login plain_spring 0 0 \<lparr>log_email = ''sam@shop'', log_password = ''Password123!''\<rparr> jane_logged_in) = Inl Invalid_credentials
   \<and> (\<exists>E w. fst (VerifyUserExists E example_client ''3'' w) = Ret None \<and> (\<forall>n rq. e_net E n rq =
        Inr (word_of_int (fst (getUser plain_spring ''3'' jane_logged_in)), JsonBody (snd (getUser plain_spring ''3'' jane_logged_in)))))"
proof -
  let ?u = "account 3 ''sam@shop'' SUSPENDED"
  define E where "E = calm_env\<lparr>e_net := \<lambda>n rq. Inr (word_of_int (fst (getUser plain_spring ''3'' jane_logged_in)),
    JsonBody (snd (getUser plain_spring ''3'' jane_logged_in)))\<rparr>"
  have E: "e_new_request E url = None" "e_net E n rq = Inr (word_of_int (fst (getUser plain_spring ''3'' jane_logged_in)),
    JsonBody (snd (getUser plain_spring ''3'' jane_logged_in)))" for url n rq by (simp_all add: E_def calm_env_def)
  have u: "?u \<in> set (us_users jane_logged_in)" "usr_status ?u \<noteq> ACTIVE" "usr_email ?u = ''sam@shop''"
    by (simp_all add: jane_logged_in_def seed_accounts_def account_def)
  have "accounts_ok jane_logged_in" using accounts_invariant [OF jane_reachable seed_accounts_distinct] by blast
  moreover have "sp_uuid_parse plain_spring ''3'' = Some (usr_id ?u)"
    by (simp add: plain_spring_def account_def decimal_uuid_parse_def is_digit_def digits_value_def digit_value_def)
  moreover have "0 \<le> sint (rc_retryAttempts example_client)" by (simp add: example_client_def NewResilientClient_def)
  ultimately have "fst (login plain_spring 0 0 \<lparr>log_email = usr_email ?u, log_password = ''Password123!''\<rparr> jane_logged_in) = Inl Invalid_credentials"
    and "fst (VerifyUserExists E example_client ''3'' (start_world empty_db)) = Ret None"
    using suspended_account_may_order [OF _ u(1,2) _ _ E(1) E(2)] by blast+
  with E(2) u(3) show ?thesis by auto
qed

subsection \<open>From the password to the order\<close>

text \<open>The verifier takes the tokens that the user service signs, with their subject, while they are fresh.\<close>

definition accepts_tokens :: "js_packages \<Rightarrow> gw_config \<Rightarrow> spring \<Rightarrow> time \<Rightarrow> bool" where
  "accepts_tokens js cfg sp now \<longleftrightarrow> (\<exists>secret. cfg_jwtSecret cfg = Some secret \<and> secret \<noteq> []
     \<and> (\<forall>i role. let token = sp_token sp (sp_uuid_text sp i) role now in token \<noteq> [] \<and> CHR '' '' \<notin> set token
          \<and> (\<exists>user. js_verify js token secret = Inr user \<and> subject user = Some (JString (sp_uuid_text sp i)))))"

lemma js_split_none: "sep \<notin> set s \<Longrightarrow> js_split sep s = [s]"
  by (induction s) auto

lemma bearer_split: "CHR '' '' \<notin> set token \<Longrightarrow> split_space (''Bearer '' @ token) = [''Bearer'', token]"
  by (simp add: js_split_none)

lemma issued_token_authenticates:
  assumes "accepts_tokens js cfg sp now"
  shows "\<exists>user. authenticate cfg js (Some (''Bearer '' @ generateToken sp now u)) = Allowed user
    \<and> subject user = Some (JString (sp_uuid_text sp (usr_id u)))"
proof -
  from assms obtain secret user where "cfg_jwtSecret cfg = Some secret" "secret \<noteq> []"
    "generateToken sp now u \<noteq> []" "CHR '' '' \<notin> set (generateToken sp now u)"
    "js_verify js (generateToken sp now u) secret = Inr user" "subject user = Some (JString (sp_uuid_text sp (usr_id u)))"
    unfolding accepts_tokens_def generateToken_def Let_def by metis
  moreover from this(4) have "split_space (''Bearer '' @ generateToken sp now u) = [''Bearer'', generateToken sp now u]"
    by (rule bearer_split)
  ultimately show ?thesis by (simp add: authenticate_def or_default_def del: js_split.simps)
qed

definition order_request :: "string \<Rightarrow> string \<Rightarrow> create_order_item_request list \<Rightarrow> gw_request" where
  "order_request token i lines = \<lparr>gwr_authorization = Some (''Bearer '' @ token), gwr_id = i, gwr_param_id = [], gwr_query = [],
     gwr_body = Some (JObject [(''items'', JArray (map line_json lines))])\<rparr>"

text \<open>The conditions under which the order service can meet an order of a user, as in \<open>CreateOrder_succeeds\<close>.\<close>

definition can_be_met :: "env \<Rightarrow> downstream \<Rightarrow> world \<Rightarrow> string \<Rightarrow> create_order_item_request list \<Rightarrow> (string \<Rightarrow> product_info) \<Rightarrow> bool" where
  "can_be_met E d w u lines info \<longleftrightarrow> reliable_db E \<and> order_binding_ok \<lparr>req_UserID = u, req_Items = lines\<rparr>
     \<and> answered E (ds_users d) (get_request (user_url (ds_users d) u)) (\<lambda>resp. rs_status resp = 200)
     \<and> (\<forall>line\<in>set lines. orderable E d info line) \<and> payable E d
     \<and> fresh_ids E (w_db w) (w_uuids w) (Suc (length lines))
     \<and> in_int4 (lines_cents (drawn_items E info (Suc (w_uuids w)) lines))"

lemma met_through_gateway:
  assumes "can_be_met E d w (sp_uuid_text sp i) lines info" and "ok_world w" and "recovers recovery" and "binds_json E"
    and "e_uuid_parse E (sp_uuid_text sp i) = Some i"
    and "authenticate cfg js (Some (''Bearer '' @ token)) = Allowed user" and "subject user = Some (JString (sp_uuid_text sp i))"
    and "rid \<noteq> []" and "link n = Link_up"
  shows "\<exists>od w' row its. orders_post cfg js (order_exchange E d recovery link) (order_request token rid lines) (n, w)
      = ((201, order_json E od), (Suc n, w'))
    \<and> stored w' (order_ID od) = Some (row, its) \<and> row_status row = OrderStatusConfirmed \<and> row_user_id row = i"
proof -
  let ?req = "order_request token rid lines" and ?r = "\<lparr>req_UserID = sp_uuid_text sp i, req_Items = lines\<rparr>"
  let ?w = "w\<lparr>w_nows := Suc (w_nows w)\<rparr>"
  have "ok_world ?w" using assms(2) by (simp add: ok_world_def)
  then obtain od row its w1 where run: "CreateOrder (order_app E d) ?r ?w = (Ret (Some od, None), w1)"
    and row: "stored w1 (order_ID od) = Some (row, its)" "row_status row = OrderStatusConfirmed" "order_ID od = e_uuid E (w_uuids w)"
    using orderable_confirmed [of ?w E ?r i d info] assms(1,5) by (auto simp: can_be_met_def)
  from assms(4) obtain violated where "\<And>b. e_bind E b = ShouldBindJSON violated b" by (auto simp: binds_json_def)
  then have bound: "e_bind E (ctx_body (gin_request (post_order_call ?req user) [])) = Inr ?r"
    using ordered_lines [of "sp_uuid_text sp i" lines user violated] assms(1,7)
    by (simp add: gin_request_def post_order_call_def order_request_def can_be_met_def)
  have rid: "gwr_id ?req \<noteq> []" using assms(8) by (simp add: order_request_def)
  obtain es where "order_exchange E d recovery link (post_order_call ?req user) (n, w)
      = (Hop_response 201 (order_json E od), (Suc n, w1\<lparr>w_nows := Suc (w_nows w1), w_trace := w_trace w1 @ es\<rparr>))"
    using exchange_created [where link = link and n = n, OF assms(3) _ bound rid run] assms(9) by auto
  moreover have auth: "authenticate cfg js (gwr_authorization ?req) = Allowed user" using assms(6) by (simp add: order_request_def)
  ultimately have post: "orders_post cfg js (order_exchange E d recovery link) ?req (n, w)
      = ((201, order_json E od), (Suc n, w1\<lparr>w_nows := Suc (w_nows w1), w_trace := w_trace w1 @ es\<rparr>))"
    by (simp add: orders_post_def authenticated_route_def service_client.simps [of _ _ 0] validated_def settled_reply_def)
  have "stored w (order_ID od) = None"
  proof -
    have "order_ID od \<notin> row_id ` set (db_orders (w_db w))" using assms(1) row(3) by (auto simp: can_be_met_def fresh_ids_def)
    then show ?thesis by (force simp: stored_of_def select_order_def find_None_iff split: option.splits)
  qed
  moreover have "plain_user_name (spread (gwr_body ?req))" by (simp add: plain_user_name_def spread_def order_request_def)
  ultimately have "e_uuid_parse E (sp_uuid_text sp i) = Some (row_user_id row)"
    using orders_placed [OF assms(3,4,2) _ post auth] row(1) assms(7) by auto
  with assms(5) have "row_user_id row = i" by simp
  with post row show ?thesis by fastforce
qed

text \<open>C7. The way of a customer: with the right password of an active account the login through the gateway answers with a token, and with
  that token and a list of items that the order service can meet, the gateway answers 201 with the order, which is stored as
  confirmed and belongs to the account.\<close>

theorem customer_journey:
  assumes "accounts_ok st" and "u \<in> set (us_users st)" and "usr_status u = ACTIVE"
    and "ue_read_login U (gwr_body req) = Some r" and "login_valid sp r" and "log_email r = usr_email u"
    and "sp_matches sp (log_password r) (usr_password_hash u)" and "user_link m = Link_up"
    and "accepts_tokens js cfg sp (ue_now U m)"
    and "can_be_met E d w (sp_uuid_text sp (usr_id u)) lines info" and "ok_world w" and "recovers recovery" and "binds_json E"
    and "e_uuid_parse E (sp_uuid_text sp (usr_id u)) = Some (usr_id u)" and "rid \<noteq> []" and "link n = Link_up"
  shows "\<exists>data token st' od w' row its.
      auth_login cfg (user_exchange sp U user_link) req (m, st) = ((200, JObject data), (Suc m, st'))
    \<and> map_of data ''accessToken'' = Some (JString token)
    \<and> orders_post cfg js (order_exchange E d recovery link) (order_request token rid lines) (n, w) = ((201, order_json E od), (Suc n, w'))
    \<and> stored w' (order_ID od) = Some (row, its) \<and> row_status row = OrderStatusConfirmed \<and> row_user_id row = usr_id u"
proof -
  from issued_token_authenticates [OF assms(9), of u] obtain user where
    "authenticate cfg js (Some (''Bearer '' @ generateToken sp (ue_now U m) u)) = Allowed user"
    "subject user = Some (JString (sp_uuid_text sp (usr_id u)))" by blast
  from met_through_gateway [where link = link and n = n, OF assms(10-14) this assms(15,16)] obtain od w' row its where
    "orders_post cfg js (order_exchange E d recovery link) (order_request (generateToken sp (ue_now U m) u) rid lines) (n, w)
      = ((201, order_json E od), (Suc n, w'))"
    "stored w' (order_ID od) = Some (row, its)" "row_status row = OrderStatusConfirmed" "row_user_id row = usr_id u" by blast
  moreover note login_through [where cfg = cfg and link = user_link and n = m, OF assms(1-8), unfolded auth_response_def]
  ultimately show ?thesis by (intro exI conjI) (assumption | simp)+
qed


text \<open>The witness: a network that answers every other request with a 503, and the bodies of \<open>Order_Binding\<close>.\<close>

definition stormy_gin :: env where
  "stormy_gin = stormy_env\<lparr>e_bind := e_bind gin_env\<rparr>"

lemma drawn_items_bind: "drawn_items (E\<lparr>e_bind := f\<rparr>) info n lines = drawn_items E info n lines"
  by (induction lines arbitrary: n) (simp_all add: Let_def new_item_def)

lemma answered_bind: "answered (E\<lparr>e_bind := f\<rparr>) c rq P = answered E c rq P"
  by (simp add: answered_def transient_def response_at_def)

lemma can_be_met_bind: "can_be_met (E\<lparr>e_bind := f\<rparr>) d w u lines info = can_be_met E d w u lines info"
  by (simp add: can_be_met_def drawn_items_bind answered_bind reliable_db_def orderable_def Let_def payable_def fresh_ids_def)

lemma stormy_meets: "can_be_met stormy_gin shop_clients (start_world empty_db) ''1'' (req_Items shop_request) shop_product"
proof -
  have "order_binding_ok \<lparr>req_UserID = ''1'', req_Items = req_Items shop_request\<rparr>" and "req_UserID shop_request = ''1''"
    using shop_order_ok by (simp_all add: shop_request_def)
  with stormy_conditions show ?thesis unfolding stormy_gin_def can_be_met_bind by (simp add: can_be_met_def)
qed

definition plain_user_env :: user_env where
  "plain_user_env = \<lparr>ue_expirationMs = 3600000, ue_now = int, ue_salt = \<lambda>n. n, ue_id = \<lambda>n. word_of_nat (n + 10),
     ue_read_login = \<lambda>b. case b of Some (JObject [(k, JString email), (k', JString password)]) \<Rightarrow>
       Some \<lparr>log_email = email, log_password = password\<rparr> | _ \<Rightarrow> None,
     ue_read_register = \<lambda>b. None, ue_login_violation = \<lambda>r. [], ue_register_violation = \<lambda>r. []\<rparr>"

definition tagged_spring :: spring where
  "tagged_spring = plain_spring\<lparr>sp_token := \<lambda>subject role now. CHR ''T'' # subject\<rparr>"

definition tagged_js :: js_packages where
  "tagged_js = plain_js\<lparr>js_verify := \<lambda>token secret. case token of
       c # s \<Rightarrow> if c = CHR ''T'' then Inr (JObject [(''sub'', JString s)]) else Inl ''invalid signature'' | [] \<Rightarrow> Inl ''invalid signature''\<rparr>"

definition login_body :: gw_request where
  "login_body = \<lparr>gwr_authorization = None, gwr_id = ''r1'', gwr_param_id = [], gwr_query = [],
     gwr_body = Some (JObject [(''email'', JString ''jane@shop''), (''password'', JString ''Password123!'')])\<rparr>"

lemma decimal_text_no_space: "CHR '' '' \<notin> set (decimal_uuid_string i)"
  using show_nat_digits [of "unat i"] by (auto simp: decimal_uuid_string_def list_all_iff is_digit_def)

lemma tagged_tokens: "accepts_tokens tagged_js plain_config tagged_spring now"
  using decimal_text_no_space
  by (auto simp: accepts_tokens_def Let_def tagged_js_def tagged_spring_def plain_spring_def subject_def)

theorem customer_journey_witness:
  "\<exists>data token st' od w' row its.
      auth_login plain_config (user_exchange tagged_spring plain_user_env (\<lambda>n. Link_up)) login_body
        (0, \<lparr>us_users = seed_accounts, us_tokens = []\<rparr>) = ((200, JObject data), (1, st'))
    \<and> map_of data ''accessToken'' = Some (JString token)
    \<and> orders_post plain_config tagged_js (order_exchange stormy_gin shop_clients catch_all (\<lambda>n. Link_up))
        (order_request token ''r2'' (req_Items shop_request)) (0, start_world empty_db) = ((201, order_json stormy_gin od), (1, w'))
    \<and> stored w' (order_ID od) = Some (row, its) \<and> row_status row = OrderStatusConfirmed \<and> row_user_id row = 1"
proof -
  let ?u = "account 1 ''jane@shop'' ACTIVE" and ?st = "\<lparr>us_users = seed_accounts, us_tokens = []\<rparr>"
  let ?r = "\<lparr>log_email = ''jane@shop'', log_password = ''Password123!''\<rparr>"
  have "accounts_ok ?st" using seed_accounts_distinct by (simp add: accounts_ok_def)
  moreover have "?u \<in> set (us_users ?st)" "usr_status ?u = ACTIVE" by (simp_all add: seed_accounts_def account_def)
  moreover have "ue_read_login plain_user_env (gwr_body login_body) = Some ?r" by (simp add: plain_user_env_def login_body_def)
  moreover have "login_valid tagged_spring ?r" "log_email ?r = usr_email ?u" "sp_matches tagged_spring (log_password ?r) (usr_password_hash ?u)"
    by (simp_all add: login_valid_def tagged_spring_def plain_spring_def account_def)
  moreover note tagged_tokens
  moreover have "can_be_met stormy_gin shop_clients (start_world empty_db) (sp_uuid_text tagged_spring (usr_id ?u)) (req_Items shop_request) shop_product"
    using stormy_meets by (simp add: tagged_spring_def plain_spring_def account_def decimal_one)
  moreover have "binds_json stormy_gin" using gin_binds_json by (simp add: binds_json_def stormy_gin_def)
  moreover have "e_uuid_parse stormy_gin (sp_uuid_text tagged_spring (usr_id ?u)) = Some (usr_id ?u)"
    by (simp add: stormy_gin_def stormy_env_def shop_env_def calm_env_def tagged_spring_def plain_spring_def)
  ultimately show ?thesis
    using customer_journey [of ?st ?u plain_user_env login_body ?r tagged_spring "\<lambda>n. Link_up" 0 tagged_js plain_config stormy_gin shop_clients
        "start_world empty_db" "req_Items shop_request" shop_product catch_all "''r2''" "\<lambda>n. Link_up" 0]
      start_world_ok catch_all_recovers by (simp add: account_def)
qed

end
