(* ===== verification/Notification_Service.thy ===== *)
theory Notification_Service
  imports Api_Gateway
begin

section \<open>The notification service (\<open>notification-service\<close>)\<close>

text \<open>
  E-mails to customers, in TypeScript: the route that takes a notification, \<open>NotificationService.send\<close>, the two e-mail
  providers and the two reads. A notification is a document that is saved twice, before and after the mail; every save may
  fail, with or without its effect. What mongoose makes of a JSON value, where a string is declared or in a
  filter, is a parameter, and so is what comes back from the mail provider.
\<close>

subsection \<open>Data (\<open>models/Notification.ts\<close>, \<open>config.ts\<close>)\<close>

datatype channel = EMAIL | SMS
datatype notification_type = ORDER_CONFIRMED | ORDER_FAILED | PAYMENT_RECEIPT | ACCOUNT_WELCOME
datatype notification_status = Mail_PENDING | Mail_SENT | Mail_FAILED

type_synonym object_id = nat

record notification =
  nt_id :: object_id
  nt_userId :: string
  nt_channel :: channel
  nt_type :: notification_type
  nt_recipient :: string
  nt_subject :: "string option"
  nt_body :: string
  nt_status :: notification_status
  nt_providerMessageId :: "string option"
  nt_failureReason :: "string option"
  nt_attempts :: nat
  nt_createdAt :: time
  nt_updatedAt :: time

text \<open>A request as it was posted: a member that is missing is \<open>None\<close>.\<close>

record notify_request =
  nr_userId :: "json option"
  nr_channel :: "json option"
  nr_type :: "json option"
  nr_recipient :: "json option"
  nr_subject :: "json option"
  nr_body :: "json option"

record mail_config =
  mc_mode :: string
  mc_apiUrl :: string
  mc_apiKey :: string
  mc_retryAttempts :: int

definition envInt :: "(string \<Rightarrow> string option) \<Rightarrow> string \<Rightarrow> int \<Rightarrow> int" where
  "envInt vars name fallback = (case vars name of
       None \<Rightarrow> fallback
     | Some raw \<Rightarrow> if raw = [] then fallback else (case parseInt raw of None \<Rightarrow> fallback | Some i \<Rightarrow> i))"

definition mail_load :: "(string \<Rightarrow> string option) \<Rightarrow> mail_config" where
  "mail_load vars = \<lparr>mc_mode = or_default (vars ''EMAIL_PROVIDER_MODE'') ''simulated'',
     mc_apiUrl = or_default (vars ''EMAIL_PROVIDER_API_URL'') [], mc_apiKey = or_default (vars ''EMAIL_PROVIDER_API_KEY'') [],
     mc_retryAttempts = envInt vars ''EMAIL_PROVIDER_RETRY_ATTEMPTS'' 2\<rparr>"

subsection \<open>What is not the program's\<close>

record mongoose =
  mg_cast :: "json \<Rightarrow> string option"                    \<comment> \<open>to a declared string; \<open>None\<close> is a \<open>CastError\<close>\<close>
  mg_filter :: "json \<Rightarrow> (string \<Rightarrow> bool) option"        \<comment> \<open>a condition on a declared string\<close>
  mg_object_id :: "string \<Rightarrow> object_id option"
  mg_zero :: "string \<Rightarrow> bool"                            \<comment> \<open>a number literal that is 0\<close>

datatype save_fate = Saved | Save_failed | Save_unanswered

text \<open>The end of one exchange with the provider: a response, whose body may not be JSON, or none.\<close>

datatype mail_answer = Mail_response int "json option" | Mail_no_response

record email_post =
  post_url :: string
  post_key :: string
  post_to :: string
  post_subject :: string
  post_body :: string

record mail_env =
  me_id :: "nat \<Rightarrow> object_id"
  me_save :: "nat \<Rightarrow> save_fate"
  me_fetch :: "nat \<Rightarrow> email_post \<Rightarrow> mail_answer"
  me_now :: "nat \<Rightarrow> time"

record mail_world =
  mw_docs :: "notification list"
  mw_created :: nat
  mw_saves :: nat
  mw_posts :: "email_post list"
  mw_waits :: "int list"

subsection \<open>The providers (\<open>services/emailProvider.ts\<close>)\<close>

record send_result =
  sr_delivered :: bool
  sr_messageId :: "json option"
  sr_reason :: "json option"

definition truthy :: "mongoose \<Rightarrow> json option \<Rightarrow> bool" where
  "truthy mg v = (case v of
       None \<Rightarrow> False | Some JNull \<Rightarrow> False | Some (JBool b) \<Rightarrow> b | Some (JNumber n) \<Rightarrow> \<not> mg_zero mg n
     | Some (JString s) \<Rightarrow> s \<noteq> [] | _ \<Rightarrow> True)"

definition js_contains :: "string \<Rightarrow> string \<Rightarrow> bool" where
  "js_contains s part = list_ex (\<lambda>i. take (length part) (drop i s) = part) [0..<Suc (length s)]"

definition simulated_send :: "mail_env \<Rightarrow> string \<Rightarrow> mail_world \<Rightarrow> send_result" where
  "simulated_send E to w =
     (if js_contains to ''+bounce''
      then \<lparr>sr_delivered = False, sr_messageId = None, sr_reason = Some (JString ''recipient_bounced'')\<rparr>
      else \<lparr>sr_delivered = True, sr_messageId = Some (JString (''sim_msg_'' @ show_int (me_now E (mw_saves w)))), sr_reason = None\<rparr>)"

text \<open>A property of a parsed payload that is not \<open>null\<close>.\<close>

definition js_member :: "string \<Rightarrow> json \<Rightarrow> json option" where
  "js_member k j = (case j of JObject kvs \<Rightarrow> map_of kvs k | _ \<Rightarrow> None)"

text \<open>The body of the loop after \<open>fetch\<close>: \<open>None\<close> goes on to the next attempt. A payload that is no JSON is \<open>{}\<close> for a refusal and
  an exception for a success; a payload \<open>null\<close> is an exception for both.\<close>

definition read_answer :: "mongoose \<Rightarrow> mail_answer \<Rightarrow> send_result option" where
  "read_answer mg a = (case a of
       Mail_no_response \<Rightarrow> None
     | Mail_response status payload \<Rightarrow>
         if 500 \<le> status then None
         else if \<not> (200 \<le> status \<and> status \<le> 299) then
           (if payload = Some JNull then None
            else let reason = (case payload of None \<Rightarrow> None | Some j \<Rightarrow> js_member ''reason'' j)
                 in Some \<lparr>sr_delivered = False, sr_messageId = None, sr_reason = Some (if truthy mg reason then the reason
                      else JString (''provider_error_'' @ show_int status))\<rparr>)
         else (case payload of
             None \<Rightarrow> None
           | Some JNull \<Rightarrow> None
           | Some j \<Rightarrow> Some \<lparr>sr_delivered = True, sr_messageId = js_member ''messageId'' j, sr_reason = None\<rparr>))"

definition mail_attempt :: "mail_env \<Rightarrow> email_post \<Rightarrow> nat \<Rightarrow> mail_world \<Rightarrow> mail_answer \<times> mail_world" where
  "mail_attempt E p attempt w =
     (me_fetch E (length (mw_posts w)) p,
      w\<lparr>mw_waits := (if 0 < attempt then mw_waits w @ [200 * 2 ^ (attempt - 1)] else mw_waits w), mw_posts := mw_posts w @ [p]\<rparr>)"

function live_send :: "mongoose \<Rightarrow> mail_config \<Rightarrow> mail_env \<Rightarrow> email_post \<Rightarrow> nat \<Rightarrow> mail_world \<Rightarrow> send_result \<times> mail_world" where
  "live_send mg cfg E p attempt w =
     (if int attempt \<le> mc_retryAttempts cfg
      then (case mail_attempt E p attempt w of (answer, w1) \<Rightarrow>
        (case read_answer mg answer of Some result \<Rightarrow> (result, w1) | None \<Rightarrow> live_send mg cfg E p (Suc attempt) w1))
      else (\<lparr>sr_delivered = False, sr_messageId = None, sr_reason = Some (JString ''provider_unavailable'')\<rparr>, w))"
  by pat_completeness auto

termination
  by (relation "measure (\<lambda>(mg, cfg, E, p, attempt, w). nat (mc_retryAttempts cfg + 1 - int attempt))") auto

declare live_send.simps [simp del]

definition mail_post :: "mail_config \<Rightarrow> notification \<Rightarrow> email_post" where
  "mail_post cfg d = \<lparr>post_url = mc_apiUrl cfg @ ''/v1/mail/send'', post_key = ''Bearer '' @ mc_apiKey cfg,
     post_to = nt_recipient d, post_subject = (case nt_subject d of None \<Rightarrow> [] | Some s \<Rightarrow> s), post_body = nt_body d\<rparr>"

definition provider_send :: "mongoose \<Rightarrow> mail_config \<Rightarrow> mail_env \<Rightarrow> notification \<Rightarrow> mail_world \<Rightarrow> send_result \<times> mail_world" where
  "provider_send mg cfg E d w =
     (if mc_mode cfg = ''live'' then live_send mg cfg E (mail_post cfg d) 0 w else (simulated_send E (nt_recipient d) w, w))"

subsection \<open>\<open>NotificationService.send\<close>\<close>

definition channel_of :: "string \<Rightarrow> channel option" where
  "channel_of s = (if s = ''EMAIL'' then Some EMAIL else if s = ''SMS'' then Some SMS else None)"

definition type_of :: "string \<Rightarrow> notification_type option" where
  "type_of s = (if s = ''ORDER_CONFIRMED'' then Some ORDER_CONFIRMED else if s = ''ORDER_FAILED'' then Some ORDER_FAILED
     else if s = ''PAYMENT_RECEIPT'' then Some PAYMENT_RECEIPT else if s = ''ACCOUNT_WELCOME'' then Some ACCOUNT_WELCOME else None)"

text \<open>A declared string that may be missing; \<open>None\<close> is a \<open>CastError\<close>.\<close>

definition cast_optional :: "mongoose \<Rightarrow> json option \<Rightarrow> string option option" where
  "cast_optional mg v = (case v of
       None \<Rightarrow> Some None | Some JNull \<Rightarrow> Some None | Some j \<Rightarrow> map_option Some (mg_cast mg j))"

text \<open>One that is required: it must be there and not be empty.\<close>

definition cast_required :: "mongoose \<Rightarrow> json option \<Rightarrow> string option" where
  "cast_required mg v = (case cast_optional mg v of Some (Some s) \<Rightarrow> if s = [] then None else Some s | _ \<Rightarrow> None)"

text \<open>The document of a request, if it is valid.\<close>

definition new_notification :: "mongoose \<Rightarrow> object_id \<Rightarrow> time \<Rightarrow> notify_request \<Rightarrow> notification option" where
  "new_notification mg i now r =
     Option.bind (cast_required mg (nr_userId r)) (\<lambda>userId.
     Option.bind (Option.bind (cast_required mg (nr_channel r)) channel_of) (\<lambda>channel.
     Option.bind (Option.bind (cast_required mg (nr_type r)) type_of) (\<lambda>type.
     Option.bind (cast_required mg (nr_recipient r)) (\<lambda>recipient.
     Option.bind (cast_optional mg (nr_subject r)) (\<lambda>subject.
     Option.bind (cast_required mg (nr_body r)) (\<lambda>body.
       Some \<lparr>nt_id = i, nt_userId = userId, nt_channel = channel, nt_type = type, nt_recipient = recipient, nt_subject = subject,
         nt_body = body, nt_status = Mail_PENDING, nt_providerMessageId = None, nt_failureReason = None, nt_attempts = 0,
         nt_createdAt = now, nt_updatedAt = now\<rparr>))))))"

definition put_document :: "notification \<Rightarrow> notification list \<Rightarrow> notification list" where
  "put_document d ds = (if nt_id d \<in> nt_id ` set ds then map (\<lambda>x. if nt_id x = nt_id d then d else x) ds else ds @ [d])"

text \<open>\<open>notification.save()\<close>; \<open>None\<close> when it throws.\<close>

definition save_document :: "mail_env \<Rightarrow> notification \<Rightarrow> mail_world \<Rightarrow> notification option \<times> mail_world" where
  "save_document E d w =
     (let d' = d\<lparr>nt_updatedAt := me_now E (mw_saves w)\<rparr>; w' = w\<lparr>mw_saves := Suc (mw_saves w)\<rparr>;
          stored = w'\<lparr>mw_docs := put_document d' (mw_docs w)\<rparr>
      in case me_save E (mw_saves w) of
          Saved \<Rightarrow> (Some d', stored) | Save_failed \<Rightarrow> (None, w') | Save_unanswered \<Rightarrow> (None, stored))"

definition settled_mail :: "mongoose \<Rightarrow> send_result \<Rightarrow> notification \<Rightarrow> notification option" where
  "settled_mail mg result d =
     (if sr_delivered result
      then map_option (\<lambda>t. d\<lparr>nt_status := Mail_SENT, nt_providerMessageId := t\<rparr>) (cast_optional mg (sr_messageId result))
      else map_option (\<lambda>t. d\<lparr>nt_status := Mail_FAILED, nt_failureReason := t\<rparr>) (cast_optional mg (sr_reason result)))"

definition send_notification ::
  "mongoose \<Rightarrow> mail_config \<Rightarrow> mail_env \<Rightarrow> notify_request \<Rightarrow> mail_world \<Rightarrow> notification option \<times> mail_world" where
  "send_notification mg cfg E r w =
     (let w0 = w\<lparr>mw_created := Suc (mw_created w)\<rparr> in
      case new_notification mg (me_id E (mw_created w)) (me_now E (mw_saves w)) r of
        None \<Rightarrow> (None, w0)
      | Some d \<Rightarrow> (case save_document E d w0 of
            (None, w1) \<Rightarrow> (None, w1)
          | (Some d1, w1) \<Rightarrow>
              if nr_channel r = Some (JString ''SMS'')
              then save_document E (d1\<lparr>nt_status := Mail_FAILED, nt_failureReason := Some ''sms_channel_not_implemented'', nt_attempts := 1\<rparr>) w1
              else (case provider_send mg cfg E (d1\<lparr>nt_attempts := nt_attempts d1 + 1\<rparr>) w1 of (result, w2) \<Rightarrow>
                  (case settled_mail mg result (d1\<lparr>nt_attempts := nt_attempts d1 + 1\<rparr>) of
                     None \<Rightarrow> (None, w2) | Some d2 \<Rightarrow> save_document E d2 w2))))"

subsection \<open>The routes (\<open>routes/notifications.ts\<close>)\<close>

datatype notify_reply = Reply_error int json | Reply_document int notification | Reply_list int "notification list"

definition notify_error :: "string \<Rightarrow> string \<Rightarrow> json" where
  "notify_error code message = JObject [(''error'', JString code), (''message'', JString message)]"

definition internal_error :: notify_reply where
  "internal_error = Reply_error 500 (notify_error ''internal_error'' ''An unexpected error occurred'')"

definition post_notification ::
  "mongoose \<Rightarrow> mail_config \<Rightarrow> mail_env \<Rightarrow> notify_request \<Rightarrow> mail_world \<Rightarrow> notify_reply \<times> mail_world" where
  "post_notification mg cfg E r w =
     (if \<not> truthy mg (nr_userId r) \<or> \<not> truthy mg (nr_channel r) \<or> \<not> truthy mg (nr_type r) \<or> \<not> truthy mg (nr_recipient r)
         \<or> \<not> truthy mg (nr_body r)
      then (Reply_error 400 (notify_error ''validation_error'' ''userId, channel, type, recipient, and body are required''), w)
      else (case send_notification mg cfg E r w of
          (None, w') \<Rightarrow> (internal_error, w')
        | (Some d, w') \<Rightarrow> (Reply_document (if nt_status d = Mail_FAILED then 502 else 201) d, w')))"

definition get_notification :: "mongoose \<Rightarrow> string \<Rightarrow> mail_world \<Rightarrow> notify_reply" where
  "get_notification mg i w = (case mg_object_id mg i of
       None \<Rightarrow> Reply_error 400 (notify_error ''invalid_id'' ''id must be a valid ObjectId'')
     | Some oid \<Rightarrow> (case find (\<lambda>d. nt_id d = oid) (mw_docs w) of
           None \<Rightarrow> Reply_error 404 (notify_error ''notification_not_found'' (''Notification '' @ i @ '' not found''))
         | Some d \<Rightarrow> Reply_document 200 d))"

text \<open>The query parameter is whatever the parser of query strings makes of it: a text, or an object as in \<open>userId[$ne]=x\<close>.
  Nothing checks that it is a text.\<close>

definition list_notifications :: "mongoose \<Rightarrow> json option \<Rightarrow> mail_world \<Rightarrow> notify_reply" where
  "list_notifications mg userId w =
     (if \<not> truthy mg userId then Reply_error 400 (notify_error ''validation_error'' ''userId query param is required'')
      else (case mg_filter mg (the userId) of
          None \<Rightarrow> internal_error
        | Some matches \<Rightarrow> Reply_list 200 (sort_key (\<lambda>d. - nt_createdAt d) (filter (\<lambda>d. matches (nt_userId d)) (mw_docs w)))))"

subsection \<open>What one notification does\<close>

text \<open>How often the live provider is asked, and what its result tells.\<close>

definition mail_accepted :: "mail_answer \<Rightarrow> bool" where
  "mail_accepted a \<longleftrightarrow> (\<exists>status payload. a = Mail_response status payload \<and> 200 \<le> status \<and> status \<le> 299)"

lemma read_answer_delivered: "read_answer mg a = Some result \<Longrightarrow> sr_delivered result \<Longrightarrow> mail_accepted a"
  by (auto simp: read_answer_def mail_accepted_def Let_def split: mail_answer.splits option.splits json.splits if_splits)

lemma live_send_posts:
  assumes "live_send mg cfg E p attempt w = (result, w')"
  shows "\<exists>k. mw_posts w' = mw_posts w @ replicate k p \<and> k \<le> nat (mc_retryAttempts cfg + 1 - int attempt)
    \<and> mw_docs w' = mw_docs w \<and> mw_created w' = mw_created w \<and> mw_saves w' = mw_saves w
    \<and> (sr_delivered result \<longrightarrow> 0 < k \<and> mail_accepted (me_fetch E (length (mw_posts w') - 1) p))"
  using assms
proof (induction mg cfg E p attempt w rule: live_send.induct)
  case (1 mg cfg E p attempt w)
  obtain answer w1 where sent: "mail_attempt E p attempt w = (answer, w1)" by fastforce
  then have same: "answer = me_fetch E (length (mw_posts w)) p" "mw_docs w1 = mw_docs w" "mw_created w1 = mw_created w"
    "mw_saves w1 = mw_saves w" "mw_posts w1 = mw_posts w @ [p]" by (auto simp: mail_attempt_def)
  note run = live_send.simps [of mg cfg E p attempt w, unfolded sent prod.case]
  show ?case
  proof (cases "int attempt \<le> mc_retryAttempts cfg")
    case False
    with "1.prems" run show ?thesis by auto
  next
    case True
    show ?thesis
    proof (cases "read_answer mg answer")
      case (Some res)
      with run True "1.prems" have "result = res" "w' = w1" by auto
      with same True read_answer_delivered [OF Some] show ?thesis by (intro exI [of _ 1]) auto
    next
      case None
      with run True "1.prems" have rest: "live_send mg cfg E p (Suc attempt) w1 = (result, w')" by simp
      from "1.IH" [OF True sent [symmetric] None rest] obtain k where
        k: "mw_posts w' = mw_posts w1 @ replicate k p" "k \<le> nat (mc_retryAttempts cfg + 1 - int (Suc attempt))"
          "mw_docs w' = mw_docs w1" "mw_created w' = mw_created w1" "mw_saves w' = mw_saves w1"
          "sr_delivered result \<longrightarrow> 0 < k \<and> mail_accepted (me_fetch E (length (mw_posts w') - 1) p)" by blast
      with same True show ?thesis by (intro exI [of _ "Suc k"]) auto
    qed
  qed
qed

lemma simulated_accepts: "sr_delivered (simulated_send E to w) \<longleftrightarrow> \<not> js_contains to ''+bounce''"
  by (simp add: simulated_send_def)

text \<open>A mail has a ground to count as sent: the last answer of the live provider was a 2xx, the simulated one does not bounce the
  address.\<close>

definition sent_ground :: "mail_config \<Rightarrow> mail_env \<Rightarrow> notification \<Rightarrow> nat \<Rightarrow> nat \<Rightarrow> bool" where
  "sent_ground cfg E d before after \<longleftrightarrow> (if mc_mode cfg = ''live''
     then before < after \<and> mail_accepted (me_fetch E (after - 1) (mail_post cfg d)) else \<not> js_contains (nt_recipient d) ''+bounce'')"

lemma provider_send_posts:
  assumes "provider_send mg cfg E d w = (result, w')"
  shows "\<exists>k. mw_posts w' = mw_posts w @ replicate k (mail_post cfg d) \<and> k \<le> nat (mc_retryAttempts cfg + 1)
    \<and> (mc_mode cfg \<noteq> ''live'' \<longrightarrow> k = 0) \<and> mw_docs w' = mw_docs w \<and> mw_created w' = mw_created w
    \<and> (sr_delivered result \<longrightarrow> sent_ground cfg E d (length (mw_posts w)) (length (mw_posts w')))"
proof (cases "mc_mode cfg = ''live''")
  case True
  with assms have "live_send mg cfg E (mail_post cfg d) 0 w = (result, w')" by (simp add: provider_send_def)
  from live_send_posts [OF this] True show ?thesis by (auto simp: sent_ground_def)
next
  case False
  with assms show ?thesis
    by (auto simp: provider_send_def sent_ground_def simulated_accepts intro!: exI [of _ 0])
qed

text \<open>The documents other than one, and that one.\<close>

definition others :: "object_id \<Rightarrow> mail_world \<Rightarrow> notification list" where
  "others i w = filter (\<lambda>d. nt_id d \<noteq> i) (mw_docs w)"

definition own :: "object_id \<Rightarrow> mail_world \<Rightarrow> notification set" where
  "own i w = {d \<in> set (mw_docs w). nt_id d = i}"

lemma put_document_others: "filter (\<lambda>x. nt_id x \<noteq> nt_id d) (put_document d ds) = filter (\<lambda>x. nt_id x \<noteq> nt_id d) ds"
proof -
  have "filter (\<lambda>x. nt_id x \<noteq> nt_id d) (map (\<lambda>x. if nt_id x = nt_id d then d else x) ds) = filter (\<lambda>x. nt_id x \<noteq> nt_id d) ds"
    by (induction ds) auto
  then show ?thesis by (simp add: put_document_def)
qed

lemma put_document_own: "{x \<in> set (put_document d ds). nt_id x = nt_id d} = {d}"
  by (auto simp: put_document_def image_iff)

lemma save_document_effect:
  assumes "save_document E d w = (res, w')" and "nt_id d = i"
  shows "others i w' = others i w" "mw_posts w' = mw_posts w"
    "\<And>P. (\<forall>x\<in>own i w. P x) \<Longrightarrow> (\<And>t. P (d\<lparr>nt_updatedAt := t\<rparr>)) \<Longrightarrow> \<forall>x\<in>own i w'. P x"
    "\<And>d'. res = Some d' \<Longrightarrow> own i w' = {d'} \<and> (\<exists>t. d' = d\<lparr>nt_updatedAt := t\<rparr>)"
proof -
  define d' where "d' = d\<lparr>nt_updatedAt := me_now E (mw_saves w)\<rparr>"
  have d': "nt_id d' = i" using assms(2) by (simp add: d'_def)
  from assms(1) have posts: "mw_posts w' = mw_posts w"
    and ends: "mw_docs w' = mw_docs w \<and> res = None \<or> mw_docs w' = put_document d' (mw_docs w) \<and> (res = None \<or> res = Some d')"
    by (auto simp: save_document_def Let_def d'_def split: save_fate.splits)
  from posts show "mw_posts w' = mw_posts w" .
  have stored: "others i w' = others i w" "own i w' = {d'}" if "mw_docs w' = put_document d' (mw_docs w)"
    using put_document_others [of d' "mw_docs w"] put_document_own [of d' "mw_docs w"] that by (simp_all add: others_def own_def d')
  from ends stored(1) show "others i w' = others i w" by (auto simp: others_def)
  show "\<forall>x\<in>own i w'. P x" if "\<forall>x\<in>own i w. P x" and "\<And>t. P (d\<lparr>nt_updatedAt := t\<rparr>)" for P
    using ends
  proof
    assume "mw_docs w' = mw_docs w \<and> res = None"
    with that(1) show ?thesis by (simp add: own_def)
  next
    assume "mw_docs w' = put_document d' (mw_docs w) \<and> (res = None \<or> res = Some d')"
    with stored(2) that(2) show ?thesis by (simp add: d'_def)
  qed
  show "own i w' = {x} \<and> (\<exists>t. x = d\<lparr>nt_updatedAt := t\<rparr>)" if "res = Some x" for x
    using ends stored(2) that by (auto simp only: d'_def option.inject option.distinct)
qed

lemma new_notification_Some:
  "new_notification mg i now r = Some d \<Longrightarrow> nt_id d = i \<and> nt_status d = Mail_PENDING"
  by (auto simp: new_notification_def split: bind_splits)

lemma settled_mail_Some:
  "settled_mail mg result d = Some d2 \<Longrightarrow> nt_id d2 = nt_id d \<and> mail_post cfg d2 = mail_post cfg d \<and> nt_recipient d2 = nt_recipient d
    \<and> nt_status d2 \<noteq> Mail_PENDING \<and> (nt_status d2 = Mail_SENT \<longrightarrow> sr_delivered result)"
  by (auto simp: settled_mail_def mail_post_def split: if_splits)

lemma sent_ground_cong:
  "mail_post cfg d2 = mail_post cfg d \<Longrightarrow> nt_recipient d2 = nt_recipient d \<Longrightarrow> sent_ground cfg E d2 m n = sent_ground cfg E d m n"
  by (simp add: sent_ground_def)

lemma mail_post_simps [simp]:
  "mail_post cfg (d\<lparr>nt_updatedAt := t\<rparr>) = mail_post cfg d" "mail_post cfg (d\<lparr>nt_attempts := n\<rparr>) = mail_post cfg d"
  "sent_ground cfg E (d\<lparr>nt_updatedAt := t\<rparr>) a b = sent_ground cfg E d a b"
  by (simp_all add: mail_post_def sent_ground_def)

text \<open>C34. What one notification does: it sends at most \<open>EMAIL_PROVIDER_RETRY_ATTEMPTS\<close> + 1 mails, all the same, and none by SMS or with the
  simulated provider; it touches no other document; and whatever saves fail, its document says SENT only when the
  provider has accepted the last mail. When the call returns, the document is stored as it is returned, settled, and the
  mails are its own.\<close>

theorem notification_outcome:
  assumes "send_notification mg cfg E r w = (res, w')" and "i = me_id E (mw_created w)" and "i \<notin> nt_id ` set (mw_docs w)"
  shows "\<exists>k p. mw_posts w' = mw_posts w @ replicate k p \<and> k \<le> nat (mc_retryAttempts cfg + 1)
    \<and> (mc_mode cfg \<noteq> ''live'' \<or> nr_channel r = Some (JString ''SMS'') \<longrightarrow> k = 0)
    \<and> others i w' = mw_docs w
    \<and> (\<forall>d\<in>own i w'. nt_status d = Mail_SENT \<longrightarrow> sent_ground cfg E d (length (mw_posts w)) (length (mw_posts w')))
    \<and> (\<forall>d. res = Some d \<longrightarrow> own i w' = {d} \<and> nt_status d \<noteq> Mail_PENDING \<and> (0 < k \<longrightarrow> p = mail_post cfg d))"
proof -
  let ?w0 = "w\<lparr>mw_created := Suc (mw_created w)\<rparr>"
  have fresh: "own i w = {}" "others i w = mw_docs w" "own i ?w0 = {}" "others i ?w0 = mw_docs w"
    using assms(3) by (auto simp: own_def others_def filter_id_conv)
  show ?thesis
  proof (cases "new_notification mg i (me_now E (mw_saves w)) r")
    case None
    with assms(1,2) have "res = None" "w' = ?w0" by (auto simp: send_notification_def Let_def)
    with fresh show ?thesis by (intro exI [of _ 0]) simp
  next
    case (Some d)
    from new_notification_Some [OF this] have d: "nt_id d = i" "nt_status d = Mail_PENDING" by auto
    obtain first w1 where save1: "save_document E d ?w0 = (first, w1)" by fastforce
    note e1 = save_document_effect [OF this d(1)]
    have pending: "\<forall>x\<in>own i w1. nt_status x \<noteq> Mail_SENT" by (rule e1(3)) (simp_all add: fresh(3) d(2))
    show ?thesis
    proof (cases first)
      case None
      with assms(1,2) \<open>new_notification _ _ _ _ = _\<close> save1 have "res = None" "w' = w1" by (auto simp: send_notification_def Let_def)
      with e1 fresh pending show ?thesis by (intro exI [of _ 0]) simp
    next
      case (Some d1)
      with e1(4) d(1) have d1: "nt_id d1 = i" by fastforce
      show ?thesis
      proof (cases "nr_channel r = Some (JString ''SMS'')")
        case True
        let ?d2 = "d1\<lparr>nt_status := Mail_FAILED, nt_failureReason := Some ''sms_channel_not_implemented'', nt_attempts := 1\<rparr>"
        have save2: "save_document E ?d2 w1 = (res, w')"
          using assms(1,2) \<open>new_notification _ _ _ _ = _\<close> save1 Some True by (simp add: send_notification_def Let_def)
        note e2 = save_document_effect [OF save2, simplified, OF d1]
        have "\<forall>x\<in>own i w'. nt_status x \<noteq> Mail_SENT" by (rule e2(3)) (use pending in simp_all)
        with e1(1,2) e2(1,2) fresh show ?thesis by (intro exI [of _ 0]) (auto dest: e2(4))
      next
        case False
        let ?d2 = "d1\<lparr>nt_attempts := nt_attempts d1 + 1\<rparr>"
        obtain result w2 where mail: "provider_send mg cfg E ?d2 w1 = (result, w2)" by fastforce
        from provider_send_posts [OF this] obtain k where k: "mw_posts w2 = mw_posts w1 @ replicate k (mail_post cfg ?d2)"
          "k \<le> nat (mc_retryAttempts cfg + 1)" "mc_mode cfg \<noteq> ''live'' \<longrightarrow> k = 0" "mw_docs w2 = mw_docs w1"
          "sr_delivered result \<longrightarrow> sent_ground cfg E ?d2 (length (mw_posts w1)) (length (mw_posts w2))" by blast
        have same: "own i w2 = own i w1" "others i w2 = others i w1" using k(4) by (simp_all add: own_def others_def)
        show ?thesis
        proof (cases "settled_mail mg result ?d2")
          case None
          with assms(1,2) \<open>new_notification _ _ _ _ = _\<close> save1 Some False mail have "res = None" "w' = w2"
            by (auto simp: send_notification_def Let_def)
          with k e1 fresh pending same False show ?thesis by (intro exI [of _ k] exI [of _ "mail_post cfg ?d2"]) simp
        next
          case settled: (Some d3)
          from settled_mail_Some [OF this] have d3: "nt_id d3 = i" "mail_post cfg d3 = mail_post cfg ?d2"
            "nt_recipient d3 = nt_recipient ?d2" "nt_status d3 \<noteq> Mail_PENDING" "nt_status d3 = Mail_SENT \<longrightarrow> sr_delivered result"
            using d1 by auto
          have save3: "save_document E d3 w2 = (res, w')"
            using assms(1,2) \<open>new_notification _ _ _ _ = _\<close> save1 Some False mail settled
            by (simp add: send_notification_def Let_def)
          note e3 = save_document_effect [OF this d3(1)]
          have ground: "nt_status d3 = Mail_SENT \<longrightarrow> sent_ground cfg E d3 (length (mw_posts w)) (length (mw_posts w'))"
            using k(5) d3(5) sent_ground_cong [OF d3(2,3)] e1(2) e3(2) by simp
          have "\<forall>x\<in>own i w'. nt_status x = Mail_SENT \<longrightarrow> sent_ground cfg E x (length (mw_posts w)) (length (mw_posts w'))"
            by (rule e3(3)) (use pending same(1) ground in simp_all)
          moreover have "own i w' = {x} \<and> nt_status x \<noteq> Mail_PENDING \<and> mail_post cfg ?d2 = mail_post cfg x" if "res = Some x" for x
            using e3(4) [OF that] d3(2,4) by auto
          ultimately show ?thesis using k(1-3) e1 e3(1,2) fresh same False
            by (intro exI [of _ k] exI [of _ "mail_post cfg ?d2"]) simp
        qed
      qed
    qed
  qed
qed

subsection \<open>Concrete runs\<close>

definition plain_mongoose :: mongoose where
  "plain_mongoose = \<lparr>mg_cast = \<lambda>j. case j of JString s \<Rightarrow> Some s | _ \<Rightarrow> None,
     mg_filter = \<lambda>j. case j of JString s \<Rightarrow> Some (\<lambda>u. u = s)
       | JObject [(op, JString s)] \<Rightarrow> if op = ''$ne'' then Some (\<lambda>u. u \<noteq> s) else None | _ \<Rightarrow> None,
     mg_object_id = \<lambda>s. None, mg_zero = \<lambda>n. n = ''0''\<rparr>"

definition greeting :: "string \<Rightarrow> notify_request" where
  "greeting user = \<lparr>nr_userId = Some (JString user), nr_channel = Some (JString ''EMAIL''), nr_type = Some (JString ''ACCOUNT_WELCOME''),
     nr_recipient = Some (JString ''jane@shop''), nr_subject = None, nr_body = Some (JString ''Hello'')\<rparr>"

definition mail_server :: "(nat \<Rightarrow> mail_answer) \<Rightarrow> mail_env" where
  "mail_server answers = \<lparr>me_id = \<lambda>n. n, me_save = \<lambda>n. Saved, me_fetch = \<lambda>n p. answers n, me_now = int\<rparr>"

definition live_config :: mail_config where
  "live_config = mail_load [''EMAIL_PROVIDER_MODE'' \<mapsto> ''live'', ''EMAIL_PROVIDER_API_URL'' \<mapsto> ''http://mail'',
     ''EMAIL_PROVIDER_API_KEY'' \<mapsto> ''key'']"

definition empty_mail :: mail_world where
  "empty_mail = \<lparr>mw_docs = [], mw_created = 0, mw_saves = 0, mw_posts = [], mw_waits = []\<rparr>"

lemma live_config_simps [simp]:
  "mc_mode live_config = ''live''" "mc_retryAttempts live_config = 2" "mc_apiUrl live_config = ''http://mail''" "mc_apiKey live_config = ''key''"
  by (simp_all add: live_config_def mail_load_def envInt_def or_default_def)

lemmas mail_run_simps = Let_def send_notification_def new_notification_def cast_required_def cast_optional_def channel_of_def type_of_def
  save_document_def put_document_def provider_send_def mail_attempt_def mail_post_def settled_mail_def read_answer_def js_member_def
  greeting_def plain_mongoose_def mail_server_def empty_mail_def

text \<open>The first answer is lost, the second a 202: two mails, and SENT.\<close>

definition second_time :: "nat \<Rightarrow> mail_answer" where
  "second_time n = (if n = 0 then Mail_no_response else Mail_response 202 (Some (JObject [(''messageId'', JString ''m1'')])))"

theorem notification_outcome_witness:
  "\<exists>d w'. send_notification plain_mongoose live_config (mail_server second_time) (greeting ''1'') empty_mail = (Some d, w')
    \<and> nt_status d = Mail_SENT \<and> own 0 w' = {d} \<and> length (mw_posts w') = 2 \<and> mail_accepted (second_time 1)"
proof -
  obtain d w' where run: "send_notification plain_mongoose live_config (mail_server second_time) (greeting ''1'') empty_mail = (Some d, w')"
    and "nt_status d = Mail_SENT" "length (mw_posts w') = 2"
    by (simp add: mail_run_simps second_time_def live_send.simps [of _ _ _ _ 0] live_send.simps [of _ _ _ _ "Suc 0"])
  moreover from notification_outcome [OF run refl] have "own 0 w' = {d}"
    and "nt_status d = Mail_SENT \<longrightarrow> sent_ground live_config (mail_server second_time) d 0 (length (mw_posts w'))"
    by (auto simp: mail_server_def empty_mail_def)
  ultimately show ?thesis by (auto simp: sent_ground_def mail_server_def)
qed

text \<open>Three mails, and FAILED: the provider accepts every one, but a 2xx whose body is no JSON is an exception, which the loop takes for
  a failure of the network.\<close>

lemma mail_repeated:
  "\<exists>d w'. send_notification plain_mongoose live_config (mail_server (\<lambda>n. Mail_response 202 None)) (greeting ''1'') empty_mail = (Some d, w')
    \<and> length (mw_posts w') = 3 \<and> mw_waits w' = [200, 400] \<and> nt_status d = Mail_FAILED \<and> nt_failureReason d = Some ''provider_unavailable''"
  by (simp add: mail_run_simps live_send.simps [of _ _ _ _ 0] live_send.simps [of _ _ _ _ "Suc 0"] live_send.simps [of _ _ _ _ "Suc (Suc 0)"]
      live_send.simps [of _ _ _ _ "Suc (Suc (Suc 0))"])

text \<open>Whose notifications a list shows: with \<open>userId[$ne]=x\<close> those of everybody else.\<close>

lemma list_of_others:
  assumes "mg_filter mg (JObject [(''$ne'', JString x)]) = Some (\<lambda>u. u \<noteq> x)"
  shows "\<exists>ds. list_notifications mg (Some (JObject [(''$ne'', JString x)])) w = Reply_list 200 ds
    \<and> set ds = {d \<in> set (mw_docs w). nt_userId d \<noteq> x}"
  using assms by (auto simp: list_notifications_def truthy_def)

text \<open>What a request with a text for the user shows: the notifications of that user, the newest first.\<close>

lemma list_of_user:
  assumes "mg_filter mg (JString u) = Some (\<lambda>v. v = u)" and "u \<noteq> []"
  shows "\<exists>ds. list_notifications mg (Some (JString u)) w = Reply_list 200 ds \<and> sorted_wrt (\<lambda>d e. nt_createdAt e \<le> nt_createdAt d) ds
    \<and> mset ds = filter_mset (\<lambda>d. nt_userId d = u) (mset (mw_docs w))"
proof -
  have "sorted_wrt (\<lambda>d e. nt_createdAt e \<le> nt_createdAt d) (sort_key (\<lambda>d. - nt_createdAt d) xs)" for xs
    using sorted_sort_key [of "\<lambda>d. - nt_createdAt d" xs] by (simp add: sorted_map)
  with assms show ?thesis by (simp add: list_notifications_def truthy_def mset_filter)
qed

text \<open>Before anything is stored a request must name five texts; a 502 is the answer for one that is stored as FAILED.\<close>

lemma post_notification_replies:
  assumes "post_notification mg cfg E r w = (reply, w')"
  shows "(\<exists>j. reply = Reply_error 400 j \<and> w' = w) \<or> reply = internal_error
    \<or> (\<exists>d. reply = Reply_document 201 d \<and> nt_status d \<noteq> Mail_FAILED) \<or> (\<exists>d. reply = Reply_document 502 d \<and> nt_status d = Mail_FAILED)"
  using assms by (auto simp: post_notification_def split: if_splits option.splits prod.splits)

end
