(* ===== verification/Spec2Isabelle.thy ===== *)
theory Spec2Isabelle
  imports Order_Payments Order_Reads Server_Main Platform Notification_Service
begin

text \<open>
  \<^bold>\<open>The order service of the shop platform.\<close> The platform has six services; this development verifies its Go service,
  \<open>src/order-service\<close>, from the environment variables of the process to the rows of its tables, and the parts of its neighbours that
  an order passes through. A customer posts an order to the api-gateway, which checks the token and passes it on; the
  order service checks the user with user-service, prices every line with product-service, stores the order as PENDING in one
  transaction, charges it with payment-service and records CONFIRMED or FAILED. For the theorems on the order service alone
  what the other services answer is a parameter, and every property holds for all answers unless it says otherwise. The
  theories of the other services model their code and are joined to it: the charge path of \<open>src/payment-service\<close>, the order
  routes of \<open>src/api-gateway\<close>, the accounts and tokens of \<open>src/user-service\<close>, the catalog of \<open>src/product-service\<close>.

  \<^bold>\<open>How the code is modelled.\<close> A Go function is a HOL function in the monad \<open>io\<close> of \<open>Order_Prelude\<close>: it takes a state and
  returns its value or a panic, with the new state. The state is the record \<open>world\<close> of \<open>Go_World\<close>: the tables, the trace of
  the effects (requests, answers, closed bodies, waits, log lines) and counters of the calls made so far. What a call
  outside the program does is a function of its counter in the record \<open>env\<close>: the network's answer to the n-th
  request, the failure of the n-th statement (with or without its effect), the time at the n-th reading of the clock, the
  n-th new UUID. Every theorem that quantifies over \<open>env\<close> thus covers every behaviour of network, database and clock. A
  Go \<open>int\<close> is a 64 word that wraps, a \<open>time.Duration\<close> too; errors are values with identity and wrapping, as
  \<open>errors.Is\<close> sees them; strings are lists of bytes.

  \<^bold>\<open>The theories, in the order of the code.\<close>
  \<^item> \<open>Order_Prelude\<close>: the monad with its rules (results, frame conditions \<open>preserves\<close>, termination \<open>returns\<close>), words, maps.
  \<^item> \<open>Go_Errors\<close>, \<open>Go_Json\<close>, \<open>Go_World\<close>: sentinels and wrapping (\<open>service/errors.go\<close>), \<open>strconv\<close>, decoding by
    \<open>encoding/json\<close> of parsed JSON into struct fields, the world and the primitive effects.
  \<^item> \<open>Order_Models\<close> (\<open>models/order.go\<close>), \<open>Order_Schema\<close> (\<open>migrations/0001_init.up.sql\<close>): the structs, and the tables with
    their keys, checks and column widths.
  \<^item> \<open>Resilient_Client\<close> (\<open>client/http_client.go\<close>): the retry loop, as the code has it and as an inductive relation
    \<open>retry_run\<close>, which its properties are inductions over.
  \<^item> \<open>Service_Interfaces\<close>: the Go interfaces as records of operations, and a locale for each with the laws of a provider;
    \<open>Service_Clients\<close> (the user, product and payment clients) and \<open>Order_Repository\<close> (\<open>repository\<close>) interpret them.
  \<^item> \<open>Order_Service\<close> (\<open>service/order_service.go\<close>): \<open>CreateOrder\<close>, \<open>GetOrder\<close>, \<open>ListOrdersByUser\<close> over any providers. The
    locale \<open>order_service_contract\<close> proves all the ways an order can end from the laws alone; \<open>Order_App\<close> interprets it
    with the clients and the repository and states the properties of the whole. \<open>Order_Progress\<close> shows that orders return
    and succeed.
  \<^item> \<open>Order_Handlers\<close> (\<open>handlers\<close>): the five handlers on a context record, and their replies.
  \<^item> \<open>Order_Server\<close> (\<open>middleware\<close>, routes): the chain around a handler, the states a server reaches that serves one request
    after another, and the invariant of stored orders and charges.
  \<^item> \<open>Order_Steps\<close>: \<open>CreateOrder\<close> split at its calls, shown to be the code when it is not interrupted. \<open>Order_Concurrency\<close>: any
    number of requests that overlap, each making its calls between those of the others, and the invariant of all
    interleavings. \<open>Order_Spec\<close>: the contract of the service as an abstract shop with three kinds of steps, and the proof
    that the interleavings refine it. \<open>Order_Reads\<close>: a read split at its two queries, between which orders are placed.
  \<^item> \<open>Payment_Service\<close> (\<open>PaymentsController.Charge\<close>, \<open>PaymentProcessingService.ChargeAsync\<close>, \<open>migrations/001_init.sql\<close>, the gateway clients): a
    charge as phases between its calls of the database and of the gateway client, the interleavings of any number of charges,
    and their invariant. \<open>Order_Payments\<close>: the payment service that receives the charges of the order service.
  \<^item> \<open>Order_Binding\<close>: \<open>c.ShouldBindJSON\<close> on the body of an order, with what a caller can see of \<open>encoding/json\<close>.
  \<^item> \<open>Api_Gateway\<close> (\<open>middleware/auth.js\<close>, the \<open>routes\<close>, \<open>services/httpClient.js\<close>, \<open>errorHandler.js\<close>, \<open>config/index.js\<close>): a route as
    a function on the state of the service behind it, its retries included, and the locale \<open>upstream\<close> of what a repeated call may
    do. \<open>Gateway_Orders\<close> joins it to the chain of \<open>Order_Server\<close>, \<open>Gateway_Users\<close> to the controllers of the user service;
    both interpret the locale.
  \<^item> \<open>User_Service\<close> (\<open>UserService.java\<close>, the controllers, \<open>GlobalExceptionHandler.java\<close>, \<open>V1__init_users_table.sql\<close>): registration in two
    steps, login, lookup; the reachable states with the tokens issued. \<open>Product_Service\<close> (\<open>services/product_service.py\<close>, the
    schemas, \<open>models.py\<close>, the migration): the catalog with updates that read and commit in two steps, and its invariant.
    \<open>Notification_Service\<close> (\<open>services/notificationService.ts\<close>, \<open>services/emailProvider.ts\<close>, \<open>routes/notifications.ts\<close>): a notification with
    its two saves and the mails between them; no other service calls it. \<open>Platform\<close> states what holds of an order across gateway, order, user and product service.
  \<^item> \<open>Order_Config\<close> (\<open>config\<close>), \<open>Server_Main\<close> (\<open>cmd/server/main.go\<close>): the settings, boot, run and shutdown. This theory
    joins them with the chain: properties from the environment variables to the answers.

  \<^bold>\<open>What is shown.\<close>
  \<^item> Safety of orders and money, for all interleavings of requests: every charge is for a stored order, with its id and total;
    an order is charged by copies of one request, at most \<open>retryAttempts + 1\<close> of them; the tables satisfy their
    constraints and hold sound orders; requests do not disturb each other's orders, the
    status of an order is for good what its request recorded, and a read that overlaps with them is not torn. For one request: a refused order leaves
    no trace, and \<open>Create\<close> is atomic.
  \<^item> Across both services: the gateway client is called at most once for an order, for its stored total, and for an order that is
    stored as confirmed it was called exactly once and approved; a stored result is final and is what every repetition gets; but an
    approved charge whose result cannot be saved stays pending for good.
  \<^item> Across the platform: an order that comes through the gateway belongs to an account of the user service that was issued the token of
    the request, if no property of the body reads \<open>userId\<close> in another case; an order that is accepted has a user with an account
    and items with the SKU, price and stock of active rows of the catalog; who logs in through the gateway can order with the token
    he gets; the catalog keeps its keys, ranges and rows; a
    notification says SENT only when the provider has accepted its mail.
  \<^item> Functional behaviour: the outcome of a placed order by the last exchange of its charge, its row, items and total to the last field,
    by the fate of its last statement; every reply of every handler, a refusal by the exchange that caused it; the decoding of answers, configuration, boot and exit.
  \<^item> Progress: requests return, end within \<open>2 n + 8\<close> turns whatever the others do, orders that can be met are confirmed even when
    the network fails as often as the retries allow, every request of a started server is answered.
  \<^item> Equivalence and refinement: every interleaving of the service is a run of the abstract shop, in which an order is placed once, charged
    only while it is unpaid, and settled once, as confirmed only after a charge; what the shop promises of the life of an order
    holds for the rows of the tables. The retry loop against a search for the first exchange that is not transient; the tables
    against the order that was returned.
  \<^item> Behaviour the code has and may not intend, stated as it is: a negative retry count makes every order panic; a
    confirmed order may stay pending; an unreachable payment-service is reported as a declined payment; a suspended account
    may order; the stock is checked per line; the connection string is ambiguous; the gateway repeats the POST of an order, so one
    order may become two; a body with \<open>USERID\<close> places an order for someone else; any valid token reads any
    order and any account; a mail that the
    provider accepts is repeated, and reported as failed, if the answer is not JSON.

  \<^bold>\<open>Bounds.\<close> There is no fuel: the retry loop terminates by the measure \<open>retryAttempts + 1 - attempt\<close>, every other loop
  is structural. The counter of the retry loop is an integer, which is exact because it stays within \<open>retryAttempts + 1\<close>, unless
  \<open>retryAttempts\<close> is the largest \<open>int\<close>: there the counter of the code wraps and its loop never ends.

  \<^bold>\<open>What is relied on\<close>, each a hypothesis where it is used: gin's binding rejects a body whose tags fail
  (\<open>binding_checked\<close>), and where the gateway is in front it is the binding of \<open>Order_Binding\<close> (\<open>binds_json\<close>); \<open>gin.Recovery\<close> turns a panic into a 500 and leaves the state (\<open>recovers\<close>); a request comes with
  a context that is not yet written to (\<open>fresh_context\<close>); the text of a UUID determines it and is not blank (\<open>texts_visible\<close>); .NET reads the body of a charge as it was
  written (\<open>reads_charges\<close>); an answer to a charge is one that payment-service gave for its key (\<open>answers_carried\<close>); a token that the gateway's secret
  verifies was issued by the user service and names its account (\<open>genuine_tokens\<close>); a 200 for a user or a product is what that
  service answers in one of its states (\<open>serves_users\<close>, \<open>serves_products\<close>); a token that was just issued verifies (\<open>accepts_tokens\<close>); the libraries that read one text as a UUID read the same
  one, and read what they wrote (\<open>ids_agree\<close>).

  \<^bold>\<open>Not modelled.\<close> Steps of other requests within a transaction or within one call of a client: the database runs a
  transaction as if alone, and a client does not touch the tables. The parsing of JSON text (bodies come parsed or as the parser's error), the text of timestamps, the parser of \<open>google/uuid\<close>, and the code of gin,
  pgx and net/http are parameters. Indexes of the tables have no effect on results. Of
  api-gateway the rate limit, the headers of helmet and cors, start and shutdown, and the escaping of URLs are not modelled; of user-service the wiring by Spring and the expiry of tokens (verification is a parameter); of product-service the
  health routes, the request log and the reading of bodies by pydantic; of notification-service the start, the health routes and the
  shutdown. Of payment-service, the start-up is not
  modelled: a call of \<open>IPaymentGatewayClient.ChargeAsync\<close> is one step with any outcome, of which the two clients (\<open>simulated_charge\<close>,
  \<open>live_charge\<close>) give some, and the policy that repeats the POST of the live client within that step is a third party's. The tests of the service are not
  part of the program.
\<close>

section \<open>Properties of the started server\<close>

text \<open>What a log handler with a given threshold prints of one more line.\<close>

lemma printed_append: "printed l (es @ fs) = printed l es @ printed l fs"
  by (simp add: printed_def)

lemma printed_line:
  "printed (parseLevel lvl) [EvLog LevelInfo m a] = (if lvl = ''warn'' \<or> lvl = ''error'' then [] else [(LevelInfo, m)])"
  by (auto simp: printed_def parseLevel_def less_eq_log_level_def)

lemma booted:
  assumes "boot drv env = Serves srv"
  shows "rc_retryAttempts (ds_users (srv_downstream srv)) = getEnvInt env ''HTTP_CLIENT_RETRY_ATTEMPTS'' 2"
    and "patient (srv_downstream srv) \<longleftrightarrow> 0 \<le> sint (getEnvInt env ''HTTP_CLIENT_RETRY_ATTEMPTS'' 2)"
    and "srv_log_level srv = parseLevel (getEnv env ''LOG_LEVEL'' ''info'')"
proof -
  from assms obtain cfg where load: "Load env = Inr cfg" and "srv_downstream srv = downstream_of cfg"
    and "srv_log_level srv = parseLevel (cfg_LogLevel cfg)" by (rule boot_Serves_E)
  moreover from load have "cfg_HTTPRetryAttempts cfg = getEnvInt env ''HTTP_CLIENT_RETRY_ATTEMPTS'' 2"
    and "cfg_LogLevel cfg = getEnv env ''LOG_LEVEL'' ''info''" by (auto simp: Load_def Let_def split: if_splits)
  ultimately show "rc_retryAttempts (ds_users (srv_downstream srv)) = getEnvInt env ''HTTP_CLIENT_RETRY_ATTEMPTS'' 2"
    "patient (srv_downstream srv) \<longleftrightarrow> 0 \<le> sint (getEnvInt env ''HTTP_CLIENT_RETRY_ATTEMPTS'' 2)"
    "srv_log_level srv = parseLevel (getEnv env ''LOG_LEVEL'' ''info'')"
    by (simp_all add: patient_downstream_of, simp add: downstream_of_def NewResilientClient_def)
qed

text \<open>C37. Once the server has started, and unless its environment sets a negative retry count, every request to every route is
  answered: its answer carries an \<open>X-Request-Id\<close>, the caller's own if it sent one, and the last thing that happens is
  the logging of one line with the method, the path, the status of the answer and that id. The line is printed unless
  \<open>LOG_LEVEL\<close> is \<open>warn\<close> or \<open>error\<close>.\<close>

theorem started_server_answers:
  assumes "boot drv env = Serves srv" and "recovers recovery" and "fresh_context c"
    and "\<forall>v i. env ''HTTP_CLIENT_RETRY_ATTEMPTS'' = Some v \<longrightarrow> atoi v = Some i \<longrightarrow> 0 \<le> sint i"
  shows "\<exists>w' c' requestID es ms. chain E (srv_downstream srv) recovery ep (w, c) = (Ret (), (w', c'))
    \<and> map_of (ctx_headers c') ''X-Request-Id'' = Some requestID
    \<and> (ctx_header_request_id c \<noteq> [] \<longrightarrow> requestID = ctx_header_request_id c)
    \<and> w_trace w' = es @ [EvLog LevelInfo ''request_completed'' [(''method'', LString (ctx_method c)),
        (''path'', LString (ctx_path c)), (''status'', LInt (sint (ctx_status c'))), (''durationMs'', LInt ms),
        (''requestId'', LString requestID)]]
    \<and> printed (srv_log_level srv) (w_trace w') = printed (srv_log_level srv) es
        @ (if env ''LOG_LEVEL'' \<in> {Some ''warn'', Some ''error''} then [] else [(LevelInfo, ''request_completed'')])"
proof -
  have "0 \<le> sint (getEnvInt env ''HTTP_CLIENT_RETRY_ATTEMPTS'' 2)"
    using assms(4) by (auto simp: getEnvInt_def split: option.split)
  then have "patient (srv_downstream srv)" by (simp add: booted(2) [OF assms(1)])
  from chain_answers [OF this assms(2,3), of E ep w] show ?thesis
    by (force simp: printed_append booted(3) [OF assms(1)] printed_line getEnv_def split: option.splits)
qed

text \<open>C38. A negative retry count disables ordering: the server starts with it, and then every well-formed request to place an order is
  answered with a 500, without a request to any service and without a change of the tables. The handler panics: the answer
  carries the request's id, but the only line logged is the client's, and none says that the request completed.\<close>

theorem negative_retry_count_breaks_orders:
  assumes "boot drv env = Serves srv" and "recovers recovery"
    and "env ''HTTP_CLIENT_RETRY_ATTEMPTS'' = Some v" and "atoi v = Some i" and "sint i < 0"
    and "e_bind E (ctx_body c) = Inr req" and "e_uuid_parse E (req_UserID req) = Some u"
  shows "\<exists>w' c'. chain E (srv_downstream srv) recovery POST_orders (w, c) = (Ret (), (w', c')) \<and> ctx_status c' = 500
    \<and> w_db w' = w_db w \<and> map_of (ctx_headers c') ''X-Request-Id'' = Some (identified E w c)
    \<and> (\<exists>attrs. w_trace w' = w_trace w @ [EvLog LevelError ''downstream call failed after retries'' attrs])"
proof -
  have "v \<noteq> []" using assms(4) by (auto simp: atoi_def)
  with assms(3,4,5) have "sint (rc_retryAttempts (ds_users (srv_downstream srv))) < 0"
    by (simp add: booted(1) [OF assms(1)] getEnvInt_def)
  from negative_retries_chain [OF this assms(6,7,2)] show ?thesis .
qed

subsection \<open>Concrete servers\<close>

definition willing_driver :: database_driver where
  "willing_driver = \<lparr>drv_ParseConfig = (\<lambda>dsn. None), drv_NewWithConfig = (\<lambda>p. None), drv_Ping = (\<lambda>p t. None)\<rparr>"

lemma willing_boot: "\<exists>srv. boot willing_driver env = Serves srv"
  using Load_Inr [of env] by (auto simp: boot_def willing_driver_def)

theorem started_server_answers_witness:
  "\<exists>srv w' c' requestID. boot willing_driver (\<lambda>k. None) = Serves srv
    \<and> chain shop_env (srv_downstream srv) catch_all POST_orders (start_world empty_db, shop_context) = (Ret (), (w', c'))
    \<and> map_of (ctx_headers c') ''X-Request-Id'' = Some requestID \<and> printed (srv_log_level srv) (w_trace w') \<noteq> []"
proof -
  obtain srv where srv: "boot willing_driver (\<lambda>k. None) = Serves srv" using willing_boot by blast
  with started_server_answers [OF srv catch_all_recovers shop_fresh, of shop_env POST_orders "start_world empty_db"]
  show ?thesis by fastforce
qed

theorem negative_retry_count_breaks_orders_witness:
  "\<exists>srv w' c'. boot willing_driver [''HTTP_CLIENT_RETRY_ATTEMPTS'' \<mapsto> ''-1''] = Serves srv
    \<and> chain shop_env (srv_downstream srv) catch_all POST_orders (start_world empty_db, shop_context) = (Ret (), (w', c'))
    \<and> ctx_status c' = 500 \<and> w_db w' = empty_db"
proof -
  let ?env = "[''HTTP_CLIENT_RETRY_ATTEMPTS'' \<mapsto> ''-1'']"
  obtain srv where srv: "boot willing_driver ?env = Serves srv" using willing_boot by blast
  have "atoi ''-1'' = Some (- 1)" by (simp add: atoi_def is_digit_def digits_value_def digit_value_def in_int64_def)
  moreover note shop_bound
  moreover have "e_uuid_parse shop_env (req_UserID shop_request) = Some 1" using shop_parse by (simp add: shop_request_def)
  ultimately show ?thesis
    using negative_retry_count_breaks_orders [OF srv catch_all_recovers, of "''-1''" "- 1" shop_env shop_context shop_request 1
        "start_world empty_db"] srv
    by (fastforce simp: start_world_def)
qed

end
